(* ===== verification/Prelude.thy ===== *)
theory Prelude
  imports Main
begin

text \<open>
  The vocabulary every component of the model shares.

  \<^item> Time: instants and durations are integers counting nanoseconds, the unit of Go's
    \<open>time.Duration\<close>; a reading of \<open>time.Now()\<close> is an argument of the operation that
    takes it. The zero \<open>time.Time\<close> is the instant \<open>0\<close>.
  \<^item> Panics: an operation of the source that can panic returns a value of \<open>'a go\<close>, whose
    left summand names the panic. Errors the source returns as values are options or
    datatypes of the component.
  \<^item> Channels used as signals (\<open>chan struct{}\<close> that is only ever closed): a channel is a
    number, and a \<open>chans\<close> record says which number is next and which channels are closed.
  \<^item> \<open>for k := range m\<close> visits the keys of a Go map in an order the language leaves open:
    the operations take that order as a list of keys, and \<open>range_order\<close> says that a list
    is such an order.
\<close>

named_theorems go_simps \<open>unfolding rules of the panic monad and of the channel operations\<close>

type_synonym time = int
type_synonym duration = int

definition second :: duration where
  "second = 1000000000"

definition minute :: duration where
  "minute = 60 * second"

lemma second_pos [simp]: "0 < second" "0 \<le> second"
  by (simp_all add: second_def)

lemma minute_pos [simp]: "0 < minute"
  by (simp add: minute_def second_def)

section \<open>Panics\<close>

datatype panic =
    IndexOutOfRange
  | NilPointer
  | NilMapWrite
  | CloseOfClosedChannel
  | DivideByZero
  | DuplicateMetrics
  | MakeChanSize
  | NegativeCounter

type_synonym 'a go = "panic + 'a"

definition go_bind :: "'a go \<Rightarrow> ('a \<Rightarrow> 'b go) \<Rightarrow> 'b go" where
  "go_bind m f = (case m of Inl p \<Rightarrow> Inl p | Inr x \<Rightarrow> f x)"

lemma go_bind_simps [simp, go_simps]:
  "go_bind (Inl p) f = Inl p"
  "go_bind (Inr x) f = f x"
  by (simp_all add: go_bind_def)

lemma go_bind_Inr_iff: "go_bind m f = Inr y \<longleftrightarrow> (\<exists>x. m = Inr x \<and> f x = Inr y)"
  by (cases m) auto

lemma go_bind_Inr_E [elim]:
  assumes "go_bind m f = Inr y"
  obtains x where "m = Inr x" and "f x = Inr y"
  using assms by (auto simp: go_bind_Inr_iff)

text \<open>A loop whose body may panic: it stops at the first panic.\<close>

fun go_fold :: "('a \<Rightarrow> 's \<Rightarrow> 's go) \<Rightarrow> 'a list \<Rightarrow> 's \<Rightarrow> 's go" where
  "go_fold f [] s = Inr s"
| "go_fold f (x # xs) s = go_bind (f x s) (go_fold f xs)"

lemma go_fold_append: "go_fold f (xs @ ys) s = go_bind (go_fold f xs s) (go_fold f ys)"
proof (induction xs arbitrary: s)
  case Nil
  then show ?case by simp
next
  case (Cons x xs)
  then show ?case by (cases "f x s") simp_all
qed

lemma go_fold_invariant:
  assumes "P s"
    and "\<And>x s. x \<in> set xs \<Longrightarrow> P s \<Longrightarrow> \<exists>s'. f x s = Inr s' \<and> P s'"
  shows "\<exists>s'. go_fold f xs s = Inr s' \<and> P s'"
  using assms
proof (induction xs arbitrary: s)
  case Nil
  then show ?case by simp
next
  case (Cons x xs)
  from Cons.prems obtain s' where "f x s = Inr s'" and "P s'"
    by (metis list.set_intros(1))
  moreover have "\<exists>t. go_fold f xs s' = Inr t \<and> P t"
    using Cons.IH [OF \<open>P s'\<close>] Cons.prems(2) by simp
  ultimately show ?case by simp
qed

section \<open>Signal channels\<close>

record chans =
  next_chan :: nat
  closed :: "nat set"

definition no_chans :: chans where
  "no_chans = \<lparr>next_chan = 0, closed = {}\<rparr>"

text \<open>\<open>make(chan struct{})\<close>: a channel nobody holds yet, open.\<close>

definition make_chan :: "chans \<Rightarrow> nat \<times> chans" where
  "make_chan w = (next_chan w, w\<lparr>next_chan := Suc (next_chan w)\<rparr>)"

text \<open>\<open>close(c)\<close>: panics when the channel is closed already.\<close>

definition close_chan :: "nat \<Rightarrow> chans \<Rightarrow> chans go" where
  "close_chan c w = (if c \<in> closed w then Inl CloseOfClosedChannel
                     else Inr (w\<lparr>closed := insert c (closed w)\<rparr>))"

text \<open>A channel that exists and is open.\<close>

definition open_chan :: "chans \<Rightarrow> nat \<Rightarrow> bool" where
  "open_chan w c \<longleftrightarrow> c < next_chan w \<and> c \<notin> closed w"

definition chans_wf :: "chans \<Rightarrow> bool" where
  "chans_wf w \<longleftrightarrow> (\<forall>c \<in> closed w. c < next_chan w)"

lemma chans_wf_no_chans [simp]: "chans_wf no_chans"
  by (simp add: chans_wf_def no_chans_def)

lemma make_chan_wf: "make_chan w = (c, w') \<Longrightarrow> chans_wf w \<Longrightarrow> chans_wf w'"
  by (fastforce simp: make_chan_def chans_wf_def)

lemma make_chan_open: "make_chan w = (c, w') \<Longrightarrow> chans_wf w \<Longrightarrow> open_chan w' c"
  by (auto simp: make_chan_def chans_wf_def open_chan_def)

lemma make_chan_fresh: "make_chan w = (c, w') \<Longrightarrow> \<not> open_chan w c"
  by (auto simp: make_chan_def open_chan_def)

lemma make_chan_keeps_open: "make_chan w = (c, w') \<Longrightarrow> open_chan w d \<Longrightarrow> open_chan w' d"
  by (auto simp: make_chan_def open_chan_def)

lemma close_chan_open: "open_chan w c \<Longrightarrow> close_chan c w = Inr (w\<lparr>closed := insert c (closed w)\<rparr>)"
  by (simp add: close_chan_def open_chan_def)

lemma open_chan_after_close [simp]:
  "open_chan (w\<lparr>closed := insert c (closed w)\<rparr>) d \<longleftrightarrow> open_chan w d \<and> d \<noteq> c"
  by (auto simp: open_chan_def)

lemma chans_wf_after_close:
  "chans_wf w \<Longrightarrow> open_chan w c \<Longrightarrow> chans_wf (w\<lparr>closed := insert c (closed w)\<rparr>)"
  by (auto simp: chans_wf_def open_chan_def)

text \<open>Closing the channels of a map one after the other.\<close>

lemma close_each:
  assumes "distinct (map m order)" "\<forall>p \<in> set order. \<exists>c. m p = Some c \<and> open_chan ch c"
  shows "go_fold (\<lambda>p ch. case m p of None \<Rightarrow> Inr ch | Some c \<Rightarrow> close_chan c ch) order ch =
    Inr (ch\<lparr>closed := closed ch \<union> {c. \<exists>p \<in> set order. m p = Some c}\<rparr>)"
  using assms
proof (induction order arbitrary: ch)
  case Nil
  then show ?case by simp
next
  case (Cons p order)
  obtain c where c: "m p = Some c" "open_chan ch c" using Cons.prems(2) by auto
  let ?ch = "ch\<lparr>closed := insert c (closed ch)\<rparr>"
  have "\<exists>c'. m q = Some c' \<and> open_chan ?ch c'" if "q \<in> set order" for q
    using Cons.prems that c by (force simp: open_chan_def)
  then have "go_fold (\<lambda>p ch. case m p of None \<Rightarrow> Inr ch | Some c \<Rightarrow> close_chan c ch) order ?ch =
      Inr (?ch\<lparr>closed := closed ?ch \<union> {c. \<exists>p \<in> set order. m p = Some c}\<rparr>)"
    using Cons.IH [of ?ch] Cons.prems(1) by simp
  moreover have "insert c (closed ch \<union> {c. \<exists>p \<in> set order. m p = Some c}) =
      closed ch \<union> {c. \<exists>p \<in> set (p # order). m p = Some c}"
    using c(1) by auto
  ultimately show ?case
    using c by (simp add: close_chan_open)
qed

section \<open>Iteration over Go maps\<close>

definition range_order :: "('k \<rightharpoonup> 'v) \<Rightarrow> 'k list \<Rightarrow> bool" where
  "range_order m ks \<longleftrightarrow> distinct ks \<and> set ks = dom m"

lemma range_order_finite: "range_order m ks \<Longrightarrow> finite (dom m)"
  by (metis List.finite_set range_order_def)

lemma range_order_exists: "finite (dom m) \<Longrightarrow> \<exists>ks. range_order m ks"
  using finite_distinct_list [of "dom m"] by (auto simp: range_order_def)

lemma range_order_empty_iff [simp]: "range_order Map.empty ks \<longleftrightarrow> ks = []"
  by (auto simp: range_order_def)

text \<open>
  A loop that rewrites or deletes the entry it visits, and looks at no other, is a
  pointwise rewriting of the map, whatever the order.
\<close>

definition map_entries :: "('k \<Rightarrow> 'v \<Rightarrow> 'v option) \<Rightarrow> 'k list \<Rightarrow> ('k \<rightharpoonup> 'v) \<Rightarrow> ('k \<rightharpoonup> 'v)" where
  "map_entries f ks m = fold (\<lambda>k m. m(k := Option.bind (m k) (f k))) ks m"

lemma map_entries_simps [simp]:
  "map_entries f [] m = m"
  "map_entries f (k # ks) m = map_entries f ks (m(k := Option.bind (m k) (f k)))"
  by (simp_all add: map_entries_def)

lemma map_entries_notin: "k \<notin> set ks \<Longrightarrow> map_entries f ks m k = m k"
  by (induction ks arbitrary: m) auto

lemma map_entries_apply:
  "distinct ks \<Longrightarrow> map_entries f ks m k = (if k \<in> set ks then Option.bind (m k) (f k) else m k)"
  by (induction ks arbitrary: m) (auto simp: map_entries_notin)

lemma map_entries_range_order:
  "range_order m ks \<Longrightarrow> map_entries f ks m k = Option.bind (m k) (f k)"
  by (auto simp: map_entries_apply range_order_def domIff)

lemma map_entries_order_irrelevant:
  "range_order m ks \<Longrightarrow> range_order m ks' \<Longrightarrow> map_entries f ks m = map_entries f ks' m"
  by (rule ext) (simp add: map_entries_range_order)

lemma restrict_map_UNIV [simp]: "m |` UNIV = m"
  by (simp add: restrict_map_def)

section \<open>Lists\<close>

lemma takeWhile_append_stop: "(\<And>x. x \<in> set xs \<Longrightarrow> P x) \<Longrightarrow> \<not> P y \<Longrightarrow> takeWhile P (xs @ y # ys) = xs"
  by (induction xs) auto

lemma dropWhile_append_stop:
  "(\<And>x. x \<in> set xs \<Longrightarrow> P x) \<Longrightarrow> \<not> P y \<Longrightarrow> dropWhile P (xs @ y # ys) = y # ys"
  by (induction xs) auto

end
