(* ===== verification/Interfaces.thy ===== *)
theory Interfaces
  imports Prelude
begin

text \<open>
  The contracts the components rely on, as locales; each is interpreted on the model of
  the component that provides it.

  \<^item> \<open>bounded_window\<close>: a buffer that drops its oldest element when a new one does not fit.
    Provided by the live playlist, the segment duration window and the queue of a sink (theories
    \<open>Playlist\<close>, \<open>HlsMetrics\<close>, \<open>Sink\<close>).
  \<^item> \<open>keep_registry\<close>: what an uploader may assume of the file registry: a path held by an
    open channel is not removed. Provided by theory \<open>FileRegistry\<close>.
  \<^item> \<open>ttl_store\<close>: a store whose entries run down at every tick. Provided by the stream
    store (theory \<open>StreamStore\<close>) and by the publisher (theory \<open>Publish\<close>).
  \<^item> \<open>safe_steps\<close>: steps that never panic and keep an invariant, so runs of them do too.
    Provided by the playlist parser (theory \<open>HlsCorrect\<close>) and by the stream store.
\<close>

section \<open>Runs and invariants\<close>

fun run :: "('s \<Rightarrow> 'e \<Rightarrow> 's) \<Rightarrow> 's \<Rightarrow> 'e list \<Rightarrow> 's" where
  "run step s [] = s"
| "run step s (e # es) = run step (step s e) es"

lemma run_append: "run step s (es @ fs) = run step (run step s es) fs"
  by (induction es arbitrary: s) auto

text \<open>
  Steps that may panic. \<open>steps_allowed\<close> says of a list of events that each is acceptable in
  the state the earlier ones lead to.
\<close>

fun steps_allowed :: "('e \<Rightarrow> 's \<Rightarrow> 's go) \<Rightarrow> ('s \<Rightarrow> 'e \<Rightarrow> bool) \<Rightarrow> 's \<Rightarrow> 'e list \<Rightarrow> bool" where
  "steps_allowed step allowed s [] = True"
| "steps_allowed step allowed s (e # es) =
     (allowed s e \<and> (case step e s of Inl _ \<Rightarrow> True | Inr s' \<Rightarrow> steps_allowed step allowed s' es))"

locale safe_steps =
  fixes step :: "'e \<Rightarrow> 's \<Rightarrow> 's go"
    and allowed :: "'s \<Rightarrow> 'e \<Rightarrow> bool"
    and inv :: "'s \<Rightarrow> bool"
  assumes step_safe: "inv s \<Longrightarrow> allowed s e \<Longrightarrow> \<exists>s'. step e s = Inr s' \<and> inv s'"
begin

lemma run_safe: "inv s \<Longrightarrow> steps_allowed step allowed s es \<Longrightarrow> \<exists>s'. go_fold step es s = Inr s' \<and> inv s'"
proof (induction es arbitrary: s)
  case Nil
  then show ?case by simp
next
  case (Cons e es)
  then obtain s' where "step e s = Inr s'" "inv s'" using step_safe [of s e] by auto
  with Cons show ?case by simp
qed

end

section \<open>Bounded windows\<close>

locale bounded_window =
  fixes push :: "'a \<Rightarrow> 'q \<Rightarrow> 'q"
    and items :: "'q \<Rightarrow> 'a list"
    and capacity :: "'q \<Rightarrow> nat"
    and ok :: "'q \<Rightarrow> bool"
  assumes items_push: "ok q \<Longrightarrow>
      items (push x q) = (if length (items q) = capacity q then tl (items q) else items q) @ [x]"
    and capacity_push: "ok q \<Longrightarrow> capacity (push x q) = capacity q"
    and ok_push: "ok q \<Longrightarrow> ok (push x q)"
    and ok_bound: "ok q \<Longrightarrow> 0 < capacity q \<and> length (items q) \<le> capacity q"
begin

lemma ok_fold: "ok q \<Longrightarrow> ok (fold push xs q)"
  by (induction xs arbitrary: q) (auto intro: ok_push)

lemma capacity_fold: "ok q \<Longrightarrow> capacity (fold push xs q) = capacity q"
  by (induction xs arbitrary: q) (auto simp: ok_push capacity_push)

lemma items_push_drop:
  assumes "ok q"
  shows "items (push x q) = drop (Suc (length (items q)) - capacity q) (items q @ [x])"
proof (cases "length (items q) = capacity q")
  case True
  with ok_bound [OF assms] have "items q \<noteq> []" by auto
  with True ok_bound [OF assms] show ?thesis
    by (simp add: items_push [OF assms] Suc_diff_le drop_Suc Suc_leI)
next
  case False
  with ok_bound [OF assms] show ?thesis
    by (simp add: items_push [OF assms])
qed

text \<open>After any pushes the window is the last \<open>capacity\<close> elements of all that went in.\<close>

lemma items_fold:
  "ok q \<Longrightarrow> items (fold push xs q) = drop (length (items q @ xs) - capacity q) (items q @ xs)"
proof (induction xs arbitrary: q)
  case Nil
  with ok_bound [of q] show ?case by simp
next
  case (Cons x xs)
  let ?k = "Suc (length (items q)) - capacity q"
  let ?all = "items q @ x # xs"
  have cap: "0 < capacity q" "length (items q) \<le> capacity q"
    using ok_bound [OF Cons.prems] by simp_all
  have app: "items (push x q) @ xs = drop ?k ?all"
    using cap by (simp add: items_push_drop [OF Cons.prems] Suc_leI)
  have "items (fold push (x # xs) q)
      = drop (length (items (push x q) @ xs) - capacity q) (items (push x q) @ xs)"
    using Cons.IH [OF ok_push [OF Cons.prems]] by (simp add: capacity_push Cons.prems)
  also have "\<dots> = drop (length ?all - ?k - capacity q + ?k) ?all"
    unfolding app by (simp only: length_drop drop_drop)
  also have "length ?all - ?k - capacity q + ?k = length ?all - capacity q"
    using cap by simp
  finally show ?case .
qed

lemma length_bound: "ok q \<Longrightarrow> length (items (fold push xs q)) \<le> capacity q"
  using ok_bound [OF ok_fold] by (simp add: capacity_fold)

lemma newest_kept: "ok q \<Longrightarrow> last (items (push x q)) = x"
  by (simp add: items_push)

end

section \<open>Keeping files\<close>

datatype 't reg_event = KeepEv string nat | RegisterEv string time | TickEv 't

locale keep_registry =
  fixes holds :: "'r \<Rightarrow> string \<Rightarrow> nat \<Rightarrow> bool"
    and keepFile :: "string \<Rightarrow> nat \<Rightarrow> 'r \<Rightarrow> 'r"
    and registerFile :: "string \<Rightarrow> time \<Rightarrow> 'r \<Rightarrow> 'r"
    and tick :: "'t \<Rightarrow> 'r \<Rightarrow> 'r"
    and removed :: "'t \<Rightarrow> 'r \<Rightarrow> string set"
    and is_open :: "'t \<Rightarrow> nat \<Rightarrow> bool"
  assumes holds_keep: "holds (keepFile p c r) p c"
    and holds_keep_other: "q \<noteq> p \<Longrightarrow> holds (keepFile p c r) q d = holds r q d"
    and holds_register: "holds r p c \<Longrightarrow> holds (registerFile q due r) p c"
    and holds_tick: "holds r p c \<Longrightarrow> is_open t c \<Longrightarrow> holds (tick t r) p c"
    and removed_tick: "holds r p c \<Longrightarrow> is_open t c \<Longrightarrow> p \<notin> removed t r"
begin

fun reg_step :: "'r \<Rightarrow> 't reg_event \<Rightarrow> 'r" where
  "reg_step r (KeepEv p c) = keepFile p c r"
| "reg_step r (RegisterEv p d) = registerFile p d r"
| "reg_step r (TickEv t) = tick t r"

fun reg_removed :: "'r \<Rightarrow> 't reg_event list \<Rightarrow> string set" where
  "reg_removed r [] = {}"
| "reg_removed r (e # es) =
     (case e of TickEv t \<Rightarrow> removed t r | _ \<Rightarrow> {}) \<union> reg_removed (reg_step r e) es"

fun honours :: "string \<Rightarrow> nat \<Rightarrow> 't reg_event \<Rightarrow> bool" where
  "honours p c (KeepEv q d) = (q = p \<longrightarrow> d = c)"
| "honours p c (RegisterEv q d) = True"
| "honours p c (TickEv t) = is_open t c"

lemma holds_step: "holds r p c \<Longrightarrow> honours p c e \<Longrightarrow> holds (reg_step r e) p c"
  by (cases e) (auto simp: holds_register holds_tick intro: holds_keep iffD2 [OF holds_keep_other])

lemma held_not_removed:
  "holds r p c \<Longrightarrow> list_all (honours p c) es \<Longrightarrow> p \<notin> reg_removed r es \<and> holds (run reg_step r es) p c"
  by (induction es arbitrary: r) (auto simp: holds_step removed_tick split: reg_event.splits)

end

section \<open>Stores whose entries run down\<close>

locale ttl_store =
  fixes ttl :: "'s \<Rightarrow> 'k \<Rightarrow> int option"
    and tick :: "'t \<Rightarrow> 's \<Rightarrow> 's"
    and ok :: "'t \<Rightarrow> 's \<Rightarrow> bool"
    and dec :: "'s \<Rightarrow> int"
  assumes ttl_tick: "ok t s \<Longrightarrow>
      ttl (tick t s) k = (case ttl s k of None \<Rightarrow> None
                          | Some n \<Rightarrow> if n - dec s \<le> 0 then None else Some (n - dec s))"
    and dec_pos: "ok t s \<Longrightarrow> 0 < dec s"
    and dec_tick: "ok t s \<Longrightarrow> dec (tick t s) = dec s"
begin

fun ticks :: "'t list \<Rightarrow> 's \<Rightarrow> 's" where
  "ticks [] s = s"
| "ticks (t # ts) s = ticks ts (tick t s)"

fun ticks_ok :: "'t list \<Rightarrow> 's \<Rightarrow> bool" where
  "ticks_ok [] s = True"
| "ticks_ok (t # ts) s = (ok t s \<and> ticks_ok ts (tick t s))"

lemma ttl_none: "ttl s k = None \<Longrightarrow> ticks_ok ts s \<Longrightarrow> ttl (ticks ts s) k = None"
  by (induction ts arbitrary: s) (auto simp: ttl_tick)

text \<open>An entry with \<open>n\<close> left is there until its time is used up, and gone from then on.\<close>

lemma survives:
  "ttl s k = Some n \<Longrightarrow> ticks_ok ts s \<Longrightarrow> 0 < n - int (length ts) * dec s \<Longrightarrow>
   ttl (ticks ts s) k = Some (n - int (length ts) * dec s)"
proof (induction ts arbitrary: s n)
  case Nil
  then show ?case by simp
next
  case (Cons t ts)
  have d: "0 < dec s" "dec (tick t s) = dec s" using Cons.prems dec_pos dec_tick by auto
  then have "0 \<le> int (length ts) * dec s" by simp
  with Cons.prems have "0 < n - dec s" by (simp add: algebra_simps)
  with Cons.prems have "ttl (tick t s) k = Some (n - dec s)" by (simp add: ttl_tick)
  with Cons.IH [of "tick t s" "n - dec s"] Cons.prems d show ?case by (simp add: algebra_simps)
qed

lemma expires:
  "ttl s k = Some n \<Longrightarrow> ticks_ok ts s \<Longrightarrow> ts \<noteq> [] \<Longrightarrow> n - int (length ts) * dec s \<le> 0 \<Longrightarrow>
   ttl (ticks ts s) k = None"
proof (induction ts arbitrary: s n)
  case Nil
  then show ?case by simp
next
  case (Cons t ts)
  show ?case
  proof (cases "n - dec s \<le> 0")
    case True
    with Cons.prems have "ttl (tick t s) k = None" by (simp add: ttl_tick)
    with Cons.prems show ?thesis by (simp add: ttl_none)
  next
    case False
    with Cons.prems have "ttl (tick t s) k = Some (n - dec s)" by (simp add: ttl_tick)
    moreover have "ts \<noteq> []" using False Cons.prems by auto
    ultimately show ?thesis
      using Cons.IH [of "tick t s" "n - dec s"] Cons.prems dec_tick [of t s] by (simp add: algebra_simps)
  qed
qed

end

end
