(* ===== verification/GoPath.thy ===== *)
theory GoPath
  imports Prelude "HOL-Library.Sublist"
begin

text \<open>
  The functions of Go's \<open>strings\<close>, \<open>path\<close> and \<open>path/filepath\<close> packages that the program
  calls, on strings as lists of bytes with \<open>/\<close> as the path separator (on Unix \<open>path\<close> and
  \<open>path/filepath\<close> agree). \<open>clean\<close> is Go's lexical path cleaning, read off its
  documentation: elements are taken one by one, empty ones and \<open>.\<close> are dropped, \<open>..\<close>
  removes the element before it, is dropped at the root and kept at the start of a
  relative path. The lemmas say what the clients rely on: a cleaned absolute path has no
  empty, \<open>.\<close> or \<open>..\<close> element, cleaning twice changes nothing, and splitting and joining
  are inverse.
\<close>

named_theorems path_simps \<open>rewriting of cleaned paths into their elements\<close>

abbreviation slash :: char where
  "slash \<equiv> CHR ''/''"

section \<open>Package strings\<close>

definition hasPrefix :: "string \<Rightarrow> string \<Rightarrow> bool" where
  "hasPrefix s p \<longleftrightarrow> take (length p) s = p"

definition hasSuffix :: "string \<Rightarrow> string \<Rightarrow> bool" where
  "hasSuffix s p \<longleftrightarrow> length p \<le> length s \<and> drop (length s - length p) s = p"

definition trimPrefix :: "string \<Rightarrow> string \<Rightarrow> string" where
  "trimPrefix s p = (if hasPrefix s p then drop (length p) s else s)"

definition trimSuffix :: "string \<Rightarrow> string \<Rightarrow> string" where
  "trimSuffix s p = (if hasSuffix s p then take (length s - length p) s else s)"

fun contains :: "string \<Rightarrow> string \<Rightarrow> bool" where
  "contains [] p \<longleftrightarrow> p = []"
| "contains (c # s) p \<longleftrightarrow> hasPrefix (c # s) p \<or> contains s p"

text \<open>\<open>strings.Split\<close> with a separator of one byte, the only kind the program uses.\<close>

fun split :: "char \<Rightarrow> string \<Rightarrow> string list" where
  "split c [] = [[]]"
| "split c (x # xs) =
     (if x = c then [] # split c xs
      else (case split c xs of [] \<Rightarrow> [[x]] | h # t \<Rightarrow> (x # h) # t))"

text \<open>\<open>strings.Join\<close> with a separator of one byte.\<close>

fun join :: "char \<Rightarrow> string list \<Rightarrow> string" where
  "join c [] = []"
| "join c [e] = e"
| "join c (e # f # es) = e @ c # join c (f # es)"

lemma hasPrefix_iff_prefix: "hasPrefix s p \<longleftrightarrow> prefix p s"
  by (metis append_eq_conv_conj hasPrefix_def prefix_def append_take_drop_id)

lemma hasPrefix_append [simp]: "hasPrefix (p @ s) p"
  by (simp add: hasPrefix_def)

lemma hasPrefixE:
  assumes "hasPrefix s p"
  obtains t where "s = p @ t"
  using assms by (metis hasPrefix_iff_prefix prefix_def)

lemma hasSuffix_iff_suffix: "hasSuffix s p \<longleftrightarrow> suffix p s"
proof
  assume "hasSuffix s p"
  then show "suffix p s"
    unfolding hasSuffix_def by (metis suffix_drop)
next
  assume "suffix p s"
  then show "hasSuffix s p"
    by (auto simp: hasSuffix_def suffix_def)
qed

lemma contains_iff_sublist: "contains s p \<longleftrightarrow> sublist p s"
  by (induction s) (auto simp: hasPrefix_iff_prefix sublist_Cons_right)

lemma trimSuffix_append [simp]: "trimSuffix (s @ p) p = s"
  by (simp add: trimSuffix_def hasSuffix_def)

lemma split_not_Nil [simp]: "split c s \<noteq> []"
  by (induction s) (auto split: list.splits)

lemma split_elem_free: "e \<in> set (split c s) \<Longrightarrow> c \<notin> set e"
proof (induction s arbitrary: e)
  case Nil
  then show ?case by simp
next
  case (Cons x xs)
  obtain h t where ht: "split c xs = h # t"
    by (cases "split c xs") simp_all
  with Cons show ?case by (auto split: if_splits)
qed

lemma split_free [simp]: "c \<notin> set s \<Longrightarrow> split c s = [s]"
  by (induction s) auto

lemma split_append: "c \<notin> set e \<Longrightarrow> split c (e @ c # s) = e # split c s"
  by (induction e) auto

lemma join_split [simp]: "join c (split c s) = s"
proof (induction s)
  case Nil
  then show ?case by simp
next
  case (Cons x xs)
  obtain h t where ht: "split c xs = h # t"
    by (cases "split c xs") simp_all
  with Cons show ?case by (cases t) auto
qed

lemma split_join:
  "es \<noteq> [] \<Longrightarrow> (\<And>e. e \<in> set es \<Longrightarrow> c \<notin> set e) \<Longrightarrow> split c (join c es) = es"
proof (induction c es rule: join.induct)
  case (3 c e f es)
  then show ?case by (simp add: split_append)
qed simp_all

lemma join_Cons: "es \<noteq> [] \<Longrightarrow> join c (e # es) = e @ c # join c es"
  by (cases es) simp_all

lemma join_append:
  "es \<noteq> [] \<Longrightarrow> fs \<noteq> [] \<Longrightarrow> join c (es @ fs) = join c es @ c # join c fs"
  by (induction c es rule: join.induct) (auto simp: join_Cons)

lemma join_Nil_iff: "[] \<notin> set es \<Longrightarrow> join c es = [] \<longleftrightarrow> es = []"
  by (induction c es rule: join.induct) auto

lemma split_append_general:
  "split c (s @ c # t) = split c s @ split c t"
proof (induction s)
  case Nil
  then show ?case by simp
next
  case (Cons x xs)
  obtain h r where "split c xs = h # r"
    by (cases "split c xs") simp_all
  with Cons show ?case by auto
qed

section \<open>Path cleaning\<close>

definition clean_step :: "bool \<Rightarrow> string list \<Rightarrow> string \<Rightarrow> string list" where
  "clean_step rooted st e =
     (if e = '''' \<or> e = ''.'' then st
      else if e = ''..'' then
        (case st of
           [] \<Rightarrow> if rooted then [] else [''..'']
         | t # ts \<Rightarrow> if t = ''..'' then ''..'' # st else ts)
      else e # st)"

definition clean_elems :: "bool \<Rightarrow> string list \<Rightarrow> string list" where
  "clean_elems rooted es = rev (foldl (clean_step rooted) [] es)"

definition clean :: "string \<Rightarrow> string" where
  "clean p =
     (if p = '''' then ''.''
      else
        let rooted = (hd p = slash);
            out = (if rooted then [slash] else []) @ join slash (clean_elems rooted (split slash p))
        in if out = '''' then ''.'' else out)"

definition isAbs :: "string \<Rightarrow> bool" where
  "isAbs p \<longleftrightarrow> hasPrefix p [slash]"

text \<open>An element that cleaning leaves alone, and the absolute path made of such elements.\<close>

definition plain_elem :: "string \<Rightarrow> bool" where
  "plain_elem e \<longleftrightarrow> e \<noteq> '''' \<and> e \<noteq> ''.'' \<and> e \<noteq> ''..'' \<and> slash \<notin> set e"

definition abs_path :: "string list \<Rightarrow> string" where
  "abs_path es = slash # join slash es"

lemma isAbs_iff: "isAbs p \<longleftrightarrow> (\<exists>q. p = slash # q)"
  by (cases p) (auto simp: isAbs_def hasPrefix_def)

lemma isAbs_abs_path [simp]: "isAbs (abs_path es)"
  by (simp add: isAbs_iff abs_path_def)

lemma clean_step_plain [simp]: "plain_elem e \<Longrightarrow> clean_step r st e = e # st"
  by (simp add: clean_step_def plain_elem_def)

lemma clean_step_empty [simp]: "clean_step r st [] = st"
  by (simp add: clean_step_def)

lemma clean_step_keeps_plain:
  "list_all plain_elem st \<Longrightarrow> slash \<notin> set e \<Longrightarrow> list_all plain_elem (clean_step True st e)"
  by (cases st) (auto simp: clean_step_def plain_elem_def)

lemma foldl_clean_step_plain:
  "list_all plain_elem st \<Longrightarrow> \<forall>e \<in> set es. slash \<notin> set e \<Longrightarrow>
   list_all plain_elem (foldl (clean_step True) st es)"
  by (induction es arbitrary: st) (auto simp: clean_step_keeps_plain)

lemma clean_elems_plain:
  "\<forall>e \<in> set es. slash \<notin> set e \<Longrightarrow> list_all plain_elem (clean_elems True es)"
  by (simp add: clean_elems_def foldl_clean_step_plain list_all_iff)
    (metis foldl_clean_step_plain list.pred_inject(1) list_all_iff)

lemma foldl_clean_step_id:
  "list_all plain_elem es \<Longrightarrow> foldl (clean_step r) st es = rev es @ st"
  by (induction es arbitrary: st) auto

lemma clean_elems_id [path_simps]: "list_all plain_elem es \<Longrightarrow> clean_elems r es = es"
  by (simp add: clean_elems_def foldl_clean_step_id)

lemma clean_elems_Nil_Cons [path_simps]: "clean_elems r ([] # es) = clean_elems r es"
  by (simp add: clean_elems_def)

lemma split_abs [path_simps]: "split slash (slash # q) = [] # split slash q"
  by simp

lemma clean_abs [path_simps]:
  "clean (slash # q) = abs_path (clean_elems True (split slash q))"
  by (simp add: clean_def Let_def clean_elems_Nil_Cons abs_path_def)

lemma clean_isAbs: "isAbs p \<Longrightarrow> isAbs (clean p)"
  by (auto simp: isAbs_iff clean_abs abs_path_def)

lemma plain_slash_free: "list_all plain_elem es \<Longrightarrow> e \<in> set es \<Longrightarrow> slash \<notin> set e"
  by (auto simp: list_all_iff plain_elem_def)

lemma split_abs_path [path_simps]:
  "list_all plain_elem es \<Longrightarrow> split slash (abs_path es) = [] # (if es = [] then [[]] else es)"
  using split_join [of es slash] by (auto simp: abs_path_def list_all_iff plain_elem_def)

lemma clean_abs_path [path_simps, simp]: "list_all plain_elem es \<Longrightarrow> clean (abs_path es) = abs_path es"
proof -
  assume es: "list_all plain_elem es"
  then have "clean_elems True (split slash (join slash es)) = es"
  proof (cases "es = []")
    case True
    then show ?thesis by (simp add: clean_elems_def)
  next
    case False
    then have "split slash (join slash es) = es"
      using split_join plain_slash_free [OF es] by blast
    then show ?thesis by (simp add: clean_elems_id es)
  qed
  then show ?thesis by (simp add: abs_path_def clean_abs)
qed

text \<open>The elements of a cleaned absolute path.\<close>

lemma clean_abs_elems:
  assumes "isAbs p"
  obtains es where "list_all plain_elem es" and "clean p = abs_path es"
proof -
  from assms obtain q where q: "p = slash # q" by (auto simp: isAbs_iff)
  show thesis
  proof
    show "list_all plain_elem (clean_elems True (split slash q))"
      by (rule clean_elems_plain) (auto simp: split_elem_free)
    show "clean p = abs_path (clean_elems True (split slash q))"
      by (simp add: q clean_abs)
  qed
qed

lemma clean_clean_abs: "isAbs p \<Longrightarrow> clean (clean p) = clean p"
  by (metis clean_abs_elems clean_abs_path)

lemma abs_path_inject:
  assumes "list_all plain_elem es" "list_all plain_elem fs" "abs_path es = abs_path fs"
  shows "es = fs"
proof -
  have "split slash (abs_path es) = split slash (abs_path fs)"
    using assms(3) by simp
  then show ?thesis
    using assms(1,2) by (auto simp: split_abs_path plain_elem_def split: if_splits)
qed

section \<open>Dir, Base, Ext, Join\<close>

text \<open>\<open>Dir\<close>: everything up to and including the last slash, cleaned.\<close>

definition dir :: "string \<Rightarrow> string" where
  "dir p = clean (rev (dropWhile (\<lambda>c. c \<noteq> slash) (rev p)))"

text \<open>\<open>Base\<close>: the last element after trailing slashes are removed.\<close>

definition base :: "string \<Rightarrow> string" where
  "base p =
     (if p = '''' then ''.''
      else
        let q = dropWhile (\<lambda>c. c = slash) (rev p);
            b = rev (takeWhile (\<lambda>c. c \<noteq> slash) q)
        in if b = '''' then [slash] else b)"

text \<open>\<open>Ext\<close>: the suffix that begins at the final dot of the final element.\<close>

definition ext :: "string \<Rightarrow> string" where
  "ext p =
     (let r = takeWhile (\<lambda>c. c \<noteq> slash) (rev p)
      in if CHR ''.'' \<in> set r then rev (takeWhile (\<lambda>c. c \<noteq> CHR ''.'') r @ [CHR ''.'']) else '''')"

text \<open>\<open>Join\<close>: empty elements at the front are ignored, the rest is joined and cleaned.\<close>

definition joinPath :: "string list \<Rightarrow> string" where
  "joinPath es =
     (case dropWhile (\<lambda>e. e = '''') es of
        [] \<Rightarrow> ''''
      | f # fs \<Rightarrow> clean (join slash (f # fs)))"

lemma abs_path_snoc:
  "abs_path (es @ [e]) = (if es = [] then slash # e else abs_path es @ slash # e)"
  by (auto simp: abs_path_def join_append)

lemma rev_abs_path_snoc:
  "rev (abs_path (es @ [e])) = rev e @ slash # (if es = [] then [] else rev (abs_path es))"
  by (auto simp: abs_path_snoc)

lemma plain_elem_slash_free [simp]: "plain_elem e \<Longrightarrow> slash \<notin> set e"
  by (simp add: plain_elem_def)

lemma plain_elem_nonempty [simp]: "plain_elem e \<Longrightarrow> e \<noteq> []"
  by (simp add: plain_elem_def)

lemma dir_abs_path [path_simps, simp]:
  assumes "list_all plain_elem es" "plain_elem e"
  shows "dir (abs_path (es @ [e])) = abs_path es"
proof -
  have sf: "c \<noteq> slash" if "c \<in> set (rev e)" for c
    using assms(2) that by (auto dest: plain_elem_slash_free)
  have "dropWhile (\<lambda>c. c \<noteq> slash) (rev (abs_path (es @ [e])))
      = slash # (if es = [] then [] else rev (abs_path es))"
    unfolding rev_abs_path_snoc by (rule dropWhile_append_stop) (use sf in auto)
  then have "dir (abs_path (es @ [e])) = clean (if es = [] then [slash] else abs_path es @ [slash])"
    by (simp add: dir_def)
  also have "\<dots> = abs_path es"
  proof (cases "es = []")
    case True
    then show ?thesis by (simp add: clean_abs clean_elems_def abs_path_def)
  next
    case False
    then have "split slash (join slash es @ [slash]) = es @ [[]]"
      using split_append_general [of slash "join slash es" "[]"]
        split_join [of es slash] plain_slash_free [OF assms(1)] by simp
    then have "clean (abs_path es @ [slash]) = abs_path (clean_elems True (es @ [[]]))"
      by (simp add: abs_path_def clean_abs)
    with False show ?thesis
      by (simp add: clean_elems_def foldl_clean_step_id assms(1))
  qed
  finally show ?thesis .
qed

lemma base_abs_path [path_simps, simp]:
  assumes "plain_elem e"
  shows "base (abs_path (es @ [e])) = e"
proof -
  let ?r = "if es = [] then [] else rev (abs_path es)"
  have sf: "c \<noteq> slash" if "c \<in> set (rev e)" for c
    using assms that by (auto dest: plain_elem_slash_free)
  have "rev e \<noteq> []" using assms by simp
  then have "dropWhile (\<lambda>c. c = slash) (rev e @ slash # ?r) = rev e @ slash # ?r"
    using sf by (cases "rev e") auto
  moreover have "takeWhile (\<lambda>c. c \<noteq> slash) (rev e @ slash # ?r) = rev e"
    by (rule takeWhile_append_stop) (use sf in auto)
  moreover have "abs_path (es @ [e]) \<noteq> []"
    by (simp add: abs_path_def)
  ultimately show ?thesis
    using assms by (simp add: base_def rev_abs_path_snoc Let_def)
qed

lemma clean_elems_append:
  "clean_elems r (xs @ ys) = rev (foldl (clean_step r) (rev (clean_elems r xs)) ys)"
  by (simp add: clean_elems_def)

lemma clean_elems_split_join:
  assumes "list_all plain_elem es"
  shows "clean_elems True (split slash (join slash es)) = es"
proof (rule abs_path_inject)
  show "list_all plain_elem (clean_elems True (split slash (join slash es)))"
    by (rule clean_elems_plain) (auto simp: split_elem_free)
  show "abs_path (clean_elems True (split slash (join slash es))) = abs_path es"
    using clean_abs_path [OF assms] by (simp add: clean_abs abs_path_def)
qed (rule assms)

lemma joinPath_abs:
  assumes "list_all plain_elem es"
  shows "joinPath [abs_path es, q] = abs_path (rev (foldl (clean_step True) (rev es) (split slash q)))"
proof -
  have "joinPath [abs_path es, q] = clean (slash # (join slash es @ slash # q))"
    by (simp add: joinPath_def abs_path_def)
  also have "\<dots> = abs_path (clean_elems True (split slash (join slash es) @ split slash q))"
    by (simp only: clean_abs split_append_general)
  finally show ?thesis
    by (simp add: clean_elems_append clean_elems_split_join assms)
qed

lemma joinPath_abs_abs [path_simps, simp]:
  assumes "list_all plain_elem es" "list_all plain_elem fs"
  shows "joinPath [abs_path es, abs_path fs] = abs_path (es @ fs)"
  using assms by (simp add: joinPath_abs split_abs_path foldl_clean_step_id)

lemma joinPath_abs_abs_slash [path_simps, simp]:
  assumes "list_all plain_elem es" "list_all plain_elem fs"
  shows "joinPath [abs_path es, abs_path fs @ [slash]] = abs_path (es @ fs)"
  using assms split_append_general [of slash "abs_path fs" "[]"]
  by (simp add: joinPath_abs split_abs_path foldl_clean_step_id)

lemma joinPath_abs_elem [path_simps, simp]:
  assumes "list_all plain_elem es" "plain_elem e"
  shows "joinPath [abs_path es, e] = abs_path (es @ [e])"
  using assms by (simp add: joinPath_abs)

lemma ext_abs_path [path_simps]: "plain_elem e \<Longrightarrow> ext (abs_path (es @ [e])) = ext e"
proof -
  assume e: "plain_elem e"
  have "takeWhile (\<lambda>c. c \<noteq> slash) (rev e @ slash # (if es = [] then [] else rev (abs_path es))) = rev e"
    using plain_elem_slash_free [OF e] by (intro takeWhile_append_stop) auto
  moreover have "takeWhile (\<lambda>c. c \<noteq> slash) (rev e) = rev e"
    using plain_elem_slash_free [OF e] by (auto simp: takeWhile_eq_all_conv)
  ultimately show ?thesis unfolding ext_def rev_abs_path_snoc by (simp only: Let_def)
qed

text \<open>Whether a path never leads above where it begins; \<open>n\<close> is the depth reached.\<close>

fun stays_below :: "nat \<Rightarrow> string list \<Rightarrow> bool" where
  "stays_below n [] \<longleftrightarrow> True"
| "stays_below n (e # es) \<longleftrightarrow>
     (if e = '''' \<or> e = ''.'' then stays_below n es
      else if e = ''..'' then 0 < n \<and> stays_below (n - 1) es
      else stays_below (Suc n) es)"

lemma clean_step_up: "t \<noteq> ''..'' \<Longrightarrow> clean_step r (t # ts) ''..'' = ts"
  by (simp add: clean_step_def)

lemma clean_step_skip: "e = '''' \<or> e = ''.'' \<Longrightarrow> clean_step r st e = st"
  by (simp add: clean_step_def)

lemma clean_step_push: "\<not> (e = '''' \<or> e = ''.'') \<Longrightarrow> e \<noteq> ''..'' \<Longrightarrow> clean_step r st e = e # st"
  by (simp add: clean_step_def)

lemma foldl_clean_step_below:
  "stays_below (length st) es \<Longrightarrow> ''..'' \<notin> set st \<Longrightarrow>
   foldl (clean_step True) (st @ below) es = foldl (clean_step True) st es @ below"
proof (induction es arbitrary: st)
  case (Cons e es)
  consider "e = '''' \<or> e = ''.''" | "e = ''..''" | "\<not> (e = '''' \<or> e = ''.'')" "e \<noteq> ''..''" by blast
  then show ?case
  proof cases
    case 1
    then have "stays_below (length st) es" using Cons.prems(1) by (simp only: stays_below.simps if_True)
    from Cons.IH [OF this Cons.prems(2)] show ?thesis by (simp only: foldl.simps clean_step_skip [OF 1])
  next
    case 2
    have "\<not> (''..'' = '''' \<or> ''..'' = ''.'')" by simp
    then have b: "0 < length st" "stays_below (length st - 1) es" using Cons.prems(1) unfolding 2 stays_below.simps by (simp_all only: if_False if_True)
    then obtain t ts where st: "st = t # ts" by (cases st) simp_all
    have t: "t \<noteq> ''..''" "''..'' \<notin> set ts" using Cons.prems(2) unfolding st by (auto simp only: list.set insert_iff)
    have "stays_below (length ts) es" using b(2) unfolding st length_Cons diff_Suc_1 .
    from Cons.IH [OF this t(2)] show ?thesis unfolding st 2 by (simp only: foldl.simps append_Cons clean_step_up [OF t(1)])
  next
    case 3
    then have "stays_below (length (e # st)) es" using Cons.prems(1) by (simp only: stays_below.simps if_False length_Cons)
    moreover have "''..'' \<notin> set (e # st)" using 3(2) Cons.prems(2) by (simp only: list.set insert_iff) (metis (full_types))
    ultimately have "foldl (clean_step True) ((e # st) @ below) es = foldl (clean_step True) (e # st) es @ below" by (rule Cons.IH)
    then show ?thesis by (simp only: foldl.simps append_Cons clean_step_push [OF 3])
  qed
qed simp

text \<open>Joining such a path to a directory is cleaning it first.\<close>

lemma joinPath_below:
  assumes "list_all plain_elem out" "isAbs p" "stays_below 0 (split slash p)" "clean p = abs_path es" "list_all plain_elem es"
  shows "joinPath [abs_path out, p] = abs_path (out @ es)"
proof -
  obtain q where q: "p = slash # q" using assms(2) by (auto simp: isAbs_iff)
  have "list_all plain_elem (clean_elems True (split slash q))" by (rule clean_elems_plain) (auto simp: split_elem_free)
  then have es: "es = clean_elems True (split slash q)" using abs_path_inject assms(4,5) by (simp add: q clean_abs)
  have "foldl (clean_step True) ([] @ rev out) (split slash q) = foldl (clean_step True) [] (split slash q) @ rev out"
    by (rule foldl_clean_step_below) (use assms(3) in \<open>simp_all add: q split_abs\<close>)
  then show ?thesis unfolding joinPath_abs [OF assms(1)] by (simp add: q es clean_elems_def)
qed

lemma plain_stays_below: "list_all plain_elem es \<Longrightarrow> stays_below n (es @ fs) = stays_below (n + length es) fs"
proof (induction es arbitrary: n)
  case (Cons e es)
  have "\<not> (e = '''' \<or> e = ''.'')" "e \<noteq> ''..''" using Cons.prems unfolding list.pred_inject(2) plain_elem_def by (simp_all only: simp_thms)
  then have "stays_below n ((e # es) @ fs) = stays_below (Suc n) (es @ fs)" by (simp only: append_Cons stays_below.simps if_False)
  also have "\<dots> = stays_below (Suc n + length es) fs" using Cons by (simp only: list.pred_inject(2))
  finally show ?case by simp
qed simp

end
