(* ===== verification/Playlist.thy ===== *)
theory Playlist
  imports Complex_Main Interfaces GoPath
begin

text \<open>
  The playlist data of \<open>src/upload/hls.go\<close> and the operations on it that touch no file: the
  live playlist with its bounded window, and the rewriting of master playlists.

  The playlist library \<open>github.com/quangngotan95/go-m3u8\<close> is not part of the repository. Its
  items and playlists appear with the fields the program reads or writes (\<open>OtherItem\<close> stands
  for every other kind of item); its functions are a parameter of theory \<open>Hls\<close>.
\<close>

record SegmentItem =
  seg_segment :: string
  seg_duration :: real

record MediaItem =
  mi_type :: string
  mi_group :: string
  mi_language :: "string option"
  mi_default :: "bool option"
  mi_uri :: "string option"

record PlaylistItem =
  pi_uri :: string
  pi_resolution :: "(int \<times> int) option" \<comment> \<open>width and height\<close>
  pi_codecs :: "string option"
  pi_width :: "int option"
  pi_height :: "int option"

datatype item =
    Segment SegmentItem
  | Discontinuity
  | Media MediaItem
  | Variant PlaylistItem
  | OtherItem string

record Playlist =
  pl_items :: "item list"
  pl_sequence :: int
  pl_discontinuity :: "int option"
  pl_target :: int
  pl_version :: "int option"
  pl_live :: bool

fun is_segment :: "item \<Rightarrow> bool" where
  "is_segment (Segment _) = True"
| "is_segment _ = False"

section \<open>The live playlist\<close>

record LivePlaylist =
  lp_playlist :: Playlist
  lp_size :: int

definition newLivePlaylist :: "int \<Rightarrow> LivePlaylist" where
  "newLivePlaylist sz =
     \<lparr>lp_playlist = \<lparr>pl_items = [], pl_sequence = 0, pl_discontinuity = Some 0, pl_target = 0,
        pl_version = Some 3, pl_live = True\<rparr>, lp_size = sz\<rparr>"

text \<open>\<open>append\<close>: the removed item, if the playlist was full, and the playlist.\<close>

definition lp_append :: "item \<Rightarrow> LivePlaylist \<Rightarrow> (item option \<times> LivePlaylist) go" where
  "lp_append item lp =
     (let p = lp_playlist lp
      in if int (length (pl_items p)) = lp_size lp then
           (case pl_items p of
              [] \<Rightarrow> Inl IndexOutOfRange
            | deleted # rest \<Rightarrow>
                go_bind
                  (case deleted of
                     Segment _ \<Rightarrow> Inr (p\<lparr>pl_sequence := pl_sequence p + 1\<rparr>)
                   | Discontinuity \<Rightarrow>
                       (case pl_discontinuity p of
                          None \<Rightarrow> Inl NilPointer
                        | Some n \<Rightarrow> Inr (p\<lparr>pl_discontinuity := Some (n + 1)\<rparr>))
                   | _ \<Rightarrow> Inr p)
                  (\<lambda>p'. Inr (Some deleted, lp\<lparr>lp_playlist := p'\<lparr>pl_items := rest @ [item]\<rparr>\<rparr>)))
         else Inr (None, lp\<lparr>lp_playlist := p\<lparr>pl_items := pl_items p @ [item]\<rparr>\<rparr>))"

definition applyDiscontinuity :: "LivePlaylist \<Rightarrow> (item option \<times> LivePlaylist) go" where
  "applyDiscontinuity lp = lp_append Discontinuity lp"

definition setSegmentTarget :: "int \<Rightarrow> LivePlaylist \<Rightarrow> LivePlaylist" where
  "setSegmentTarget target lp = lp\<lparr>lp_playlist := (lp_playlist lp)\<lparr>pl_target := target\<rparr>\<rparr>"

abbreviation lp_items :: "LivePlaylist \<Rightarrow> item list" where
  "lp_items lp \<equiv> pl_items (lp_playlist lp)"

definition lp_ok :: "LivePlaylist \<Rightarrow> bool" where
  "lp_ok lp \<longleftrightarrow> 0 < lp_size lp \<and> int (length (lp_items lp)) \<le> lp_size lp
     \<and> pl_discontinuity (lp_playlist lp) \<noteq> None"

definition lp_push :: "item \<Rightarrow> LivePlaylist \<Rightarrow> LivePlaylist" where
  "lp_push item lp = snd (projr (lp_append item lp))"

definition lp_evicted :: "LivePlaylist \<Rightarrow> item option" where
  "lp_evicted lp = (if int (length (lp_items lp)) = lp_size lp then Some (hd (lp_items lp)) else None)"

lemma lp_ok_new: "0 < sz \<Longrightarrow> lp_ok (newLivePlaylist sz)"
  by (simp add: lp_ok_def newLivePlaylist_def)

lemma lp_append_ok:
  "lp_ok lp \<Longrightarrow> lp_append item lp = Inr (lp_evicted lp, lp_push item lp)"
  by (cases "lp_items lp")
    (auto simp: lp_append_def lp_push_def lp_evicted_def lp_ok_def Let_def split: item.splits)

lemma lp_push_items:
  "lp_ok lp \<Longrightarrow>
   lp_items (lp_push item lp) =
     (if int (length (lp_items lp)) = lp_size lp then tl (lp_items lp) else lp_items lp) @ [item]"
  by (cases "lp_items lp")
    (auto simp: lp_append_def lp_push_def lp_ok_def Let_def split: item.splits)

lemma lp_push_size: "lp_ok lp \<Longrightarrow> lp_size (lp_push item lp) = lp_size lp"
  by (cases "lp_items lp") (auto simp: lp_append_def lp_push_def lp_ok_def Let_def split: item.splits)

lemma lp_push_discontinuity:
  "lp_ok lp \<Longrightarrow> pl_discontinuity (lp_playlist (lp_push item lp)) \<noteq> None"
  by (cases "lp_items lp") (auto simp: lp_append_def lp_push_def lp_ok_def Let_def split: item.splits)

lemma lp_push_ok: "lp_ok lp \<Longrightarrow> lp_ok (lp_push item lp)"
  using lp_push_size [of lp item] lp_push_discontinuity [of lp item] lp_push_items [of lp item]
  by (cases "lp_items lp") (auto simp: lp_ok_def)

interpretation live: bounded_window lp_push lp_items "\<lambda>lp. nat (lp_size lp)" lp_ok
proof unfold_locales
  fix lp x
  assume ok: "lp_ok lp"
  then show "lp_items (lp_push x lp) =
      (if length (lp_items lp) = nat (lp_size lp) then tl (lp_items lp) else lp_items lp) @ [x]"
    by (auto simp: lp_push_items lp_ok_def)
  show "nat (lp_size (lp_push x lp)) = nat (lp_size lp)" and "lp_ok (lp_push x lp)"
    using ok by (simp_all add: lp_push_size lp_push_ok)
  show "0 < nat (lp_size lp) \<and> length (lp_items lp) \<le> nat (lp_size lp)"
    using ok by (auto simp: lp_ok_def)
qed

text \<open>Appending a list of items, as the loops of the parser do.\<close>

definition lp_append_all :: "item list \<Rightarrow> LivePlaylist \<Rightarrow> LivePlaylist go" where
  "lp_append_all hist lp = go_fold (\<lambda>item lp. go_bind (lp_append item lp) (\<lambda>(_, lp'). Inr lp')) hist lp"

lemma lp_append_all_fold: "lp_ok lp \<Longrightarrow> lp_append_all hist lp = Inr (fold lp_push hist lp)"
  unfolding lp_append_all_def
  by (induction hist arbitrary: lp) (simp_all add: lp_append_ok lp_push_ok)

fun segments_in :: "item list \<Rightarrow> int" where
  "segments_in [] = 0"
| "segments_in (i # is) = (if is_segment i then 1 else 0) + segments_in is"

fun discontinuities_in :: "item list \<Rightarrow> int" where
  "discontinuities_in [] = 0"
| "discontinuities_in (i # is) = (if i = Discontinuity then 1 else 0) + discontinuities_in is"

lemma segments_in_append: "segments_in (xs @ ys) = segments_in xs + segments_in ys"
  by (induction xs) auto

lemma discontinuities_in_append:
  "discontinuities_in (xs @ ys) = discontinuities_in xs + discontinuities_in ys"
  by (induction xs) auto

lemma segments_in_filter: "segments_in xs = int (length (filter is_segment xs))"
  by (induction xs) auto

lemma lp_push_counters:
  assumes "lp_ok lp" "pl_discontinuity (lp_playlist lp) = Some n"
  defines "full \<equiv> int (length (lp_items lp)) = lp_size lp"
  shows "pl_sequence (lp_playlist (lp_push item lp)) =
      pl_sequence (lp_playlist lp) + (if full then segments_in [hd (lp_items lp)] else 0)"
    and "pl_discontinuity (lp_playlist (lp_push item lp)) =
      Some (n + (if full then discontinuities_in [hd (lp_items lp)] else 0))"
  using assms by (cases "lp_items lp";
      auto simp: lp_append_def lp_push_def lp_ok_def Let_def split: item.splits)+

text \<open>
  Two totals no push changes but by the item pushed: segments removed plus segments listed,
  and the same for discontinuities.
\<close>

definition lp_total_segments :: "LivePlaylist \<Rightarrow> int" where
  "lp_total_segments lp = pl_sequence (lp_playlist lp) + segments_in (lp_items lp)"

definition lp_total_discontinuities :: "LivePlaylist \<Rightarrow> int" where
  "lp_total_discontinuities lp = the (pl_discontinuity (lp_playlist lp)) + discontinuities_in (lp_items lp)"

lemma lp_push_totals:
  assumes "lp_ok lp"
  shows "lp_total_segments (lp_push item lp) = lp_total_segments lp + segments_in [item]"
    and "lp_total_discontinuities (lp_push item lp) = lp_total_discontinuities lp + discontinuities_in [item]"
proof -
  obtain n where n: "pl_discontinuity (lp_playlist lp) = Some n"
    using assms by (auto simp: lp_ok_def)
  note cnt = lp_push_counters [OF assms n]
  show "lp_total_segments (lp_push item lp) = lp_total_segments lp + segments_in [item]"
    using assms by (cases "lp_items lp")
      (auto simp: lp_total_segments_def cnt lp_push_items segments_in_append lp_ok_def)
  show "lp_total_discontinuities (lp_push item lp) = lp_total_discontinuities lp + discontinuities_in [item]"
    using assms by (cases "lp_items lp")
      (auto simp: lp_total_discontinuities_def cnt n lp_push_items discontinuities_in_append lp_ok_def)
qed

lemma lp_fold_totals:
  "lp_ok lp \<Longrightarrow> lp_total_segments (fold lp_push hist lp) = lp_total_segments lp + segments_in hist
     \<and> lp_total_discontinuities (fold lp_push hist lp) = lp_total_discontinuities lp + discontinuities_in hist"
  by (induction hist arbitrary: lp) (auto simp: lp_push_totals lp_push_ok)

lemma take_drop_counts:
  "segments_in (take k hist) = segments_in hist - segments_in (drop k hist)"
  "discontinuities_in (take k hist) = discontinuities_in hist - discontinuities_in (drop k hist)"
  using segments_in_append [of "take k hist" "drop k hist"]
    discontinuities_in_append [of "take k hist" "drop k hist"] by simp_all

section \<open>Master playlists\<close>

definition defaultCodecs :: string where
  "defaultCodecs = ''avc1.640828,mp4a.40.2''"

fun fixupItem :: "item \<Rightarrow> item" where
  "fixupItem (Variant v) =
     Variant (if pi_codecs v = None then v\<lparr>pi_codecs := Some defaultCodecs\<rparr> else v)"
| "fixupItem i = i"

definition fixupCodecInformation :: "Playlist \<Rightarrow> Playlist" where
  "fixupCodecInformation p = p\<lparr>pl_items := map fixupItem (pl_items p)\<rparr>"

text \<open>The loop of \<open>filterHDResolutions\<close>: the items that stay, and whether a variant stays.\<close>

fun filterHD :: "item list \<Rightarrow> item list \<times> bool" where
  "filterHD [] = ([], False)"
| "filterHD (i # is) =
     (case filterHD is of (kept, res) \<Rightarrow>
        (case i of
           Variant v \<Rightarrow>
             (case pi_resolution v of
                Some (width, height) \<Rightarrow> if width \<ge> 1280 then (kept, res) else (i # kept, True)
              | None \<Rightarrow> (i # kept, True))
         | _ \<Rightarrow> (i # kept, res)))"

definition filterHDResolutions :: "Playlist \<Rightarrow> Playlist \<times> bool" where
  "filterHDResolutions p = (case filterHD (pl_items p) of (kept, res) \<Rightarrow> (p\<lparr>pl_items := kept\<rparr>, res))"

fun item_language :: "item \<Rightarrow> string option" where
  "item_language (Media m) = (if mi_default m = None then None else mi_language m)"
| "item_language _ = None"

definition getLanguages :: "Playlist \<Rightarrow> string list" where
  "getLanguages p = List.map_filter item_language (pl_items p)"

text \<open>\<open>strings.ToLower\<close> on ASCII letters; other bytes are left as they are.\<close>

definition lower_char :: "char \<Rightarrow> char" where
  "lower_char c = (let n = (of_char c :: nat) in if 65 \<le> n \<and> n \<le> 90 then char_of (n + 32) else c)"

definition toLower :: "string \<Rightarrow> string" where
  "toLower s = map lower_char s"

definition languageMasterName :: "string \<Rightarrow> string \<Rightarrow> string" where
  "languageMasterName lang sfx = toLower lang @ ''_'' @ sfx @ ''.m3u8''"

text \<open>The inner loop of \<open>generateLanguageMasters\<close>: one language becomes the default.\<close>

fun setDefault :: "string \<Rightarrow> item \<Rightarrow> item" where
  "setDefault lang (Media m) =
     Media (case (mi_default m, mi_language m) of
              (Some _, Some l) \<Rightarrow> m\<lparr>mi_default := Some (l = lang)\<rparr>
            | _ \<Rightarrow> m)"
| "setDefault lang i = i"

definition setDefaultLanguage :: "string \<Rightarrow> Playlist \<Rightarrow> Playlist" where
  "setDefaultLanguage lang p = p\<lparr>pl_items := map (setDefault lang) (pl_items p)\<rparr>"

fun is_variant :: "item \<Rightarrow> bool" where
  "is_variant (Variant _) = True"
| "is_variant _ = False"

fun is_hd :: "item \<Rightarrow> bool" where
  "is_hd (Variant v) = (case pi_resolution v of Some (width, _) \<Rightarrow> width \<ge> 1280 | None \<Rightarrow> False)"
| "is_hd _ = False"

lemma filterHD_eq:
  "filterHD is = (filter (\<lambda>i. \<not> is_hd i) is, \<exists>i \<in> set is. is_variant i \<and> \<not> is_hd i)"
  by (induction "is") (auto split: item.splits option.splits prod.splits)

lemma item_language_setDefault [simp]: "item_language (setDefault lang i) = item_language i"
  by (cases i) (auto split: option.splits)

lemma item_language_fixup [simp]: "item_language (fixupItem i) = item_language i"
  by (cases i) auto

lemma map_filter_setDefault:
  "List.map_filter item_language (map (setDefault lang) is) = List.map_filter item_language is"
  by (induction "is") (simp_all add: map_filter_simps split: option.splits)

lemma getLanguages_setDefault [simp]: "getLanguages (setDefaultLanguage lang p) = getLanguages p"
  by (simp add: getLanguages_def setDefaultLanguage_def map_filter_setDefault)

section \<open>Properties\<close>

text \<open>The live playlist is a window on its own history: after any sequence of appends to a new
  playlist of size \<open>n > 0\<close>, none of which fails, it lists the last \<open>n\<close> items, its media sequence
  number is the number of segments that have left it and its discontinuity sequence the number of
  discontinuities that have. So a segment keeps its sequence number for as long as it is listed, and
  numbers grow by one per segment.\<close>

lemma live_playlist_window:
  assumes "0 < n"
  shows "\<exists>lp. lp_append_all hist (newLivePlaylist n) = Inr lp
    \<and> pl_items (lp_playlist lp) = drop (length hist - nat n) hist
    \<and> pl_sequence (lp_playlist lp) = segments_in (take (length hist - nat n) hist)
    \<and> pl_discontinuity (lp_playlist lp) = Some (discontinuities_in (take (length hist - nat n) hist))"
proof -
  let ?new = "newLivePlaylist n" and ?k = "length hist - nat n"
  let ?lp = "fold lp_push hist ?new"
  have ok: "lp_ok ?new" using assms by (rule lp_ok_new)
  have items: "lp_items ?lp = drop ?k hist"
    using live.items_fold [OF ok, of hist] by (simp add: newLivePlaylist_def)
  have tot: "lp_total_segments ?lp = segments_in hist"
    "lp_total_discontinuities ?lp = discontinuities_in hist"
    using lp_fold_totals [OF ok, of hist]
    by (simp_all add: lp_total_segments_def lp_total_discontinuities_def newLivePlaylist_def)
  have "pl_discontinuity (lp_playlist ?lp) \<noteq> None"
    using live.ok_fold [OF ok] by (simp add: lp_ok_def)
  then show ?thesis
    using tot items by (auto simp: lp_append_all_fold [OF ok] take_drop_counts
        lp_total_segments_def lp_total_discontinuities_def)
qed

definition demo_segment :: "string \<Rightarrow> item" where
  "demo_segment name = Segment \<lparr>seg_segment = name, seg_duration = 3\<rparr>"

text \<open>A playlist of size zero cannot take an item: the first append reads the first element of an
  empty slice and panics.\<close>

lemma live_playlist_size_zero: "lp_append item (newLivePlaylist 0) = Inl IndexOutOfRange"
  by (simp add: lp_append_def newLivePlaylist_def)

text \<open>The SD master playlist: \<open>filterHDResolutions\<close> drops exactly the variants at least 1280
  wide, keeps every other item in order, and answers whether a variant is left.\<close>

lemma filterHDResolutions_exact:
  "pl_items (fst (filterHDResolutions p)) = filter (\<lambda>i. \<not> is_hd i) (pl_items p)
   \<and> (snd (filterHDResolutions p) \<longleftrightarrow> (\<exists>i \<in> set (pl_items (fst (filterHDResolutions p))). is_variant i))"
  by (auto simp: filterHDResolutions_def filterHD_eq)

text \<open>After \<open>fixupCodecInformation\<close> every variant names its codecs; codecs that were there are
  kept, nothing else changes, and a second pass does nothing.\<close>

lemma fixupCodecInformation_complete:
  "(\<forall>v. Variant v \<in> set (pl_items (fixupCodecInformation p)) \<longrightarrow> pi_codecs v \<noteq> None)
   \<and> fixupCodecInformation (fixupCodecInformation p) = fixupCodecInformation p
   \<and> (\<forall>i \<in> set (pl_items p). (\<forall>v. i = Variant v \<longrightarrow> pi_codecs v \<noteq> None) \<longrightarrow> fixupItem i = i)
   \<and> length (pl_items (fixupCodecInformation p)) = length (pl_items p)"
proof (intro conjI)
  have fix_idem: "fixupItem (fixupItem i) = fixupItem i" for i by (cases i) auto
  then show "fixupCodecInformation (fixupCodecInformation p) = fixupCodecInformation p"
    by (simp add: fixupCodecInformation_def)
  have "fixupItem i = Variant v \<Longrightarrow> pi_codecs v \<noteq> None" for i v by (cases i) auto
  then show "\<forall>v. Variant v \<in> set (pl_items (fixupCodecInformation p)) \<longrightarrow> pi_codecs v \<noteq> None"
    by (auto simp: fixupCodecInformation_def)
  show "\<forall>i \<in> set (pl_items p). (\<forall>v. i = Variant v \<longrightarrow> pi_codecs v \<noteq> None) \<longrightarrow> fixupItem i = i"
  proof (intro ballI impI)
    fix i
    assume "\<forall>v. i = Variant v \<longrightarrow> pi_codecs v \<noteq> None"
    then show "fixupItem i = i" by (cases i) auto
  qed
qed (simp add: fixupCodecInformation_def)

end
