(* ===== verification/HlsMetrics.thy ===== *)
theory HlsMetrics
  imports Complex_Main Interfaces
begin

text \<open>
  \<open>src/upload/hls_metrics.go\<close>: the durations of the last ten segments of every playlist, the
  target duration, and what a scrape reports of them. Durations are real numbers: the model
  leaves out the rounding of \<open>float64\<close>. Registration with the metrics library is not modelled;
  the counter of invalid durations is a number per playlist name.
\<close>

record HLSMetrics =
  hm_targetDuration :: int
  hm_segmentDurations :: "string \<rightharpoonup> real list"
  hm_invalidDurations :: "string \<Rightarrow> nat"

definition NewHLSMetrics :: HLSMetrics where
  "NewHLSMetrics = \<lparr>hm_targetDuration = 0, hm_segmentDurations = Map.empty, hm_invalidDurations = (\<lambda>_. 0)\<rparr>"

definition RecordTargetDuration :: "int \<Rightarrow> string \<Rightarrow> HLSMetrics \<Rightarrow> HLSMetrics" where
  "RecordTargetDuration targetDuration playlist m =
     (let m1 = (if hm_targetDuration m = 0 then m\<lparr>hm_targetDuration := targetDuration\<rparr> else m)
      in if hm_targetDuration m1 \<noteq> targetDuration
         then m1\<lparr>hm_invalidDurations := (hm_invalidDurations m1)(playlist := Suc (hm_invalidDurations m1 playlist)),
                 hm_targetDuration := targetDuration\<rparr>
         else m1)"

definition RecordSegmentDuration :: "string \<Rightarrow> real \<Rightarrow> HLSMetrics \<Rightarrow> HLSMetrics" where
  "RecordSegmentDuration playlistName duration m =
     (let durations = (case hm_segmentDurations m playlistName of None \<Rightarrow> [] | Some ds \<Rightarrow> ds);
          ds = durations @ [duration]
      in m\<lparr>hm_segmentDurations :=
             (hm_segmentDurations m)(playlistName \<mapsto> (if length ds > 10 then tl ds else ds))\<rparr>)"

definition float_abs :: "real \<Rightarrow> real" where
  "float_abs f = (if f < 0 then - f else f)"

text \<open>The inner loop of \<open>Collect\<close>: the running maximum and sum of the differences.\<close>

fun collect_loop :: "int \<Rightarrow> real list \<Rightarrow> real \<times> real \<Rightarrow> real \<times> real" where
  "collect_loop target [] acc = acc"
| "collect_loop target (d # ds) (mx, sm) =
     (let diff = float_abs (d - real_of_int target)
      in collect_loop target ds (if diff > mx then diff else mx, sm + diff))"

datatype hls_metric = DiffMax string real | DiffMean string real

definition HLSMetrics_Collect :: "string list \<Rightarrow> HLSMetrics \<Rightarrow> hls_metric list" where
  "HLSMetrics_Collect order m =
     (if hm_targetDuration m = 0 then []
      else concat (map (\<lambda>name.
             case hm_segmentDurations m name of
               None \<Rightarrow> []
             | Some ds \<Rightarrow>
                 if ds = [] then []
                 else (case collect_loop (hm_targetDuration m) ds (0, 0) of
                         (mx, sm) \<Rightarrow> [DiffMax name mx, DiffMean name (sm / real (length ds))])) order))"

definition durations_of :: "string \<Rightarrow> HLSMetrics \<Rightarrow> real list" where
  "durations_of name m = (case hm_segmentDurations m name of None \<Rightarrow> [] | Some ds \<Rightarrow> ds)"

interpretation durations: bounded_window "RecordSegmentDuration name" "durations_of name" "\<lambda>_. 10"
    "\<lambda>m. length (durations_of name m) \<le> 10" for name
  by unfold_locales (auto simp: RecordSegmentDuration_def durations_of_def Let_def tl_append_if split: option.splits)

lemma durations_of_other:
  "name' \<noteq> name \<Longrightarrow> durations_of name' (RecordSegmentDuration name d m) = durations_of name' m"
  by (simp add: durations_of_def RecordSegmentDuration_def Let_def)

lemma float_abs_abs: "float_abs x = \<bar>x\<bar>"
  by (simp add: float_abs_def)

lemma collect_loop_eq:
  "collect_loop t ds (mx, sm) =
     (fold max (map (\<lambda>d. \<bar>d - real_of_int t\<bar>) ds) mx, sm + (\<Sum>d\<leftarrow>ds. \<bar>d - real_of_int t\<bar>))"
  by (induction ds arbitrary: mx sm) (auto simp: Let_def float_abs_abs max_def)

lemma fold_max_ge: "(mx :: real) \<le> fold max xs mx" "x \<in> set xs \<Longrightarrow> x \<le> fold max xs mx"
proof (induction xs arbitrary: mx)
  case (Cons y ys)
  { case 1
    show ?case using Cons.IH(1) [of "max y mx"] by simp
  next
    case 2
    then show ?case using Cons.IH(1) [of "max y mx"] Cons.IH(2) [of "max y mx"] by auto
  }
qed simp_all

lemma fold_max_in: "fold max xs (mx :: real) \<in> insert mx (set xs)"
  by (induction xs arbitrary: mx) (force simp: max_def)+

lemma sum_list_bound: "(\<And>x. x \<in> set xs \<Longrightarrow> x \<le> (b :: real)) \<Longrightarrow> sum_list xs \<le> real (length xs) * b"
  by (induction xs) (auto simp: algebra_simps add_mono)

section \<open>Properties\<close>

text \<open>The metrics of a playlist are about its last ten segments and no others: after any number
  of recorded durations the window holds the last ten of them.\<close>

lemma duration_window:
  "durations_of name (fold (RecordSegmentDuration name) ds NewHLSMetrics) = drop (length ds - 10) ds"
proof -
  have "durations_of name NewHLSMetrics = []" by (simp add: durations_of_def NewHLSMetrics_def)
  then show ?thesis
    using durations.items_fold [of name NewHLSMetrics ds] by simp
qed

text \<open>A scrape reports, for a playlist with recorded durations, the largest and the mean
  difference to the target duration: the maximum is the difference of one of the segments, no
  segment has a larger one, and the mean is not above it.\<close>

lemma collect_max_and_mean:
  assumes "hm_targetDuration m \<noteq> 0" "hm_segmentDurations m name = Some ds" "ds \<noteq> []"
  shows "\<exists>mx mean. HLSMetrics_Collect [name] m = [DiffMax name mx, DiffMean name mean]
    \<and> (\<exists>d \<in> set ds. mx = \<bar>d - real_of_int (hm_targetDuration m)\<bar>)
    \<and> (\<forall>d \<in> set ds. \<bar>d - real_of_int (hm_targetDuration m)\<bar> \<le> mx)
    \<and> mean \<le> mx"
proof -
  let ?diff = "\<lambda>d. \<bar>d - real_of_int (hm_targetDuration m)\<bar>"
  let ?diffs = "map ?diff ds"
  let ?mx = "fold max ?diffs 0"
  have ge: "?diff d \<le> ?mx" if "d \<in> set ds" for d
    using fold_max_ge(2) [of "?diff d" ?diffs] that by simp
  have "?mx \<in> insert 0 (set ?diffs)" by (rule fold_max_in)
  moreover obtain d0 where "d0 \<in> set ds" using assms(3) by (cases ds) auto
  ultimately have "\<exists>d \<in> set ds. ?mx = ?diff d"
    using ge [of d0] by (metis (no_types, lifting) abs_ge_zero imageE insertE order_antisym set_map)
  moreover have "sum_list ?diffs \<le> real (length ?diffs) * ?mx"
    by (rule sum_list_bound) (use ge in auto)
  then have "sum_list ?diffs / real (length ds) \<le> ?mx"
    using assms(3) by (simp add: divide_le_eq mult.commute)
  ultimately show ?thesis
    using assms ge by (simp add: HLSMetrics_Collect_def collect_loop_eq)
qed

end
