(* ===== verification/FileRegistry.thy ===== *)
theory FileRegistry
  imports Interfaces
begin

text \<open>
  \<open>src/upload/file_registry.go\<close>: the registry that removes uploaded files. Its state is a
  map from paths to entries; an entry has a deadline and may be held by a keep channel.
  The goroutine \<open>run\<close> takes one event at a time (a tick, an entry from the \<open>add\<close> channel,
  a status request, or cancellation): \<open>registry_step\<close> is one turn of that loop, and its
  result lists the paths handed to \<open>os.RemoveAll\<close> in order.

  An \<open>expire\<close> reads the clock once at its start and again for every entry whose channel
  turned out to be closed: \<open>clk\<close> gives that second reading. A tick sees one state of the
  channels.
\<close>

record FileEntry =
  fe_path :: string
  fe_deadline :: time
  fe_keep :: "nat option"

record FileRegistryConfig =
  ExpireInterval :: duration
  KeepDelay :: duration

definition DefaultExpireInterval :: duration where
  "DefaultExpireInterval = 5 * second"

definition DefaultKeepDelay :: duration where
  "DefaultKeepDelay = 10 * second"

record FileRegistry =
  fr_config :: FileRegistryConfig
  fr_files :: "string \<rightharpoonup> FileEntry"

definition NewFileRegistry :: "FileRegistryConfig \<Rightarrow> FileRegistry" where
  "NewFileRegistry config =
     (let c1 = (if ExpireInterval config = 0 then config\<lparr>ExpireInterval := DefaultExpireInterval\<rparr> else config);
          c2 = (if KeepDelay c1 = 0 then c1\<lparr>KeepDelay := DefaultKeepDelay\<rparr> else c1)
      in \<lparr>fr_config = c2, fr_files = Map.empty\<rparr>)"

text \<open>The values \<open>RegisterFile\<close> and \<open>KeepFile\<close> put on the \<open>add\<close> channel.\<close>

definition RegisterFile :: "string \<Rightarrow> time \<Rightarrow> FileEntry" where
  "RegisterFile path deadline = \<lparr>fe_path = path, fe_deadline = deadline, fe_keep = None\<rparr>"

definition KeepFile :: "string \<Rightarrow> nat \<Rightarrow> FileEntry" where
  "KeepFile path keep = \<lparr>fe_path = path, fe_deadline = 0, fe_keep = Some keep\<rparr>"

text \<open>The loop's \<open>add\<close> case: an entry without keep channel never replaces one that has it.\<close>

definition registry_add :: "FileEntry \<Rightarrow> FileRegistry \<Rightarrow> FileRegistry" where
  "registry_add new r =
     (let put = r\<lparr>fr_files := (fr_files r)(fe_path new \<mapsto> new)\<rparr>
      in case fr_files r (fe_path new) of
           Some entry \<Rightarrow> if fe_keep new = None \<and> fe_keep entry \<noteq> None then r else put
         | None \<Rightarrow> put)"

text \<open>The loop's \<open>get\<close> case with \<open>FileStatus\<close>: a copy of the entry, if there is one.\<close>

definition FileStatus :: "string \<Rightarrow> FileRegistry \<Rightarrow> FileEntry option" where
  "FileStatus path r = fr_files r path"

text \<open>\<open>cleanup\<close>: every path is removed from disk, in the order of iteration.\<close>

definition registry_cleanup :: "string list \<Rightarrow> FileRegistry \<Rightarrow> string list" where
  "registry_cleanup order r = filter (\<lambda>p. fr_files r p \<noteq> None) order"

fun expire_loop :: "duration \<Rightarrow> chans \<Rightarrow> time \<Rightarrow> (string \<Rightarrow> time) \<Rightarrow> string list \<Rightarrow>
    (string \<rightharpoonup> FileEntry) \<Rightarrow> string list \<times> (string \<rightharpoonup> FileEntry)" where
  "expire_loop keepDelay w now clk [] m = ([], m)"
| "expire_loop keepDelay w now clk (path # order) m =
     (case m path of
        None \<Rightarrow> expire_loop keepDelay w now clk order m
      | Some entry \<Rightarrow>
          (case fe_keep entry of
             Some c \<Rightarrow>
               if c \<in> closed w
               then expire_loop keepDelay w now clk order
                      (m(path \<mapsto> entry\<lparr>fe_deadline := clk path + keepDelay, fe_keep := None\<rparr>))
               else expire_loop keepDelay w now clk order m
           | None \<Rightarrow>
               if fe_deadline entry > now
               then expire_loop keepDelay w now clk order m
               else (case expire_loop keepDelay w now clk order (m(path := None)) of
                       (rm, m') \<Rightarrow> (path # rm, m'))))"

definition registry_expire :: "chans \<Rightarrow> time \<Rightarrow> (string \<Rightarrow> time) \<Rightarrow> string list \<Rightarrow> FileRegistry \<Rightarrow>
    string list \<times> FileRegistry" where
  "registry_expire w now clk order r =
     (case expire_loop (KeepDelay (fr_config r)) w now clk order (fr_files r) of
        (rm, m') \<Rightarrow> (rm, r\<lparr>fr_files := m'\<rparr>))"

datatype registry_event =
    RegTick chans time "string \<Rightarrow> time" "string list"
  | RegAdd FileEntry
  | RegGet string
  | RegDone "string list"

text \<open>One turn of \<open>run\<close>: the paths removed, the reply to a status request, the new state.\<close>

fun registry_step :: "FileRegistry \<Rightarrow> registry_event \<Rightarrow> string list \<times> FileEntry option \<times> FileRegistry" where
  "registry_step r (RegDone order) = (registry_cleanup order r, None, r)"
| "registry_step r (RegTick w now clk order) =
     (case registry_expire w now clk order r of (rm, r') \<Rightarrow> (rm, None, r'))"
| "registry_step r (RegAdd new) = ([], None, registry_add new r)"
| "registry_step r (RegGet path) = ([], FileStatus path r, r)"

fun_cases registry_step_addE: "registry_step r (RegAdd new) = (rm, reply, r')"

section \<open>What a tick does to an entry\<close>

text \<open>The fate of a single entry at a tick, independent of every other entry.\<close>

definition expire_entry :: "duration \<Rightarrow> chans \<Rightarrow> time \<Rightarrow> time \<Rightarrow> FileEntry \<Rightarrow> FileEntry option" where
  "expire_entry keepDelay w now later entry =
     (case fe_keep entry of
        Some c \<Rightarrow> if c \<in> closed w then Some (entry\<lparr>fe_deadline := later + keepDelay, fe_keep := None\<rparr>)
                  else Some entry
      | None \<Rightarrow> if fe_deadline entry > now then Some entry else None)"

definition dies :: "duration \<Rightarrow> chans \<Rightarrow> time \<Rightarrow> (string \<Rightarrow> time) \<Rightarrow> (string \<rightharpoonup> FileEntry) \<Rightarrow> string \<Rightarrow> bool" where
  "dies kd w now clk m p \<longleftrightarrow> (\<exists>e. m p = Some e \<and> expire_entry kd w now (clk p) e = None)"

lemma expire_entry_None [simp]:
  "expire_entry kd w now later e = None \<longleftrightarrow> fe_keep e = None \<and> fe_deadline e \<le> now"
  by (auto simp: expire_entry_def split: option.splits)

lemma expire_loop_Cons:
  "expire_loop kd w now clk (p # order) m =
     (if dies kd w now clk m p then apfst (Cons p) else id)
       (expire_loop kd w now clk order (m(p := Option.bind (m p) (expire_entry kd w now (clk p)))))"
proof (cases "m p")
  case None
  then show ?thesis by (simp add: dies_def fun_upd_idem)
next
  case (Some e)
  then show ?thesis
  proof (cases "fe_keep e")
    case None
    then show ?thesis
      using Some by (auto simp: dies_def expire_entry_def fun_upd_idem split: prod.splits)
  next
    case (Some c)
    then show ?thesis
      using \<open>m p = Some e\<close> by (auto simp: dies_def expire_entry_def fun_upd_idem)
  qed
qed

lemma expire_loop_map:
  "snd (expire_loop kd w now clk order m) = map_entries (\<lambda>p. expire_entry kd w now (clk p)) order m"
  by (induction order arbitrary: m) (simp_all add: expire_loop_Cons del: expire_loop.simps(2))

lemma expire_loop_removed:
  "distinct order \<Longrightarrow>
   fst (expire_loop kd w now clk order m) = filter (dies kd w now clk m) order"
proof (induction order arbitrary: m)
  case Nil
  then show ?case by simp
next
  case (Cons p order)
  let ?m = "m(p := Option.bind (m p) (expire_entry kd w now (clk p)))"
  have "filter (dies kd w now clk ?m) order = filter (dies kd w now clk m) order"
    using Cons.prems by (intro filter_cong) (auto simp: dies_def)
  with Cons show ?case by (simp add: expire_loop_Cons del: expire_loop.simps(2))
qed

lemma registry_add_files:
  "fr_files (registry_add new r) =
     (if fe_keep new = None \<and> (\<exists>e. fr_files r (fe_path new) = Some e \<and> fe_keep e \<noteq> None)
      then fr_files r else (fr_files r)(fe_path new \<mapsto> new))"
  by (auto simp: registry_add_def Let_def split: option.splits)

lemma registry_add_config [simp]: "fr_config (registry_add new r) = fr_config r"
  by (auto simp: registry_add_def Let_def split: option.splits)

lemma registry_expire_files:
  "range_order (fr_files r) order \<Longrightarrow> registry_expire w now clk order r = (rm, r') \<Longrightarrow>
   fr_files r' p = Option.bind (fr_files r p) (expire_entry (KeepDelay (fr_config r)) w now (clk p))"
  using expire_loop_map [of "KeepDelay (fr_config r)" w now clk order "fr_files r"]
  by (auto simp: registry_expire_def map_entries_range_order split: prod.splits)

lemma registry_expire_removed:
  "range_order (fr_files r) order \<Longrightarrow> registry_expire w now clk order r = (rm, r') \<Longrightarrow>
   p \<in> set rm \<longleftrightarrow> (\<exists>e. fr_files r p = Some e \<and> fe_keep e = None \<and> fe_deadline e \<le> now)"
  using expire_loop_removed [of order "KeepDelay (fr_config r)" w now clk "fr_files r"]
  by (auto simp: registry_expire_def range_order_def dies_def domIff split: prod.splits)

lemma registry_expire_config:
  "registry_expire w now clk order r = (rm, r') \<Longrightarrow> fr_config r' = fr_config r"
  by (auto simp: registry_expire_def split: prod.splits)

section \<open>The registry keeps what is held\<close>

definition registry_holds :: "FileRegistry \<Rightarrow> string \<Rightarrow> nat \<Rightarrow> bool" where
  "registry_holds r p c \<longleftrightarrow> (\<exists>e. fr_files r p = Some e \<and> fe_keep e = Some c)"

type_synonym registry_tick = "chans \<times> time \<times> (string \<Rightarrow> time)"

text \<open>
  A tick in any order of iteration: the state it leaves and the paths it removes do not
  depend on the order (\<open>registry_expire_files\<close>, \<open>registry_expire_removed\<close>), so both are
  functions of the registry.
\<close>

definition expired :: "registry_tick \<Rightarrow> FileRegistry \<Rightarrow> FileRegistry" where
  "expired t r = (case t of (w, now, clk) \<Rightarrow>
     r\<lparr>fr_files := \<lambda>p. Option.bind (fr_files r p) (expire_entry (KeepDelay (fr_config r)) w now (clk p))\<rparr>)"

definition expired_paths :: "registry_tick \<Rightarrow> FileRegistry \<Rightarrow> string set" where
  "expired_paths t r = (case t of (w, now, clk) \<Rightarrow>
     {p. \<exists>e. fr_files r p = Some e \<and> fe_keep e = None \<and> fe_deadline e \<le> now})"

lemma registry_expire_eq:
  assumes "range_order (fr_files r) order"
  shows "snd (registry_expire w now clk order r) = expired (w, now, clk) r"
    and "set (fst (registry_expire w now clk order r)) = expired_paths (w, now, clk) r"
proof -
  obtain rm r' where eq: "registry_expire w now clk order r = (rm, r')" by force
  show "snd (registry_expire w now clk order r) = expired (w, now, clk) r"
    using registry_expire_files [OF assms eq] registry_expire_config [OF eq] eq
    by (auto simp: expired_def registry_expire_def fun_eq_iff split: prod.splits)
  show "set (fst (registry_expire w now clk order r)) = expired_paths (w, now, clk) r"
    using registry_expire_removed [OF assms eq] eq by (auto simp: expired_paths_def)
qed

interpretation reg: keep_registry registry_holds
  "\<lambda>p c. registry_add (KeepFile p c)" "\<lambda>p d. registry_add (RegisterFile p d)"
  expired expired_paths "\<lambda>t c. c \<notin> closed (fst t)"
proof unfold_locales
  fix p :: string and c r
  show "registry_holds (registry_add (KeepFile p c) r) p c"
    by (auto simp: registry_holds_def registry_add_files KeepFile_def)
next
  fix q p :: string and c r d
  assume "q \<noteq> p"
  then show "registry_holds (registry_add (KeepFile p c) r) q d = registry_holds r q d"
    by (auto simp: registry_holds_def registry_add_files KeepFile_def)
next
  fix r p c and q :: string and due
  assume "registry_holds r p c"
  then show "registry_holds (registry_add (RegisterFile q due) r) p c"
    by (auto simp: registry_holds_def registry_add_files RegisterFile_def)
next
  fix r p c and t :: registry_tick
  assume "registry_holds r p c" and "c \<notin> closed (fst t)"
  then show "registry_holds (expired t r) p c" and "p \<notin> expired_paths t r"
    by (auto simp: registry_holds_def expired_def expired_paths_def expire_entry_def split: prod.splits)
qed

section \<open>Runs of the registry goroutine\<close>

fun registry_run :: "FileRegistry \<Rightarrow> registry_event list \<Rightarrow> string list \<times> FileRegistry" where
  "registry_run r [] = ([], r)"
| "registry_run r (e # es) =
     (case registry_step r e of (rm, _, r') \<Rightarrow> apfst ((@) rm) (registry_run r' es))"

text \<open>Every tick of a run iterates over the map as it is at that moment.\<close>

fun registry_run_ok :: "FileRegistry \<Rightarrow> registry_event list \<Rightarrow> bool" where
  "registry_run_ok r [] = True"
| "registry_run_ok r (e # es) =
     ((case e of RegTick _ _ _ order \<Rightarrow> distinct order \<and> set order = dom (fr_files r) | _ \<Rightarrow> True)
      \<and> registry_run_ok (snd (snd (registry_step r e))) es)"

text \<open>Events that leave channel \<open>c\<close> in charge of path \<open>p\<close>.\<close>

fun leaves_to :: "string \<Rightarrow> nat \<Rightarrow> registry_event \<Rightarrow> bool" where
  "leaves_to p c (RegTick w _ _ _) = (c \<notin> closed w)"
| "leaves_to p c (RegAdd new) = (fe_path new = p \<longrightarrow> fe_keep new = None \<or> fe_keep new = Some c)"
| "leaves_to p c (RegGet _) = True"
| "leaves_to p c (RegDone _) = False"

lemma registry_step_tick:
  assumes "range_order (fr_files r) order" "registry_step r (RegTick w now clk order) = (rm, reply, r')"
  shows "r' = expired (w, now, clk) r" and "set rm = expired_paths (w, now, clk) r"
  using registry_expire_eq [OF assms(1), of w now clk] assms(2) by (auto split: prod.splits)

lemma holds_registry_step:
  assumes "registry_holds r p c" "leaves_to p c e" "registry_run_ok r [e]"
    and "registry_step r e = (rm, reply, r')"
  shows "registry_holds r' p c \<and> p \<notin> set rm"
proof (cases e)
  case (RegTick w now clk order)
  then have ro: "range_order (fr_files r) order"
    using assms(3) by (simp add: range_order_def)
  have "c \<notin> closed w" using assms(2) RegTick by simp
  then show ?thesis
    using reg.holds_tick [OF assms(1), of "(w, now, clk)"] reg.removed_tick [OF assms(1), of "(w, now, clk)"]
      registry_step_tick [OF ro] assms(4) RegTick by auto
next
  case (RegAdd new)
  then show ?thesis
    using assms by (auto simp: registry_holds_def registry_add_files)
qed (use assms in \<open>auto simp: registry_holds_def\<close>)

lemma held_path_stays:
  "registry_holds r p c \<Longrightarrow> list_all (leaves_to p c) es \<Longrightarrow> registry_run_ok r es \<Longrightarrow>
   p \<notin> set (fst (registry_run r es)) \<and> registry_holds (snd (registry_run r es)) p c"
proof (induction es arbitrary: r)
  case Nil
  then show ?case by simp
next
  case (Cons e es)
  obtain rm reply r' where st: "registry_step r e = (rm, reply, r')"
    by (cases "registry_step r e") auto
  from Cons.prems have "registry_holds r' p c \<and> p \<notin> set rm"
    by (intro holds_registry_step [OF _ _ _ st]) auto
  with Cons st show ?case by simp
qed

text \<open>A path nobody touches any more is removed by the tick that reaches its deadline.\<close>

fun no_add :: "string \<Rightarrow> registry_event \<Rightarrow> bool" where
  "no_add p (RegAdd new) = (fe_path new \<noteq> p)"
| "no_add p (RegDone _) = False"
| "no_add p _ = True"

lemma unheld_step:
  assumes "fr_files r p = Some e" "fe_keep e = None" "no_add p ev" "registry_run_ok r [ev]"
    and "registry_step r ev = (rm, reply, r')"
  shows "fr_files r' p = Some e \<or> p \<in> set rm"
proof (cases ev)
  case (RegTick w now clk order)
  then have ro: "range_order (fr_files r) order"
    using assms(4) by (simp add: range_order_def)
  show ?thesis
    using registry_step_tick [OF ro, of w now clk] assms RegTick
    by (auto simp: expired_def expired_paths_def expire_entry_def)
next
  case (RegAdd new)
  then show ?thesis using assms by (auto simp: registry_add_files)
qed (use assms in auto)

lemma unheld_run:
  "fr_files r p = Some e \<Longrightarrow> fe_keep e = None \<Longrightarrow> list_all (no_add p) es \<Longrightarrow> registry_run_ok r es \<Longrightarrow>
   fr_files (snd (registry_run r es)) p = Some e \<or> p \<in> set (fst (registry_run r es))"
proof (induction es arbitrary: r)
  case Nil
  then show ?case by simp
next
  case (Cons ev es)
  obtain rm reply r' where st: "registry_step r ev = (rm, reply, r')"
    by (cases "registry_step r ev") auto
  from Cons.prems have "fr_files r' p = Some e \<or> p \<in> set rm"
    by (intro unheld_step [OF _ _ _ _ st]) auto
  with Cons st show ?case by auto
qed

lemma registry_run_append:
  "registry_run r (es @ fs) =
     (case registry_run r es of (rm, r') \<Rightarrow> apfst ((@) rm) (registry_run r' fs))"
  by (induction es arbitrary: r) (auto simp: prod_eq_iff split: prod.splits)

lemma registry_run_ok_append:
  "registry_run_ok r (es @ fs) \<longleftrightarrow> registry_run_ok r es \<and> registry_run_ok (snd (registry_run r es)) fs"
  by (induction es arbitrary: r) (auto split: prod.splits)

lemma due_path_removed:
  assumes "fr_files r p = Some e" "fe_keep e = None" "list_all (no_add p) es"
    and "registry_run_ok r (es @ [RegTick w now clk order])" "fe_deadline e \<le> now"
  shows "p \<in> set (fst (registry_run r (es @ [RegTick w now clk order])))"
proof -
  obtain rm r' where run: "registry_run r es = (rm, r')" by force
  have ok: "registry_run_ok r es" "range_order (fr_files r') order"
    using assms(4) run by (auto simp: registry_run_ok_append range_order_def)
  from unheld_run [OF assms(1,2,3) ok(1)] run
  consider "p \<in> set rm" | "fr_files r' p = Some e" by auto
  then show ?thesis
  proof cases
    case 1
    with run show ?thesis by (simp add: registry_run_append)
  next
    case 2
    obtain rm2 reply r2 where st: "registry_step r' (RegTick w now clk order) = (rm2, reply, r2)"
      by (cases "registry_step r' (RegTick w now clk order)") auto
    have "p \<in> set rm2"
      using registry_step_tick(2) [OF ok(2) st] 2 assms(2,5) by (auto simp: expired_paths_def)
    with run st show ?thesis
      by (simp add: registry_run_append del: registry_step.simps)
  qed
qed

lemma released_path:
  assumes "registry_holds r p c" "c \<in> closed w"
    and "registry_run_ok r (RegTick w now clk order # es @ [RegTick w2 now2 clk2 order2])"
    and "list_all (no_add p) es"
    and "clk p + KeepDelay (fr_config r) \<le> now2"
  shows "p \<notin> set (fst (registry_step r (RegTick w now clk order)))
    \<and> p \<in> set (fst (registry_run r (RegTick w now clk order # es @ [RegTick w2 now2 clk2 order2])))"
proof -
  let ?t = "RegTick w now clk order"
  obtain rm reply r' where st: "registry_step r ?t = (rm, reply, r')"
    by (cases "registry_step r ?t") auto
  have ro: "range_order (fr_files r) order"
    using assms(3) by (simp add: range_order_def)
  obtain e where e: "fr_files r p = Some e" "fe_keep e = Some c"
    using assms(1) by (auto simp: registry_holds_def)
  have "p \<notin> set rm"
    using registry_step_tick(2) [OF ro st] e by (auto simp: expired_paths_def)
  moreover have "fr_files r' p = Some (e\<lparr>fe_deadline := clk p + KeepDelay (fr_config r), fe_keep := None\<rparr>)"
    using registry_step_tick(1) [OF ro st] e assms(2) by (simp add: expired_def expire_entry_def)
  then have "p \<in> set (fst (registry_run r' (es @ [RegTick w2 now2 clk2 order2])))"
    using assms(3,4,5) st by (intro due_path_removed) auto
  ultimately show ?thesis using st by simp
qed

lemma released_path_removed:
  assumes "registry_holds r p c" "c \<in> closed w"
    and "registry_run_ok r (RegTick w now clk order # es @ [RegTick w2 now2 clk2 order2])"
    and "list_all (no_add p) es"
    and "clk p + KeepDelay (fr_config r) \<le> now2"
  shows "p \<in> set (fst (registry_run r (RegTick w now clk order # es @ [RegTick w2 now2 clk2 order2])))"
  using released_path [OF assms] by blast

section \<open>Properties\<close>


definition demo_registry :: FileRegistry where
  "demo_registry = NewFileRegistry \<lparr>ExpireInterval = 0, KeepDelay = 0\<rparr>"

lemma demo_registry_simps [simp]:
  "fr_files demo_registry = Map.empty"
  "KeepDelay (fr_config demo_registry) = 10 * second"
  by (simp_all add: demo_registry_def NewFileRegistry_def DefaultKeepDelay_def)




text \<open>C14. A tick removes exactly the paths that no channel holds and whose deadline has passed,
  each once, and leaves every other entry; the order in which Go iterates over the map has no
  influence on which paths go and on the registry afterwards.\<close>

theorem registry_expire_exact:
  assumes "range_order (fr_files r) order" "range_order (fr_files r) order'"
  shows "set (fst (registry_expire w now clk order r)) =
           {p. \<exists>e. fr_files r p = Some e \<and> fe_keep e = None \<and> fe_deadline e \<le> now}
    \<and> distinct (fst (registry_expire w now clk order r))
    \<and> dom (fr_files (snd (registry_expire w now clk order r))) =
        dom (fr_files r) - set (fst (registry_expire w now clk order r))
    \<and> snd (registry_expire w now clk order r) = snd (registry_expire w now clk order' r)"
proof (intro conjI)
  show rm: "set (fst (registry_expire w now clk order r)) =
      {p. \<exists>e. fr_files r p = Some e \<and> fe_keep e = None \<and> fe_deadline e \<le> now}"
    by (simp add: registry_expire_eq(2) [OF assms(1)] expired_paths_def)
  show "distinct (fst (registry_expire w now clk order r))"
    using assms(1) expire_loop_removed [of order]
    by (auto simp: registry_expire_def range_order_def split: prod.splits)
      (metis distinct_filter fst_conv)
  show "dom (fr_files (snd (registry_expire w now clk order r))) =
      dom (fr_files r) - set (fst (registry_expire w now clk order r))"
    unfolding rm registry_expire_eq(1) [OF assms(1)]
    by (rule set_eqI) (auto simp: expired_def domIff bind_eq_None_conv simp del: not_None_eq)
  show "snd (registry_expire w now clk order r) = snd (registry_expire w now clk order' r)"
    by (simp add: registry_expire_eq(1) assms)
qed

theorem registry_expire_exact_witness:
  "set (fst (registry_expire no_chans 10 (\<lambda>_. 11) [''/a'']
       (registry_add (RegisterFile ''/a'' 5) demo_registry))) = {''/a''}"
proof -
  have "range_order (fr_files (registry_add (RegisterFile ''/a'' 5) demo_registry)) [''/a'']"
    by (simp add: registry_add_def RegisterFile_def range_order_def)
  from registry_expire_exact [OF this this, of no_chans 10 "\<lambda>_. 11"] show ?thesis
    by (simp add: registry_add_def RegisterFile_def)
qed

end
