(* ===== verification/Writer.thy ===== *)
theory Writer
  imports Prelude
begin

text \<open>
  \<open>src/upload/limit_reader.go\<close> and \<open>src/upload/writer.go\<close>: reading a request body up to a
  limit, and writing a file so that a reader of the target path never sees half of it.

  A reader is a function from its state and the length of the buffer to the bytes read, the
  error and the next state, as \<open>io.Reader.Read\<close> is; \<open>io.Copy\<close> reads 32 KiB at a time until an
  error, and the end of the input is not one. The loop runs on fuel, and
  \<open>copy_limited_body\<close> shows how much is enough for a request body.

  A file system is a map from paths to contents. The operating system may fail at each call
  (\<open>faults\<close>); the result of a write lists the file system after every call, so that what
  another process can observe in between is part of the model.
\<close>

datatype io_error =
    EndOfFile
  | ErrLargeFile
  | ReadFailed
  | OpenFailed
  | WriteFailed
  | CloseFailed
  | RenameFailed

type_synonym 's reader = "'s \<Rightarrow> nat \<Rightarrow> string \<times> io_error option \<times> 's"

section \<open>Limiting a reader\<close>

type_synonym 's LimitReader = "int \<times> 's"

definition LimitReads :: "'s \<Rightarrow> int \<Rightarrow> 's LimitReader" where
  "LimitReads r limit = (limit, r)"

definition LimitReader_Read :: "'s reader \<Rightarrow> 's LimitReader reader" where
  "LimitReader_Read R l n =
     (case l of (N, s) \<Rightarrow>
        if N \<le> 0 then ([], Some ErrLargeFile, (N, s))
        else
          let m = (if int n > N then nat N else n)
          in case R s m of (d, err, s') \<Rightarrow> (d, err, (N - int (length d), s')))"

text \<open>
  \<open>io.Copy\<close> into a file that has room for \<open>space\<close> more bytes: what was written, and the
  error it returns. \<open>None\<close>: out of fuel.
\<close>

definition copy_buffer_size :: nat where
  "copy_buffer_size = 32 * 1024"

fun io_copy :: "nat \<Rightarrow> nat option \<Rightarrow> 's reader \<Rightarrow> 's \<Rightarrow> string \<Rightarrow> (string \<times> io_error option) option" where
  "io_copy 0 space R s acc = None"
| "io_copy (Suc fuel) space R s acc =
     (case R s copy_buffer_size of (d, err, s') \<Rightarrow>
        (case space of
           Some n \<Rightarrow> if n < length (acc @ d) then Some (take n (acc @ d), Some WriteFailed)
                      else (case err of
                              None \<Rightarrow> io_copy fuel space R s' (acc @ d)
                            | Some e \<Rightarrow> Some (acc @ d, if e = EndOfFile then None else Some e))
         | None \<Rightarrow> (case err of
                      None \<Rightarrow> io_copy fuel space R s' (acc @ d)
                    | Some e \<Rightarrow> Some (acc @ d, if e = EndOfFile then None else Some e))))"

section \<open>Atomic writes\<close>

type_synonym fs = "string \<rightharpoonup> string"

record faults =
  f_open :: bool
  f_space :: "nat option"
  f_close :: bool
  f_rename :: bool
  f_remove :: bool

definition tmpPath :: "string \<Rightarrow> string" where
  "tmpPath path = path @ ''.tmp''"

text \<open>\<open>open\<close>: the temporary file is created empty; \<open>None\<close> when a directory or the file cannot be.\<close>

definition aw_open :: "faults \<Rightarrow> string \<Rightarrow> fs \<Rightarrow> fs option" where
  "aw_open f path s = (if f_open f then None else Some (s(tmpPath path \<mapsto> '''')))"

text \<open>The end of \<open>write\<close> and \<open>copy\<close>: the first error wins over an error of \<open>Close\<close>.\<close>

definition aw_close :: "faults \<Rightarrow> io_error option \<Rightarrow> io_error option" where
  "aw_close f err = (if f_close f \<and> err = None then Some CloseFailed else err)"

definition aw_write :: "faults \<Rightarrow> string \<Rightarrow> string \<Rightarrow> fs \<Rightarrow> io_error option \<times> fs" where
  "aw_write f path data s =
     (let n = (case f_space f of None \<Rightarrow> length data | Some k \<Rightarrow> min k (length data));
          err = (if n < length data then Some WriteFailed else None)
      in (aw_close f err, s(tmpPath path \<mapsto> take n data)))"

definition aw_copy :: "nat \<Rightarrow> faults \<Rightarrow> string \<Rightarrow> 's reader \<Rightarrow> 's \<Rightarrow> fs \<Rightarrow> (io_error option \<times> fs) option" where
  "aw_copy fuel f path R src s =
     map_option (\<lambda>(d, err). (aw_close f err, s(tmpPath path \<mapsto> d))) (io_copy fuel (f_space f) R src '''')"

text \<open>Rename on success; on any error the deferred function removes the temporary file.\<close>

definition aw_finish :: "faults \<Rightarrow> string \<Rightarrow> io_error option \<Rightarrow> fs \<Rightarrow> io_error option \<times> fs" where
  "aw_finish f path err s =
     (let err' = (if err = None \<and> f_rename f then Some RenameFailed else err)
      in if err' = None then (None, (s(path := s (tmpPath path)))(tmpPath path := None))
         else (err', if f_remove f then s else s(tmpPath path := None)))"

text \<open>
  \<open>WriteFile\<close> and \<open>CopyFile\<close>: the states of the file system after opening, after writing and
  at the end, and the error. Both go on after a failed \<open>open\<close> and call a method of the nil file.
\<close>

definition WriteFile :: "faults \<Rightarrow> string \<Rightarrow> string \<Rightarrow> fs \<Rightarrow> (fs list \<times> io_error option) go" where
  "WriteFile f path data s =
     (case aw_open f path s of
        None \<Rightarrow> Inl NilPointer
      | Some s1 \<Rightarrow>
          (case aw_write f path data s1 of (err, s2) \<Rightarrow>
             (case aw_finish f path err s2 of (err', s3) \<Rightarrow> Inr ([s1, s2, s3], err'))))"

definition CopyFile :: "nat \<Rightarrow> faults \<Rightarrow> string \<Rightarrow> 's reader \<Rightarrow> 's \<Rightarrow> fs \<Rightarrow>
    (fs list \<times> io_error option) go option" where
  "CopyFile fuel f path R src s =
     (case aw_open f path s of
        None \<Rightarrow> Some (Inl NilPointer)
      | Some s1 \<Rightarrow>
          map_option
            (\<lambda>(err, s2). case aw_finish f path err s2 of (err', s3) \<Rightarrow> Inr ([s1, s2, s3], err'))
            (aw_copy fuel f path R src s1))"

lemma tmpPath_neq [simp]: "tmpPath path \<noteq> path" "path \<noteq> tmpPath path"
  by (simp_all add: tmpPath_def)

lemma aw_finish_cases:
  assumes "aw_finish f path err s = (err', s')"
  obtains (renamed) "err' = None" "err = None" "s' = (s(path := s (tmpPath path)))(tmpPath path := None)"
  | (failed) e where "err' = Some e" "s' path = s path" "\<And>q. q \<noteq> tmpPath path \<Longrightarrow> s' q = s q"
      "f_remove f \<or> s' (tmpPath path) = None"
  using assms by (cases err) (auto simp: aw_finish_def Let_def split: if_splits)

section \<open>Request bodies\<close>

text \<open>
  A request body arrives in non-empty chunks. The server's body reader reports the end of
  the input either together with the last bytes (a body of declared length: \<open>eager\<close>) or on
  a read of its own.
\<close>

fun body_read :: "bool \<Rightarrow> string list reader" where
  "body_read eager [] n = ([], Some EndOfFile, [])"
| "body_read eager (c # cs) n =
     (if n < length c then (take n c, None, drop n c # cs)
      else (c, if eager \<and> cs = [] then Some EndOfFile else None, cs))"

definition body_ok :: "string list \<Rightarrow> bool" where
  "body_ok cs \<longleftrightarrow> [] \<notin> set cs"

text \<open>Whether a body passes a limit of \<open>N\<close> bytes, and what of it gets through.\<close>

definition within_limit :: "bool \<Rightarrow> int \<Rightarrow> string \<Rightarrow> bool" where
  "within_limit eager N body \<longleftrightarrow>
     int (length body) < N \<or> (int (length body) = N \<and> eager \<and> body \<noteq> [])"

lemma copy_buffer_size_pos [simp]: "0 < copy_buffer_size"
  by (simp add: copy_buffer_size_def)

lemma not_within_zero: "N \<le> 0 \<Longrightarrow> \<not> within_limit eager N body"
  by (cases body) (auto simp: within_limit_def)

text \<open>One read of a limited body that has something left and is allowed to read on.\<close>

lemma limited_body_step:
  assumes "0 < N" "body_ok (c # cs)"
  obtains d err cs' where
    "LimitReader_Read (body_read eager) (N, c # cs) copy_buffer_size = (d, err, (N - int (length d), cs'))"
    "concat (c # cs) = d @ concat cs'" "d \<noteq> []" "body_ok cs'" "int (length d) \<le> N"
    "err = (if eager \<and> cs' = [] then Some EndOfFile else None)"
proof -
  let ?m = "if int copy_buffer_size > N then nat N else copy_buffer_size"
  have m: "0 < ?m" "int ?m \<le> N" using assms(1) by auto
  have c: "c \<noteq> []" "body_ok cs" using assms(2) by (auto simp: body_ok_def)
  show thesis
  proof (cases "?m < length c")
    case True
    have "concat (c # cs) = take ?m c @ concat (drop ?m c # cs)" by (simp add: append_assoc [symmetric] del: append_assoc)
    then show thesis
      using True m c assms(1)
      by (intro that [of "take ?m c" None "drop ?m c # cs"]) (auto simp: LimitReader_Read_def Let_def body_ok_def)
  next
    case False
    then show thesis
      using m c assms(1)
      by (intro that [of c "if eager \<and> cs = [] then Some EndOfFile else None" cs])
        (auto simp: LimitReader_Read_def Let_def split: if_splits)
  qed
qed

lemma limit_shift:
  "int (length d) \<le> N \<Longrightarrow> d @ take (nat (N - int (length d))) rest = take (nat N) (d @ rest)"
  by (simp add: nat_diff_distrib)

lemma within_shift:
  "rest \<noteq> [] \<or> \<not> eager \<Longrightarrow> within_limit eager (N - int (length d)) rest = within_limit eager N (d @ rest)"
  by (auto simp: within_limit_def)

lemma body_ok_concat: "body_ok cs \<Longrightarrow> concat cs = [] \<longleftrightarrow> cs = []"
  by (cases cs) (auto simp: body_ok_def)

lemma copy_limited_body:
  "body_ok cs \<Longrightarrow> length (concat cs) < fuel \<Longrightarrow>
   io_copy fuel None (LimitReader_Read (body_read eager)) (N, cs) acc =
     Some (acc @ take (nat N) (concat cs),
           if within_limit eager N (concat cs) then None else Some ErrLargeFile)"
proof (induction fuel arbitrary: N cs acc)
  case 0
  then show ?case by simp
next
  case (Suc fuel)
  consider "N \<le> 0" | "0 < N" "cs = []" | c r where "0 < N" "cs = c # r"
    by (metis list.exhaust not_le)
  then show ?case
  proof cases
    case 1
    then show ?thesis by (simp add: LimitReader_Read_def not_within_zero)
  next
    case 2
    then show ?thesis by (simp add: LimitReader_Read_def within_limit_def)
  next
    case 3
    with Suc.prems obtain d err cs' where st:
      "LimitReader_Read (body_read eager) (N, cs) copy_buffer_size = (d, err, (N - int (length d), cs'))"
      "concat cs = d @ concat cs'" "d \<noteq> []" "body_ok cs'" "int (length d) \<le> N"
      "err = (if eager \<and> cs' = [] then Some EndOfFile else None)"
      using limited_body_step [of N c r eager] by metis
    show ?thesis
    proof (cases "eager \<and> cs' = []")
      case True
      with st show ?thesis by (auto simp: within_limit_def)
    next
      case False
      have "length (concat cs') < fuel"
        using st(2,3) Suc.prems(2) by (cases d) auto
      note IH = Suc.IH [OF st(4) this, of "N - int (length d)" "acc @ d"]
      have "concat cs' \<noteq> [] \<or> \<not> eager"
        using False by (simp only: body_ok_concat [OF st(4)]) blast
      note shift = within_shift [OF this, of N d] limit_shift [OF st(5), of "concat cs'"]
      show ?thesis
        using IH st(1,6) False shift by (simp only: io_copy.simps) (auto simp: st(2))
    qed
  qed
qed

text \<open>When no call fails.\<close>

definition no_faults :: faults where
  "no_faults = \<lparr>f_open = False, f_space = None, f_close = False, f_rename = False, f_remove = False\<rparr>"

lemma WriteFile_no_faults:
  "WriteFile no_faults path data s =
     Inr ([s(tmpPath path \<mapsto> ''''), s(tmpPath path \<mapsto> data), s(path \<mapsto> data, tmpPath path := None)], None)"
  by (simp add: WriteFile_def no_faults_def aw_open_def aw_write_def aw_close_def aw_finish_def fun_upd_twist)

lemma CopyFile_no_faults:
  assumes "body_ok cs" "length (concat cs) < fuel"
  shows "\<exists>s1 s2. CopyFile fuel no_faults path (LimitReader_Read (body_read eager)) (LimitReads cs limit) s =
    Some (Inr ([s1, s2, if within_limit eager limit (concat cs) then s(path \<mapsto> concat cs, tmpPath path := None)
                        else s(tmpPath path := None)],
               if within_limit eager limit (concat cs) then None else Some ErrLargeFile))"
proof -
  have "take (nat limit) (concat cs) = concat cs" if "within_limit eager limit (concat cs)"
    using that by (auto simp: within_limit_def)
  then show ?thesis
    using copy_limited_body [OF assms, of eager limit "''''"]
    by (auto simp: CopyFile_def no_faults_def aw_copy_def aw_open_def aw_close_def aw_finish_def LimitReads_def
        fun_upd_twist Let_def)
qed

section \<open>Properties\<close>

text \<open>C10. Whatever fails, a reader of the target path sees the old contents or the complete
  new ones, never a part: in every state of the file system during \<open>WriteFile\<close>. Success
  means the new contents are there and the temporary file is gone; after an error the target is
  unchanged, and the temporary file is gone unless removing it failed too. No other path changes.\<close>

theorem WriteFile_atomic:
  assumes "WriteFile f path data s = Inr (states, err)"
  shows "(\<forall>s' \<in> set states. s' path = s path \<or> s' path = Some data)
    \<and> (err = None \<longrightarrow> last states path = Some data \<and> last states (tmpPath path) = None)
    \<and> (err \<noteq> None \<longrightarrow> last states path = s path \<and> (f_remove f \<or> last states (tmpPath path) = None))
    \<and> (\<forall>s' \<in> set states. \<forall>q. q \<noteq> path \<longrightarrow> q \<noteq> tmpPath path \<longrightarrow> s' q = s q)"
proof -
  let ?s1 = "s(tmpPath path \<mapsto> '''')"
  from assms have op: "\<not> f_open f" by (auto simp: WriteFile_def aw_open_def split: if_splits)
  obtain e s2 where wr: "aw_write f path data ?s1 = (e, s2)" by force
  obtain e' s3 where fin: "aw_finish f path e s2 = (e', s3)" by force
  have st: "states = [?s1, s2, s3]" "err = e'"
    using assms op wr fin by (auto simp: WriteFile_def aw_open_def)
  have s2: "\<And>q. q \<noteq> tmpPath path \<Longrightarrow> s2 q = s q" "e = None \<Longrightarrow> s2 (tmpPath path) = Some data"
    using wr by (auto simp: aw_write_def aw_close_def Let_def split: option.splits if_splits)
  show ?thesis
    using fin by (cases rule: aw_finish_cases) (auto simp: st s2)
qed

theorem WriteFile_atomic_witness:
  "\<exists>states err. WriteFile \<lparr>f_open = False, f_space = Some 1, f_close = False, f_rename = False, f_remove = False\<rparr>
       ''p'' ''new'' [''p'' \<mapsto> ''old''] = Inr (states, err)
     \<and> (\<forall>s' \<in> set states. s' ''p'' = Some ''old'' \<or> s' ''p'' = Some ''new'')
     \<and> err = Some WriteFailed \<and> last states ''p'' = Some ''old''"
proof -
  let ?f = "\<lparr>f_open = False, f_space = Some 1, f_close = False, f_rename = False, f_remove = False\<rparr>"
  obtain states where eq: "WriteFile ?f ''p'' ''new'' [''p'' \<mapsto> ''old''] = Inr (states, Some WriteFailed)"
    by (simp add: WriteFile_def aw_open_def aw_write_def aw_close_def aw_finish_def Let_def)
  with WriteFile_atomic [OF eq] show ?thesis by auto
qed

text \<open>C19. Copying a request body of any chunking through \<open>LimitReads\<close> ends, keeps at most
  \<open>limit\<close> bytes, and reports \<open>ErrLargeFile\<close> exactly for bodies that are too long: a body
  shorter than the limit is copied whole, a longer one is cut and refused, and one of exactly the
  limit passes only when the reader reports the end together with the last bytes.\<close>

theorem CopyFile_limit:
  assumes "body_ok cs" "length (concat cs) < fuel" "\<not> f_open f" "f_space f = None" "\<not> f_close f" "\<not> f_rename f"
  shows "\<exists>s1 s2 s3. CopyFile fuel f path (LimitReader_Read (body_read eager)) (LimitReads cs limit) s =
      Some (Inr ([s1, s2, s3], if within_limit eager limit (concat cs) then None else Some ErrLargeFile))
    \<and> s2 (tmpPath path) = Some (take (nat limit) (concat cs))
    \<and> s3 path = (if within_limit eager limit (concat cs) then Some (concat cs) else s path)"
proof -
  have "take (nat limit) (concat cs) = concat cs" if "within_limit eager limit (concat cs)"
    using that by (auto simp: within_limit_def)
  then show ?thesis
    using assms by (auto simp: CopyFile_def aw_copy_def aw_open_def aw_close_def aw_finish_def
        LimitReads_def copy_limited_body Let_def)
qed

theorem CopyFile_limit_witness:
  "\<exists>s1 s2 s3. CopyFile 10 \<lparr>f_open = False, f_space = None, f_close = False, f_rename = False, f_remove = False\<rparr>
       ''p'' (LimitReader_Read (body_read False)) (LimitReads [''ab'', ''c''] 3) Map.empty =
       Some (Inr ([s1, s2, s3], Some ErrLargeFile))
     \<and> s2 (tmpPath ''p'') = Some ''abc'' \<and> s3 ''p'' = None"
  using CopyFile_limit [of "[''ab'', ''c'']" 10
      "\<lparr>f_open = False, f_space = None, f_close = False, f_rename = False, f_remove = False\<rparr>"
      "''p''" False 3 Map.empty]
  by (simp add: body_ok_def within_limit_def)

text \<open>When the temporary file cannot be opened, \<open>WriteFile\<close> and \<open>CopyFile\<close> do not return an
  error: the error of \<open>open\<close> is not looked at, and the call of a method of the nil file panics.\<close>

lemma open_error_panics:
  assumes "f_open f"
  shows "WriteFile f path data s = Inl NilPointer
    \<and> CopyFile fuel f path R src s = Some (Inl NilPointer)"
  using assms by (simp add: WriteFile_def CopyFile_def aw_open_def)

end
