(* ===== verification/Hls.thy ===== *)
theory Hls
  imports Playlist HlsMetrics FileRegistry Writer
begin

text \<open>
  \<open>src/upload/hls.go\<close>: the playlist parser of one stream. Its state is the record
  \<open>HLSParser\<close>: the variant playlists it tracks by name, and the files it keeps, each with the
  channel that holds it (\<open>None\<close> is the nil map that \<open>Cleanup\<close> leaves). What an operation does
  to the world is in \<open>io\<close>: channels made and closed, entries sent to the registry in order, and
  the file system.

  The playlist library is a parameter, the record \<open>m3u8_api\<close>. \<open>segmentSize_ok\<close> states what
  its documentation says of \<open>SegmentSize\<close>. \<open>Read\<close> gets the bytes of the reader and the error
  that ended them. Faults of the file system are a function of the path written.
\<close>

record m3u8_api =
  m3u8_Read :: "string \<times> io_error option \<Rightarrow> string + Playlist"
  m3u8_Write :: "Playlist \<Rightarrow> string + string"
  m3u8_IsMaster :: "Playlist \<Rightarrow> bool"
  m3u8_SegmentSize :: "Playlist \<Rightarrow> int"

definition segmentSize_ok :: "m3u8_api \<Rightarrow> bool" where
  "segmentSize_ok api \<longleftrightarrow> (\<forall>p. m3u8_SegmentSize api p = segments_in (pl_items p))"

record VariantPlaylist =
  v_name :: string
  v_lastIndex :: int
  v_lastSize :: int
  v_lastSequence :: int
  v_output :: LivePlaylist

record HLSParser =
  h_slug :: string
  h_basePath :: string
  h_size :: int
  h_metrics :: HLSMetrics
  h_subs :: "string \<rightharpoonup> VariantPlaylist"
  h_files :: "(string \<rightharpoonup> nat) option"

record io =
  io_chans :: chans
  io_sent :: "FileEntry list"
  io_fs :: fs

datatype hls_error =
    ReadError string
  | WriteError string
  | FileError io_error
  | InvalidDirectory string

definition NewHLSParser :: "string \<Rightarrow> string \<Rightarrow> int \<Rightarrow> HLSParser" where
  "NewHLSParser slug basePath sz =
     \<lparr>h_slug = slug, h_basePath = basePath, h_size = sz, h_metrics = NewHLSMetrics,
      h_subs = Map.empty, h_files = Some Map.empty\<rparr>"

section \<open>Files the parser keeps\<close>

definition send :: "FileEntry \<Rightarrow> io \<Rightarrow> io" where
  "send e w = w\<lparr>io_sent := io_sent w @ [e]\<rparr>"

definition keepFile :: "string \<Rightarrow> HLSParser \<times> io \<Rightarrow> (HLSParser \<times> io) go" where
  "keepFile name st =
     (case st of (h, w) \<Rightarrow>
        (case make_chan (io_chans w) of (keep, ch) \<Rightarrow>
           let path = joinPath [h_basePath h, name]
           in case h_files h of
                None \<Rightarrow> Inl NilMapWrite
              | Some m \<Rightarrow> Inr (h\<lparr>h_files := Some (m(path \<mapsto> keep))\<rparr>,
                                send (KeepFile path keep) (w\<lparr>io_chans := ch\<rparr>))))"

definition expireFile :: "string \<Rightarrow> HLSParser \<times> io \<Rightarrow> (HLSParser \<times> io) go" where
  "expireFile name st =
     (case st of (h, w) \<Rightarrow>
        let path = joinPath [h_basePath h, name]
        in case h_files h of
             None \<Rightarrow> Inr (h, w)
           | Some m \<Rightarrow>
               (case m path of
                  None \<Rightarrow> Inr (h, w)
                | Some c \<Rightarrow> go_bind (close_chan c (io_chans w))
                    (\<lambda>ch. Inr (h\<lparr>h_files := Some (m(path := None))\<rparr>, w\<lparr>io_chans := ch\<rparr>))))"

text \<open>\<open>switch deleted := res.(type)\<close>: a removed segment may be deleted.\<close>

fun expireDeleted :: "item option \<Rightarrow> HLSParser \<times> io \<Rightarrow> (HLSParser \<times> io) go" where
  "expireDeleted (Some (Segment s)) st = expireFile (seg_segment s) st"
| "expireDeleted _ st = Inr st"

definition HLSParser_Cleanup :: "string list \<Rightarrow> HLSParser \<times> io \<Rightarrow> (HLSParser \<times> io) go" where
  "HLSParser_Cleanup order st =
     (case st of (h, w) \<Rightarrow>
        let m = (case h_files h of None \<Rightarrow> Map.empty | Some m \<Rightarrow> m)
        in go_bind
             (go_fold (\<lambda>p ch. case m p of None \<Rightarrow> Inr ch | Some c \<Rightarrow> close_chan c ch) order (io_chans w))
             (\<lambda>ch. Inr (h\<lparr>h_files := None\<rparr>, w\<lparr>io_chans := ch\<rparr>)))"

section \<open>Variant playlists\<close>

text \<open>The map holds pointers: what the handler does to the variant is stored back when it is done.\<close>

definition getVariantPlaylist :: "string \<Rightarrow> HLSParser \<Rightarrow> hls_error + VariantPlaylist \<times> HLSParser" where
  "getVariantPlaylist path h =
     (if dir path \<noteq> h_basePath h then Inl (InvalidDirectory path)
      else
        let name = base path
        in case h_subs h name of
             Some sub \<Rightarrow> Inr (sub, h)
           | None \<Rightarrow>
               let sub = \<lparr>v_name = name, v_lastIndex = 0, v_lastSize = 0, v_lastSequence = 0,
                          v_output = newLivePlaylist (h_size h)\<rparr>
               in Inr (sub, h\<lparr>h_subs := (h_subs h)(name \<mapsto> sub)\<rparr>))"

type_synonym vstate = "VariantPlaylist \<times> HLSParser \<times> io"

definition checkDiscontinuity :: "m3u8_api \<Rightarrow> Playlist \<Rightarrow> vstate \<Rightarrow> vstate go" where
  "checkDiscontinuity api source st =
     (case st of (v, h, w) \<Rightarrow>
        let sourceSize = m3u8_SegmentSize api source;
            newSegments = pl_sequence source + sourceSize;
            oldSegments = v_lastSequence v + v_lastSize v
        in go_bind
             (if newSegments < oldSegments then
                go_bind (applyDiscontinuity (v_output v)) (\<lambda>(deleted, out).
                go_bind (expireDeleted deleted (h, w)) (\<lambda>(h', w').
                Inr (v\<lparr>v_output := out, v_lastIndex := 0\<rparr>, h', w')))
              else
                let diff = v_lastSequence v - pl_sequence source + sourceSize - v_lastSize v
                in Inr (if diff < 0 then v\<lparr>v_lastIndex := v_lastIndex v + diff\<rparr> else v, h, w))
             (\<lambda>(v', h', w').
                Inr (v'\<lparr>v_lastSequence := pl_sequence source, v_lastSize := sourceSize\<rparr>, h', w')))"

text \<open>The body of the loop of \<open>appendItems\<close>, for the item at \<open>index\<close>.\<close>

definition appendItem :: "int \<Rightarrow> item \<Rightarrow> vstate \<Rightarrow> vstate go" where
  "appendItem index item st =
     (case st of (v, h, w) \<Rightarrow>
        case item of
          Segment segment \<Rightarrow>
            if index < v_lastIndex v then Inr st
            else
              let h1 = h\<lparr>h_metrics := RecordSegmentDuration (v_name v) (seg_duration segment) (h_metrics h)\<rparr>
              in go_bind (keepFile (seg_segment segment) (h1, w)) (\<lambda>(h2, w2).
                 go_bind (lp_append item (v_output v)) (\<lambda>(deleted, out).
                 go_bind (expireDeleted deleted (h2, w2)) (\<lambda>(h3, w3).
                 Inr (v\<lparr>v_output := out\<rparr>, h3, w3))))
        | _ \<Rightarrow> Inr st)"

fun appendLoop :: "int \<Rightarrow> item list \<Rightarrow> vstate \<Rightarrow> vstate go" where
  "appendLoop index [] st = Inr st"
| "appendLoop index (item # items) st =
     go_bind (appendItem index item st) (appendLoop (index + 1) items)"

definition appendItems :: "Playlist \<Rightarrow> vstate \<Rightarrow> vstate go" where
  "appendItems source st =
     go_bind (appendLoop 0 (pl_items source) st) (\<lambda>(v, h, w).
     Inr (v\<lparr>v_lastIndex := int (length (pl_items source))\<rparr>, h, w))"

definition processVariant :: "m3u8_api \<Rightarrow> string \<Rightarrow> Playlist \<Rightarrow> HLSParser \<times> io \<Rightarrow>
    ((hls_error + Playlist) \<times> HLSParser \<times> io) go" where
  "processVariant api path playlist st =
     (case st of (h, w) \<Rightarrow>
        case getVariantPlaylist path h of
          Inl err \<Rightarrow> Inr (Inl err, h, w)
        | Inr (v, h0) \<Rightarrow>
            let h1 = h0\<lparr>h_metrics := RecordTargetDuration (pl_target playlist) (base path) (h_metrics h0)\<rparr>
            in go_bind (checkDiscontinuity api playlist (v, h1, w)) (\<lambda>st2.
               go_bind (appendItems playlist st2) (\<lambda>(v3, h3, w3).
               let v4 = v3\<lparr>v_output := setSegmentTarget (pl_target playlist) (v_output v3)\<rparr>
               in Inr (Inr (lp_playlist (v_output v4)),
                       h3\<lparr>h_subs := (h_subs h3)(base path \<mapsto> v4)\<rparr>, w3))))"

section \<open>Writing playlists\<close>

definition writePlaylist :: "m3u8_api \<Rightarrow> (string \<Rightarrow> faults) \<Rightarrow> string \<Rightarrow> Playlist \<Rightarrow> HLSParser \<times> io \<Rightarrow>
    (hls_error option \<times> HLSParser \<times> io) go" where
  "writePlaylist api flt path playlist st =
     (case st of (h, w) \<Rightarrow>
        case m3u8_Write api playlist of
          Inl err \<Rightarrow> Inr (Some (WriteError err), h, w)
        | Inr str \<Rightarrow>
            go_bind (WriteFile (flt path) path str (io_fs w)) (\<lambda>(states, err).
              let w1 = w\<lparr>io_fs := last states\<rparr>
              in case err of
                   Some e \<Rightarrow> Inr (Some (FileError e), h, w1)
                 | None \<Rightarrow> go_bind (keepFile path (h, w1)) (\<lambda>(h2, w2). Inr (None, h2, w2))))"

text \<open>The loop of \<open>generateLanguageMasters\<close>; the playlist it changes in place is threaded along.\<close>

fun languageMasters :: "m3u8_api \<Rightarrow> (string \<Rightarrow> faults) \<Rightarrow> string \<Rightarrow> string \<Rightarrow> string list \<Rightarrow> Playlist \<Rightarrow>
    HLSParser \<times> io \<Rightarrow> (hls_error option \<times> Playlist \<times> HLSParser \<times> io) go" where
  "languageMasters api flt directory sfx [] playlist (h, w) = Inr (None, playlist, h, w)"
| "languageMasters api flt directory sfx (lang # langs) playlist (h, w) =
     (let name = languageMasterName lang sfx
      in if name = ''native_hd.m3u8'' then languageMasters api flt directory sfx langs playlist (h, w)
         else
           let playlist' = setDefaultLanguage lang playlist
           in go_bind (writePlaylist api flt (joinPath [directory, name]) playlist' (h, w)) (\<lambda>(err, h', w').
                case err of
                  Some e \<Rightarrow> Inr (Some e, playlist', h', w')
                | None \<Rightarrow> languageMasters api flt directory sfx langs playlist' (h', w')))"

definition generateLanguageMasters :: "m3u8_api \<Rightarrow> (string \<Rightarrow> faults) \<Rightarrow> string \<Rightarrow> string \<Rightarrow> Playlist \<Rightarrow>
    HLSParser \<times> io \<Rightarrow> (hls_error option \<times> Playlist \<times> HLSParser \<times> io) go" where
  "generateLanguageMasters api flt path sfx playlist st =
     languageMasters api flt (dir path) sfx (getLanguages playlist) playlist st"

definition parseMaster :: "m3u8_api \<Rightarrow> (string \<Rightarrow> faults) \<Rightarrow> string \<Rightarrow> Playlist \<Rightarrow> HLSParser \<times> io \<Rightarrow>
    (hls_error option \<times> HLSParser \<times> io) go" where
  "parseMaster api flt path playlist st =
     (let p1 = fixupCodecInformation playlist
      in go_bind (writePlaylist api flt path p1 st) (\<lambda>(err, h1, w1).
         if err \<noteq> None then Inr (err, h1, w1) else
         go_bind (generateLanguageMasters api flt path ''hd'' p1 (h1, w1)) (\<lambda>(err, p2, h2, w2).
         if err \<noteq> None then Inr (err, h2, w2) else
         case filterHDResolutions p2 of (p3, res) \<Rightarrow>
         if \<not> res then Inr (None, h2, w2) else
         go_bind (generateLanguageMasters api flt path ''sd'' p3 (h2, w2)) (\<lambda>(err, _, h3, w3).
         Inr (err, h3, w3)))))"

definition ParsePlaylist :: "m3u8_api \<Rightarrow> (string \<Rightarrow> faults) \<Rightarrow> string \<Rightarrow> string \<times> io_error option \<Rightarrow>
    HLSParser \<times> io \<Rightarrow> (hls_error option \<times> HLSParser \<times> io) go" where
  "ParsePlaylist api flt path reader st =
     (case m3u8_Read api reader of
        Inl err \<Rightarrow> Inr (Some (ReadError err), fst st, snd st)
      | Inr playlist \<Rightarrow>
          if m3u8_IsMaster api playlist then parseMaster api flt path playlist st
          else
            go_bind (processVariant api path playlist st) (\<lambda>(res, h, w).
              case res of
                Inl err \<Rightarrow> Inr (Some err, h, w)
              | Inr out \<Rightarrow> writePlaylist api flt path out (h, w)))"

end
