(* ===== verification/HlsCorrect.thy ===== *)
theory HlsCorrect
  imports Hls
begin

text \<open>
  What the playlist parser of theory \<open>Hls\<close> guarantees. The invariant \<open>parser_inv\<close> ties its
  parts together: every kept file has an open channel of its own which was also the last one sent
  to the registry for that path, every segment listed in an output playlist is kept, and no two
  listed segments share a path. Processing a variant playlist whose new segments have new names
  preserves it and never panics, and its output is the old output with \<open>new_items\<close> pushed.
\<close>

section \<open>Kept files\<close>

text \<open>The channel of the last keep request for a path.\<close>

fun last_keep :: "FileEntry list \<Rightarrow> string \<Rightarrow> nat option" where
  "last_keep [] p = None"
| "last_keep (e # es) p =
     (case last_keep es p of
        Some c \<Rightarrow> Some c
      | None \<Rightarrow> if fe_path e = p then fe_keep e else None)"

lemma last_keep_snoc:
  "last_keep (es @ [e]) p = (if fe_path e = p \<and> fe_keep e \<noteq> None then fe_keep e else last_keep es p)"
  by (induction es) (auto split: option.splits)

definition files_ok :: "io \<Rightarrow> (string \<rightharpoonup> nat) \<Rightarrow> bool" where
  "files_ok w m \<longleftrightarrow> chans_wf (io_chans w)
     \<and> (\<forall>p c. m p = Some c \<longrightarrow> open_chan (io_chans w) c \<and> last_keep (io_sent w) p = Some c)
     \<and> (\<forall>p q c. m p = Some c \<longrightarrow> m q = Some c \<longrightarrow> p = q)"

lemma files_ok_empty [simp]: "chans_wf (io_chans w) \<Longrightarrow> files_ok w Map.empty"
  by (simp add: files_ok_def)

lemma keepFile_ok:
  fixes name :: string
  assumes "h_files h = Some m" "files_ok w m"
  defines "p \<equiv> joinPath [h_basePath h, name]" and "c \<equiv> next_chan (io_chans w)"
  shows "\<exists>w'. keepFile name (h, w) = Inr (h\<lparr>h_files := Some (m(p \<mapsto> c))\<rparr>, w') \<and> files_ok w' (m(p \<mapsto> c))
    \<and> io_fs w' = io_fs w"
proof -
  obtain ch where mk: "make_chan (io_chans w) = (c, ch)"
    by (simp add: make_chan_def c_def)
  let ?w = "send (KeepFile p c) (w\<lparr>io_chans := ch\<rparr>)"
  have wf: "chans_wf (io_chans w)" using assms(2) by (simp add: files_ok_def)
  have fresh: "m q \<noteq> Some c" for q
    using assms(2) make_chan_fresh [OF mk] by (auto simp: files_ok_def)
  have "files_ok ?w (m(p \<mapsto> c))"
    using assms(2) make_chan_open [OF mk wf] make_chan_wf [OF mk wf] make_chan_keeps_open [OF mk] fresh
    by (auto simp: files_ok_def send_def last_keep_snoc KeepFile_def)
  then show ?thesis
    using assms(1) mk by (auto simp: keepFile_def p_def send_def Let_def)
qed

lemma expireFile_ok:
  fixes name :: string
  assumes "h_files h = Some m" "files_ok w m"
  defines "p \<equiv> joinPath [h_basePath h, name]"
  shows "\<exists>w'. expireFile name (h, w) = Inr (h\<lparr>h_files := Some (m(p := None))\<rparr>, w')
    \<and> files_ok w' (m(p := None)) \<and> io_fs w' = io_fs w"
proof (cases "m p")
  case None
  then have "m(p := None) = m" by auto
  with None assms show ?thesis by (auto simp: expireFile_def)
next
  case (Some c)
  let ?ch = "(io_chans w)\<lparr>closed := insert c (closed (io_chans w))\<rparr>"
  have op: "open_chan (io_chans w) c" and inj: "\<And>q. m q = Some c \<Longrightarrow> q = p"
    using assms(2) Some by (auto simp: files_ok_def)
  have "files_ok (w\<lparr>io_chans := ?ch\<rparr>) (m(p := None))"
    using assms(2) op inj chans_wf_after_close [OF _ op] by (auto simp: files_ok_def)
  then show ?thesis
    using Some assms(1) by (auto simp: expireFile_def p_def close_chan_open [OF op])
qed

section \<open>Listed segments\<close>

fun listed :: "string \<Rightarrow> item list \<Rightarrow> string list" where
  "listed b [] = []"
| "listed b (Segment s # is) = joinPath [b, seg_segment s] # listed b is"
| "listed b (_ # is) = listed b is"

lemma listed_append: "listed b (xs @ ys) = listed b xs @ listed b ys"
  by (induction b xs rule: listed.induct) auto

text \<open>The paths that leave the list when a full playlist takes one more item.\<close>

definition evicted_paths :: "string \<Rightarrow> LivePlaylist \<Rightarrow> string list" where
  "evicted_paths b lp = (case lp_evicted lp of None \<Rightarrow> [] | Some i \<Rightarrow> listed b [i])"

lemma listed_push:
  assumes "lp_ok lp"
  shows "evicted_paths b lp @ listed b (lp_items (lp_push i lp)) = listed b (lp_items lp) @ listed b [i]"
proof (cases "int (length (lp_items lp)) = lp_size lp")
  case True
  then obtain d ds where "lp_items lp = d # ds"
    using assms by (cases "lp_items lp") (auto simp: lp_ok_def)
  then show ?thesis
    using True assms by (simp add: evicted_paths_def lp_evicted_def lp_push_items)
      (metis append_assoc append_Cons append_Nil listed_append)
next
  case False
  then show ?thesis
    using assms by (simp add: evicted_paths_def lp_evicted_def lp_push_items listed_append)
qed

text \<open>The invariant of a variant under way: \<open>others\<close> are the paths other variants list.\<close>

definition vinv :: "string set \<Rightarrow> vstate \<Rightarrow> bool" where
  "vinv others st = (case st of (v, h, w) \<Rightarrow>
     lp_ok (v_output v)
     \<and> (\<exists>m. h_files h = Some m \<and> files_ok w m
          \<and> distinct (listed (h_basePath h) (lp_items (v_output v)))
          \<and> set (listed (h_basePath h) (lp_items (v_output v))) \<inter> others = {}
          \<and> set (listed (h_basePath h) (lp_items (v_output v))) \<union> others \<subseteq> dom m))"

definition same_frame :: "HLSParser \<Rightarrow> HLSParser \<Rightarrow> bool" where
  "same_frame h h' \<longleftrightarrow> h_basePath h' = h_basePath h \<and> h_subs h' = h_subs h \<and> h_size h' = h_size h
     \<and> h_slug h' = h_slug h"

lemma same_frame_refl [simp]: "same_frame h h"
  and same_frame_trans: "same_frame h h' \<Longrightarrow> same_frame h' h'' \<Longrightarrow> same_frame h h''"
  by (simp_all add: same_frame_def)

lemma expireDeleted_ok:
  assumes "h_files h = Some m" "files_ok w m"
  shows "\<exists>w'. expireDeleted (lp_evicted lp) (h, w) =
      Inr (h\<lparr>h_files := Some (m |` (- set (evicted_paths (h_basePath h) lp)))\<rparr>, w')
    \<and> files_ok w' (m |` (- set (evicted_paths (h_basePath h) lp))) \<and> io_fs w' = io_fs w"
proof -
  have same: "h\<lparr>h_files := Some m\<rparr> = h" using assms(1) by simp
  show ?thesis
  proof (cases "lp_evicted lp")
    case None
    then show ?thesis using assms by (simp add: evicted_paths_def)
  next
    case (Some i)
    show ?thesis
    proof (cases i)
      case (Segment s)
      let ?p = "joinPath [h_basePath h, seg_segment s]"
      have "m |` (- {?p}) = m(?p := None)" by (auto simp: restrict_map_def)
      then show ?thesis
        using expireFile_ok [OF assms, of "seg_segment s"] Some Segment
        by (simp add: evicted_paths_def)
    qed (use Some assms in \<open>simp_all add: evicted_paths_def\<close>)
  qed
qed

text \<open>
  Pushing an item whose path, if it has one, is new: the paths still listed, and those of the
  other variants, stay in the map when the evicted one is taken out.
\<close>

lemma push_keeps_listed:
  assumes "lp_ok lp" "distinct (listed b (lp_items lp) @ listed b [i])"
    and "set (listed b (lp_items lp) @ listed b [i]) \<inter> others = {}"
    and "set (listed b (lp_items lp) @ listed b [i]) \<union> others \<subseteq> dom m"
  shows "distinct (listed b (lp_items (lp_push i lp)))
    \<and> set (listed b (lp_items (lp_push i lp))) \<inter> others = {}
    \<and> set (listed b (lp_items (lp_push i lp))) \<union> others \<subseteq> dom (m |` (- set (evicted_paths b lp)))"
  using assms(2,3,4) unfolding listed_push [OF assms(1), symmetric] by auto

lemma applyDiscontinuity_vinv:
  assumes "vinv others (v, h, w)"
  shows "\<exists>h' w'. go_bind (applyDiscontinuity (v_output v)) (\<lambda>(deleted, out).
           go_bind (expireDeleted deleted (h, w)) (\<lambda>(h', w').
           Inr (v\<lparr>v_output := out, v_lastIndex := 0\<rparr>, h', w'))) =
         Inr (v\<lparr>v_output := lp_push Discontinuity (v_output v), v_lastIndex := 0\<rparr>, h', w')
     \<and> vinv others (v\<lparr>v_output := lp_push Discontinuity (v_output v), v_lastIndex := 0\<rparr>, h', w')
     \<and> same_frame h h' \<and> io_fs w' = io_fs w"
proof -
  obtain m where m: "h_files h = Some m" "files_ok w m" and ok: "lp_ok (v_output v)"
    using assms by (auto simp: vinv_def)
  from expireDeleted_ok [OF m, of "v_output v"] obtain w' where
    ex: "expireDeleted (lp_evicted (v_output v)) (h, w) =
        Inr (h\<lparr>h_files := Some (m |` (- set (evicted_paths (h_basePath h) (v_output v))))\<rparr>, w')"
      "files_ok w' (m |` (- set (evicted_paths (h_basePath h) (v_output v))))" "io_fs w' = io_fs w"
    by blast
  have "vinv others (v\<lparr>v_output := lp_push Discontinuity (v_output v), v_lastIndex := 0\<rparr>,
      h\<lparr>h_files := Some (m |` (- set (evicted_paths (h_basePath h) (v_output v))))\<rparr>, w')"
    using assms m(1) ok ex(2) push_keeps_listed [OF ok, of "h_basePath h" Discontinuity others m]
    by (simp add: vinv_def lp_push_ok)
  then show ?thesis
    using ex by (auto simp: applyDiscontinuity_def lp_append_ok [OF ok] same_frame_def)
qed

lemma appendItem_vinv:
  assumes "vinv others (v, h, w)" "\<not> index < v_lastIndex v"
    and "joinPath [h_basePath h, seg_segment s] \<notin> set (listed (h_basePath h) (lp_items (v_output v))) \<union> others"
  defines "v' \<equiv> v\<lparr>v_output := lp_push (Segment s) (v_output v)\<rparr>"
  shows "\<exists>h' w'. appendItem index (Segment s) (v, h, w) = Inr (v', h', w')
     \<and> vinv others (v', h', w') \<and> same_frame h h' \<and> io_fs w' = io_fs w"
proof -
  obtain m where m: "h_files h = Some m" "files_ok w m" and ok: "lp_ok (v_output v)"
    using assms(1) by (auto simp: vinv_def)
  let ?b = "h_basePath h" and ?p = "joinPath [h_basePath h, seg_segment s]"
  let ?h1 = "h\<lparr>h_metrics := RecordSegmentDuration (v_name v) (seg_duration s) (h_metrics h)\<rparr>"
  let ?m2 = "m(?p \<mapsto> next_chan (io_chans w))"
  from keepFile_ok [of ?h1 m w "seg_segment s"] m obtain w2 where
    k: "keepFile (seg_segment s) (?h1, w) = Inr (?h1\<lparr>h_files := Some ?m2\<rparr>, w2)" "files_ok w2 ?m2" "io_fs w2 = io_fs w"
    by auto
  let ?m3 = "?m2 |` (- set (evicted_paths ?b (v_output v)))"
  from expireDeleted_ok [of "?h1\<lparr>h_files := Some ?m2\<rparr>" ?m2 w2 "v_output v"] k(2) obtain w3 where
    ex: "expireDeleted (lp_evicted (v_output v)) (?h1\<lparr>h_files := Some ?m2\<rparr>, w2) =
        Inr (?h1\<lparr>h_files := Some ?m3\<rparr>, w3)" "files_ok w3 ?m3" "io_fs w3 = io_fs w2"
    by auto
  have "distinct (listed ?b (lp_items (v_output v)) @ listed ?b [Segment s])"
    "set (listed ?b (lp_items (v_output v)) @ listed ?b [Segment s]) \<inter> others = {}"
    "set (listed ?b (lp_items (v_output v)) @ listed ?b [Segment s]) \<union> others \<subseteq> dom ?m2"
    using assms(1,3) m(1) by (auto simp: vinv_def)
  note pl = push_keeps_listed [OF ok this]
  have "vinv others (v', ?h1\<lparr>h_files := Some ?m3\<rparr>, w3)"
    using pl ok ex(2) by (simp only: vinv_def v'_def prod.case) (simp add: lp_push_ok)
  then show ?thesis
    using k ex assms(2) by (auto simp: appendItem_def lp_append_ok [OF ok] v'_def same_frame_def Let_def)
qed

section \<open>Processing a variant playlist\<close>

text \<open>The items a source playlist adds to the output of a variant.\<close>

definition goes_back :: "m3u8_api \<Rightarrow> VariantPlaylist \<Rightarrow> Playlist \<Rightarrow> bool" where
  "goes_back api v source \<longleftrightarrow>
     pl_sequence source + m3u8_SegmentSize api source < v_lastSequence v + v_lastSize v"

definition first_new :: "m3u8_api \<Rightarrow> VariantPlaylist \<Rightarrow> Playlist \<Rightarrow> int" where
  "first_new api v source =
     (if goes_back api v source then 0
      else v_lastIndex v
        + min 0 (v_lastSequence v - pl_sequence source + m3u8_SegmentSize api source - v_lastSize v))"

definition new_segments :: "m3u8_api \<Rightarrow> VariantPlaylist \<Rightarrow> Playlist \<Rightarrow> item list" where
  "new_segments api v source = filter is_segment (drop (nat (first_new api v source)) (pl_items source))"

definition new_items :: "m3u8_api \<Rightarrow> VariantPlaylist \<Rightarrow> Playlist \<Rightarrow> item list" where
  "new_items api v source =
     (if goes_back api v source then [Discontinuity] else []) @ new_segments api v source"

lemma listed_push_subset:
  "lp_ok lp \<Longrightarrow> set (listed b (lp_items (lp_push i lp))) \<subseteq> set (listed b (lp_items lp)) \<union> set (listed b [i])"
  using listed_push [of lp b i] by (metis Un_upper2 set_append)

lemma drop_step: "\<not> (k::int) \<le> i \<Longrightarrow> drop (nat (k - i)) (x # xs) = drop (nat (k - (i + 1))) xs"
proof -
  assume "\<not> k \<le> i"
  then have "nat (k - i) = Suc (nat (k - (i + 1)))" by linarith
  then show ?thesis by simp
qed

lemma appendLoop_vinv:
  assumes "vinv others (v, h, w)"
    and "distinct (listed (h_basePath h) (filter is_segment (drop (nat (v_lastIndex v - index)) items)))"
    and "set (listed (h_basePath h) (filter is_segment (drop (nat (v_lastIndex v - index)) items)))
           \<inter> (set (listed (h_basePath h) (lp_items (v_output v))) \<union> others) = {}"
  shows "\<exists>h' w'. appendLoop index items (v, h, w) =
      Inr (v\<lparr>v_output := fold lp_push (filter is_segment (drop (nat (v_lastIndex v - index)) items)) (v_output v)\<rparr>, h', w')
    \<and> vinv others (v\<lparr>v_output := fold lp_push (filter is_segment (drop (nat (v_lastIndex v - index)) items)) (v_output v)\<rparr>, h', w')
    \<and> same_frame h h' \<and> io_fs w' = io_fs w"
  using assms
proof (induction items arbitrary: index v h w)
  case Nil
  then show ?case by simp
next
  case (Cons item items)
  show ?case
  proof (cases "v_lastIndex v \<le> index")
    case False
    then have skip: "appendItem index item (v, h, w) = Inr (v, h, w)"
      by (cases item) (simp_all add: appendItem_def)
    from Cons False show ?thesis by (simp add: skip drop_step)
  next
    case True
    then have all: "nat (v_lastIndex v - index) = 0" "nat (v_lastIndex v - (index + 1)) = 0" by simp_all
    show ?thesis
    proof (cases "is_segment item")
      case False
      then have "appendItem index item (v, h, w) = Inr (v, h, w)"
        by (cases item) (simp_all add: appendItem_def)
      then show ?thesis
        using Cons.IH [OF Cons.prems(1), of "index + 1"] Cons.prems(2,3) all False by simp
    next
      case True
      then obtain s where item: "item = Segment s" by (cases item) auto
      let ?v = "v\<lparr>v_output := lp_push item (v_output v)\<rparr>"
      have ok: "lp_ok (v_output v)" using Cons.prems(1) by (simp add: vinv_def)
      obtain h' w' where st: "appendItem index item (v, h, w) = Inr (?v, h', w')"
        "vinv others (?v, h', w')" "same_frame h h'" "io_fs w' = io_fs w"
        using appendItem_vinv [OF Cons.prems(1), of index s] Cons.prems(3) \<open>v_lastIndex v \<le> index\<close> all
        by (auto simp: item)
      have b: "h_basePath h' = h_basePath h" using st(3) by (simp add: same_frame_def)
      have "set (listed (h_basePath h') (filter is_segment (drop (nat (v_lastIndex ?v - (index + 1))) items)))
          \<inter> (set (listed (h_basePath h') (lp_items (v_output ?v))) \<union> others) = {}"
        using Cons.prems(2,3) listed_push_subset [OF ok, of "h_basePath h" item] all
        by (auto simp: b item)
      moreover have "distinct (listed (h_basePath h')
          (filter is_segment (drop (nat (v_lastIndex ?v - (index + 1))) items)))"
        using Cons.prems(2) all by (simp add: b item)
      ultimately obtain h'' w'' where
        "appendLoop (index + 1) items (?v, h', w') =
           Inr (?v\<lparr>v_output := fold lp_push (filter is_segment items) (v_output ?v)\<rparr>, h'', w'')"
        "vinv others (?v\<lparr>v_output := fold lp_push (filter is_segment items) (v_output ?v)\<rparr>, h'', w'')"
        "same_frame h' h''" "io_fs w'' = io_fs w'"
        using Cons.IH [OF st(2), of "index + 1"] all by auto
      then show ?thesis
        using st all same_frame_trans [of h h' h''] by (auto simp: item)
    qed
  qed
qed

definition checked_variant :: "m3u8_api \<Rightarrow> VariantPlaylist \<Rightarrow> Playlist \<Rightarrow> VariantPlaylist" where
  "checked_variant api v source =
     v\<lparr>v_output := fold lp_push (if goes_back api v source then [Discontinuity] else []) (v_output v),
       v_lastIndex := first_new api v source,
       v_lastSequence := pl_sequence source, v_lastSize := m3u8_SegmentSize api source\<rparr>"

lemma checkDiscontinuity_vinv:
  assumes "vinv others (v, h, w)"
  shows "\<exists>h' w'. checkDiscontinuity api source (v, h, w) = Inr (checked_variant api v source, h', w')
    \<and> vinv others (checked_variant api v source, h', w') \<and> same_frame h h' \<and> io_fs w' = io_fs w"
proof (cases "goes_back api v source")
  case True
  with applyDiscontinuity_vinv [OF assms] show ?thesis
    by (auto simp: checkDiscontinuity_def checked_variant_def goes_back_def first_new_def vinv_def Let_def)
next
  case False
  then show ?thesis
    using assms
    by (auto simp: checkDiscontinuity_def checked_variant_def goes_back_def first_new_def vinv_def Let_def min_def)
qed

definition next_variant :: "m3u8_api \<Rightarrow> VariantPlaylist \<Rightarrow> Playlist \<Rightarrow> VariantPlaylist" where
  "next_variant api v source =
     v\<lparr>v_lastIndex := int (length (pl_items source)), v_lastSize := m3u8_SegmentSize api source,
       v_lastSequence := pl_sequence source,
       v_output := setSegmentTarget (pl_target source) (fold lp_push (new_items api v source) (v_output v))\<rparr>"

lemma setSegmentTarget_simps [simp]:
  "lp_items (setSegmentTarget t lp) = lp_items lp" "lp_ok (setSegmentTarget t lp) = lp_ok lp"
  "pl_sequence (lp_playlist (setSegmentTarget t lp)) = pl_sequence (lp_playlist lp)"
  by (simp_all add: setSegmentTarget_def lp_ok_def)

lemma appendItems_vinv:
  assumes "vinv others (checked_variant api v source, h, w)" "lp_ok (v_output v)"
    and "distinct (listed (h_basePath h) (new_segments api v source))"
    and "set (listed (h_basePath h) (new_segments api v source))
           \<inter> (set (listed (h_basePath h) (lp_items (v_output v))) \<union> others) = {}"
  shows "\<exists>v3 h3 w3. appendItems source (checked_variant api v source, h, w) = Inr (v3, h3, w3)
    \<and> v3\<lparr>v_output := setSegmentTarget (pl_target source) (v_output v3)\<rparr> = next_variant api v source
    \<and> vinv others (next_variant api v source, h3, w3) \<and> same_frame h h3 \<and> io_fs w3 = io_fs w"
proof -
  let ?v2 = "checked_variant api v source" and ?new = "new_segments api v source"
  have new: "filter is_segment (drop (nat (v_lastIndex ?v2 - 0)) (pl_items source)) = ?new"
    by (simp add: checked_variant_def new_segments_def)
  have "set (listed (h_basePath h) (lp_items (v_output ?v2))) \<subseteq> set (listed (h_basePath h) (lp_items (v_output v)))"
    using listed_push_subset [OF assms(2), of "h_basePath h" Discontinuity] by (simp add: checked_variant_def)
  with assms(4) have "set (listed (h_basePath h) ?new)
      \<inter> (set (listed (h_basePath h) (lp_items (v_output ?v2))) \<union> others) = {}"
    by blast
  from appendLoop_vinv [OF assms(1), of 0 "pl_items source", unfolded new, OF assms(3) this]
  obtain h3 w3 where three:
    "appendLoop 0 (pl_items source) (?v2, h, w) = Inr (?v2\<lparr>v_output := fold lp_push ?new (v_output ?v2)\<rparr>, h3, w3)"
    "vinv others (?v2\<lparr>v_output := fold lp_push ?new (v_output ?v2)\<rparr>, h3, w3)"
    "same_frame h h3" "io_fs w3 = io_fs w"
    by blast
  then show ?thesis
    by (auto simp: appendItems_def next_variant_def checked_variant_def new_items_def vinv_def)
qed

text \<open>The invariant of the parser.\<close>

definition listed_of :: "HLSParser \<Rightarrow> string \<Rightarrow> string list" where
  "listed_of h name =
     (case h_subs h name of None \<Rightarrow> [] | Some v \<Rightarrow> listed (h_basePath h) (lp_items (v_output v)))"

definition parser_inv :: "HLSParser \<times> io \<Rightarrow> bool" where
  "parser_inv st = (case st of (h, w) \<Rightarrow>
     0 < h_size h
     \<and> (\<forall>name v. h_subs h name = Some v \<longrightarrow> lp_ok (v_output v))
     \<and> (\<exists>m. h_files h = Some m \<and> files_ok w m \<and> (\<forall>name. set (listed_of h name) \<subseteq> dom m))
     \<and> (\<forall>name. distinct (listed_of h name))
     \<and> (\<forall>name name'. name \<noteq> name' \<longrightarrow> set (listed_of h name) \<inter> set (listed_of h name') = {}))"

lemma parser_inv_new:
  "0 < sz \<Longrightarrow> chans_wf (io_chans w) \<Longrightarrow> parser_inv (NewHLSParser slug b sz, w)"
  by (simp add: parser_inv_def NewHLSParser_def listed_of_def)

lemma Segment_listed: "Segment s \<in> set is \<Longrightarrow> joinPath [b, seg_segment s] \<in> set (listed b is)"
  by (induction b "is" rule: listed.induct) auto

lemma parser_inv_kept:
  assumes "parser_inv (h, w)" "h_subs h name = Some v" "Segment s \<in> set (lp_items (v_output v))"
  shows "\<exists>m c. h_files h = Some m \<and> m (joinPath [h_basePath h, seg_segment s]) = Some c
    \<and> open_chan (io_chans w) c \<and> last_keep (io_sent w) (joinPath [h_basePath h, seg_segment s]) = Some c"
proof -
  have "joinPath [h_basePath h, seg_segment s] \<in> set (listed_of h name)"
    using assms(2,3) by (simp add: listed_of_def Segment_listed)
  then show ?thesis
    using assms(1) unfolding parser_inv_def files_ok_def by blast
qed

text \<open>The variant a path stands for, new or known.\<close>

definition variant_of :: "HLSParser \<Rightarrow> string \<Rightarrow> VariantPlaylist" where
  "variant_of h name =
     (case h_subs h name of
        Some v \<Rightarrow> v
      | None \<Rightarrow> \<lparr>v_name = name, v_lastIndex = 0, v_lastSize = 0, v_lastSequence = 0,
                 v_output = newLivePlaylist (h_size h)\<rparr>)"

lemma getVariantPlaylist_eq:
  "dir path = h_basePath h \<Longrightarrow>
   \<exists>h0. getVariantPlaylist path h = Inr (variant_of h (base path), h0) \<and> h_basePath h0 = h_basePath h
     \<and> h_size h0 = h_size h \<and> h_slug h0 = h_slug h \<and> h_files h0 = h_files h \<and> h_metrics h0 = h_metrics h
     \<and> h_subs h0 = (h_subs h)(base path \<mapsto> variant_of h (base path))"
  by (auto simp: getVariantPlaylist_def variant_of_def Let_def split: option.splits)

definition other_paths :: "HLSParser \<Rightarrow> string \<Rightarrow> string set" where
  "other_paths h name = (\<Union>n \<in> - {name}. set (listed_of h n))"

lemma listed_variant_of: "listed (h_basePath h) (lp_items (v_output (variant_of h name))) = listed_of h name"
  by (simp add: listed_of_def variant_of_def newLivePlaylist_def split: option.splits)

lemma parser_inv_vinv:
  assumes "parser_inv (h, w)" "h_basePath h1 = h_basePath h" "h_files h1 = h_files h"
  shows "vinv (other_paths h name) (variant_of h name, h1, w)"
proof -
  have "lp_ok (v_output (variant_of h name))"
    using assms(1) by (auto simp: parser_inv_def variant_of_def lp_ok_new split: option.splits)
  moreover have "set (listed_of h name) \<inter> other_paths h name = {}" "distinct (listed_of h name)"
    using assms(1) unfolding parser_inv_def other_paths_def by blast+
  moreover obtain m where "h_files h = Some m" "files_ok w m" "\<And>n. set (listed_of h n) \<subseteq> dom m"
    using assms(1) unfolding parser_inv_def by blast
  moreover from this(3) have "set (listed_of h name) \<union> other_paths h name \<subseteq> dom m"
    unfolding other_paths_def by blast
  ultimately show ?thesis
    using assms(2,3) by (simp add: vinv_def listed_variant_of)
qed

text \<open>All new segments have paths that no playlist lists, and no two the same.\<close>

definition fresh_segments :: "m3u8_api \<Rightarrow> HLSParser \<Rightarrow> string \<Rightarrow> Playlist \<Rightarrow> bool" where
  "fresh_segments api h name source \<longleftrightarrow>
     distinct (listed (h_basePath h) (new_segments api (variant_of h name) source))
     \<and> (\<forall>n. set (listed (h_basePath h) (new_segments api (variant_of h name) source)) \<inter> set (listed_of h n) = {})"

lemma vinv_parser_inv:
  assumes "parser_inv (h, w)" "vinv (other_paths h name) (v, h', w')"
    and "h_basePath h' = h_basePath h" "h_size h' = h_size h" "h_subs h' = (h_subs h)(name \<mapsto> v)"
  shows "parser_inv (h', w')"
proof -
  have new: "listed_of h' n = (if n = name then listed (h_basePath h) (lp_items (v_output v)) else listed_of h n)" for n
    using assms(3,5) by (simp add: listed_of_def split: option.splits)
  have others: "n \<noteq> name \<Longrightarrow> set (listed_of h n) \<subseteq> other_paths h name" for n
    by (auto simp: other_paths_def)
  obtain m where m: "h_files h' = Some m" "files_ok w' m"
    "set (listed (h_basePath h) (lp_items (v_output v))) \<union> other_paths h name \<subseteq> dom m"
    "set (listed (h_basePath h) (lp_items (v_output v))) \<inter> other_paths h name = {}"
    "distinct (listed (h_basePath h) (lp_items (v_output v)))" "lp_ok (v_output v)"
    using assms(2,3) by (auto simp: vinv_def)
  have "set (listed_of h' n) \<subseteq> dom m" for n
    using m(3) others [of n] by (auto simp: new)
  moreover have "set (listed_of h' n) \<inter> set (listed_of h' n') = {}" if "n \<noteq> n'" for n n'
    using assms(1) m(4) others [of n] others [of n'] that unfolding new parser_inv_def
    by (auto split: if_splits)
  moreover have "distinct (listed_of h' n)" for n
    using assms(1) m(5) by (auto simp: new parser_inv_def)
  ultimately show ?thesis
    using assms(1,4,5) m by (auto simp: parser_inv_def)
qed

lemma processVariant_ok:
  assumes inv: "parser_inv (h, w)" and dir: "dir path = h_basePath h"
    and fresh: "fresh_segments api h (base path) source"
  defines "v' \<equiv> next_variant api (variant_of h (base path)) source"
  shows "\<exists>h' w'. processVariant api path source (h, w) = Inr (Inr (lp_playlist (v_output v')), h', w')
    \<and> parser_inv (h', w') \<and> h_subs h' = (h_subs h)(base path \<mapsto> v')
    \<and> h_basePath h' = h_basePath h \<and> h_size h' = h_size h \<and> h_slug h' = h_slug h \<and> io_fs w' = io_fs w"
proof -
  let ?name = "base path" and ?v = "variant_of h (base path)"
  let ?others = "other_paths h ?name"
  obtain h0 where h0: "getVariantPlaylist path h = Inr (?v, h0)" "h_basePath h0 = h_basePath h"
    "h_size h0 = h_size h" "h_slug h0 = h_slug h" "h_files h0 = h_files h"
    "h_subs h0 = (h_subs h)(?name \<mapsto> ?v)"
    using getVariantPlaylist_eq [OF dir] by auto
  let ?h1 = "h0\<lparr>h_metrics := RecordTargetDuration (pl_target source) ?name (h_metrics h0)\<rparr>"
  have start: "vinv ?others (?v, ?h1, w)"
    using parser_inv_vinv [OF inv, of ?h1 ?name] h0 by simp
  from checkDiscontinuity_vinv [OF this, of api source] obtain h2 w2 where
    two: "checkDiscontinuity api source (?v, ?h1, w) = Inr (checked_variant api ?v source, h2, w2)"
      "vinv ?others (checked_variant api ?v source, h2, w2)" "same_frame ?h1 h2" "io_fs w2 = io_fs w"
    by blast
  have b2: "h_basePath h2 = h_basePath h" using two(3) h0 by (simp add: same_frame_def)
  have ok: "lp_ok (v_output ?v)" using start by (simp add: vinv_def)
  have "set (listed (h_basePath h) (new_segments api ?v source))
      \<inter> (set (listed (h_basePath h) (lp_items (v_output ?v))) \<union> ?others) = {}"
    using fresh unfolding fresh_segments_def other_paths_def listed_variant_of by blast
  with appendItems_vinv [OF two(2) ok] fresh obtain v3 h3 w3 where three:
    "appendItems source (checked_variant api ?v source, h2, w2) = Inr (v3, h3, w3)"
    "v3\<lparr>v_output := setSegmentTarget (pl_target source) (v_output v3)\<rparr> = v'"
    "vinv ?others (v', h3, w3)" "same_frame h2 h3" "io_fs w3 = io_fs w2"
    unfolding fresh_segments_def b2 v'_def by blast
  let ?h = "h3\<lparr>h_subs := (h_subs h3)(?name \<mapsto> v')\<rparr>"
  have frame: "h_basePath ?h = h_basePath h" "h_size ?h = h_size h" "h_slug ?h = h_slug h"
    "h_subs ?h = (h_subs h)(?name \<mapsto> v')"
    using two(3) three(4) h0 by (auto simp: same_frame_def)
  have "vinv ?others (v', ?h, w3)" using three(3) by (simp add: vinv_def)
  from vinv_parser_inv [OF inv this frame(1,2,4)] have "parser_inv (?h, w3)" .
  moreover have "processVariant api path source (h, w) = Inr (Inr (lp_playlist (v_output v')), ?h, w3)"
    using h0(1) two(1) three(1) by (simp add: processVariant_def Let_def flip: three(2))
  ultimately show ?thesis
    using frame two(4) three(5) by auto
qed

section \<open>Whole requests\<close>

text \<open>Keeping one more file, for a playlist just written, keeps the invariant.\<close>

lemma keepFile_parser_inv:
  assumes "parser_inv (h, w)"
  shows "\<exists>h' w'. keepFile name (h, w) = Inr (h', w') \<and> parser_inv (h', w') \<and> same_frame h h' \<and> io_fs w' = io_fs w"
proof -
  obtain m where m: "h_files h = Some m" "files_ok w m" "\<And>n. set (listed_of h n) \<subseteq> dom m"
    using assms by (auto simp: parser_inv_def)
  from keepFile_ok [OF m(1,2), of name] obtain w' where
    k: "keepFile name (h, w) = Inr (h\<lparr>h_files := Some (m(joinPath [h_basePath h, name] \<mapsto> next_chan (io_chans w)))\<rparr>, w')"
      "files_ok w' (m(joinPath [h_basePath h, name] \<mapsto> next_chan (io_chans w)))" "io_fs w' = io_fs w"
    by blast
  let ?h = "h\<lparr>h_files := Some (m(joinPath [h_basePath h, name] \<mapsto> next_chan (io_chans w)))\<rparr>"
  have "listed_of ?h n = listed_of h n" for n by (simp add: listed_of_def split: option.splits)
  with assms k m(3) have "parser_inv (?h, w')"
    unfolding parser_inv_def by (auto simp: subset_insertI2)
  with k show ?thesis by (auto simp: same_frame_def)
qed

lemma WriteFile_returns: "\<not> f_open f \<Longrightarrow> \<exists>states err. WriteFile f path data s = Inr (states, err)"
  by (simp add: WriteFile_def aw_open_def split: prod.splits)

lemma parser_inv_fs [simp]: "parser_inv (h, w\<lparr>io_fs := s\<rparr>) = parser_inv (h, w)"
  by (simp add: parser_inv_def files_ok_def)

lemma writePlaylist_parser_inv:
  assumes "parser_inv (h, w)" "\<not> f_open (flt path)"
  shows "\<exists>err h' w'. writePlaylist api flt path pl (h, w) = Inr (err, h', w') \<and> parser_inv (h', w') \<and> same_frame h h'"
proof (cases "m3u8_Write api pl")
  case (Inl e)
  with assms show ?thesis by (simp add: writePlaylist_def)
next
  case (Inr str)
  obtain states err where wf: "WriteFile (flt path) path str (io_fs w) = Inr (states, err)"
    using WriteFile_returns [OF assms(2)] by blast
  let ?w = "w\<lparr>io_fs := last states\<rparr>"
  from keepFile_parser_inv [of h ?w path] assms(1) obtain h' w' where
    "keepFile path (h, ?w) = Inr (h', w')" "parser_inv (h', w')" "same_frame h h'"
    by auto
  with Inr wf assms(1) show ?thesis
    by (cases err) (auto simp: writePlaylist_def Let_def)
qed

lemma languageMasters_parser_inv:
  assumes "parser_inv (h, w)" "\<And>p. \<not> f_open (flt p)"
  shows "\<exists>err pl' h' w'. languageMasters api flt d sfx langs pl (h, w) = Inr (err, pl', h', w')
    \<and> parser_inv (h', w') \<and> same_frame h h'"
  using assms(1)
proof (induction langs arbitrary: pl h w)
  case Nil
  then show ?case by simp
next
  case (Cons lang langs)
  let ?name = "languageMasterName lang sfx" and ?pl = "setDefaultLanguage lang pl"
  obtain err h1 w1 where
    w: "writePlaylist api flt (joinPath [d, ?name]) ?pl (h, w) = Inr (err, h1, w1)" "parser_inv (h1, w1)" "same_frame h h1"
    using writePlaylist_parser_inv [OF Cons.prems, of flt] assms(2) by blast
  show ?case
  proof (cases "?name = ''native_hd.m3u8''")
    case True
    with Cons show ?thesis by (simp add: Let_def)
  next
    case False
    from Cons.IH [OF w(2), of ?pl] False w show ?thesis
      by (cases err) (auto simp: Let_def intro: same_frame_trans)
  qed
qed

lemma parseMaster_parser_inv:
  assumes "parser_inv (h, w)" "\<And>p. \<not> f_open (flt p)"
  shows "\<exists>err h' w'. parseMaster api flt path pl (h, w) = Inr (err, h', w') \<and> parser_inv (h', w') \<and> same_frame h h'"
proof -
  let ?p1 = "fixupCodecInformation pl" and ?langs = "\<lambda>sfx p. languageMasters api flt (dir path) sfx (getLanguages p) p"
  obtain e1 h1 w1 where 1: "writePlaylist api flt path ?p1 (h, w) = Inr (e1, h1, w1)" "parser_inv (h1, w1)" "same_frame h h1"
    using writePlaylist_parser_inv [OF assms(1), of flt] assms(2) by blast
  obtain e2 p2 h2 w2 where 2: "?langs ''hd'' ?p1 (h1, w1) = Inr (e2, p2, h2, w2)" "parser_inv (h2, w2)" "same_frame h1 h2"
    using languageMasters_parser_inv [OF 1(2), of flt api "dir path" "''hd''" "getLanguages ?p1" ?p1] assms(2) by blast
  obtain p3 r where 3: "filterHDResolutions p2 = (p3, r)" by force
  obtain e4 p4 h4 w4 where 4: "?langs ''sd'' p3 (h2, w2) = Inr (e4, p4, h4, w4)" "parser_inv (h4, w4)" "same_frame h2 h4"
    using languageMasters_parser_inv [OF 2(2), of flt api "dir path" "''sd''" "getLanguages p3" p3] assms(2) by blast
  have fr: "same_frame h h2" "same_frame h h4"
    using 1(3) 2(3) 4(3) same_frame_trans by blast+
  show ?thesis
    using 1 2 3 4 fr by (auto simp: parseMaster_def generateLanguageMasters_def Let_def)
qed

type_synonym parse_request = "(string \<Rightarrow> faults) \<times> string \<times> string \<times> io_error option"

definition parse_step :: "m3u8_api \<Rightarrow> parse_request \<Rightarrow> HLSParser \<times> io \<Rightarrow> (HLSParser \<times> io) go" where
  "parse_step api req st =
     (case req of (flt, path, reader) \<Rightarrow> go_bind (ParsePlaylist api flt path reader st) (\<lambda>(err, st'). Inr st'))"

text \<open>
  A request is acceptable when temporary files can be created and the segments that a media
  playlist adds have names of their own.
\<close>

definition parse_allowed :: "m3u8_api \<Rightarrow> HLSParser \<times> io \<Rightarrow> parse_request \<Rightarrow> bool" where
  "parse_allowed api st req =
     (case req of (flt, path, reader) \<Rightarrow>
        (\<forall>p. \<not> f_open (flt p))
        \<and> (\<forall>pl. m3u8_Read api reader = Inr pl \<longrightarrow> \<not> m3u8_IsMaster api pl \<longrightarrow>
             dir path = h_basePath (fst st) \<longrightarrow> fresh_segments api (fst st) (base path) pl))"

lemma ParsePlaylist_parser_inv:
  assumes inv: "parser_inv (h, w)" and "parse_allowed api (h, w) (flt, path, reader)"
  shows "\<exists>err h' w'. ParsePlaylist api flt path reader (h, w) = Inr (err, h', w')
    \<and> parser_inv (h', w') \<and> h_basePath h' = h_basePath h"
proof (cases "m3u8_Read api reader")
  case (Inl e)
  with inv show ?thesis by (simp add: ParsePlaylist_def)
next
  case (Inr pl)
  have flt: "\<And>p. \<not> f_open (flt p)" using assms(2) by (simp add: parse_allowed_def)
  consider "m3u8_IsMaster api pl" | "\<not> m3u8_IsMaster api pl" "dir path \<noteq> h_basePath h"
    | "\<not> m3u8_IsMaster api pl" "dir path = h_basePath h" by blast
  then show ?thesis
  proof cases
    case 1
    with parseMaster_parser_inv [OF inv, of flt api path pl] flt Inr show ?thesis
      by (auto simp: ParsePlaylist_def same_frame_def)
  next
    case 2
    with Inr inv show ?thesis
      by (simp add: ParsePlaylist_def processVariant_def getVariantPlaylist_def)
  next
    case 3
    have "fresh_segments api h (base path) pl"
      using assms(2) Inr 3 by (simp add: parse_allowed_def)
    from processVariant_ok [OF inv 3(2) this] obtain out h1 w1 where
      pv: "processVariant api path pl (h, w) = Inr (Inr out, h1, w1)" "parser_inv (h1, w1)"
        "h_basePath h1 = h_basePath h"
      by blast
    from writePlaylist_parser_inv [OF pv(2), of flt path api out] flt pv Inr 3 show ?thesis
      by (auto simp: ParsePlaylist_def same_frame_def)
  qed
qed

interpretation parser: safe_steps "parse_step api" "parse_allowed api"
  "\<lambda>st. parser_inv st \<and> h_basePath (fst st) = b" for api b
proof
  fix st req
  assume "parser_inv st \<and> h_basePath (fst st) = b" "parse_allowed api st req"
  then show "\<exists>st'. parse_step api req st = Inr st' \<and> parser_inv st' \<and> h_basePath (fst st') = b"
    using ParsePlaylist_parser_inv [of "fst st" "snd st" api "fst req" "fst (snd req)" "snd (snd req)"]
    by (cases st, cases req) (auto simp: parse_step_def)
qed

section \<open>Sliding windows\<close>

text \<open>
  A source as an encoder produces it: \<open>n\<close> consecutive segments of its stream \<open>g\<close> from
  sequence number \<open>s\<close> on.
\<close>

definition window :: "(nat \<Rightarrow> SegmentItem) \<Rightarrow> nat \<Rightarrow> nat \<Rightarrow> Playlist \<Rightarrow> bool" where
  "window g s n source \<longleftrightarrow> pl_sequence source = int s \<and> pl_items source = map (Segment \<circ> g) [s..<s + n]"

text \<open>A variant that has just processed such a source.\<close>

definition follows :: "nat \<Rightarrow> nat \<Rightarrow> VariantPlaylist \<Rightarrow> bool" where
  "follows s n v \<longleftrightarrow> v_lastSequence v = int s \<and> v_lastSize v = int n \<and> v_lastIndex v = int n"

lemma segments_in_map [simp]: "segments_in (map (Segment \<circ> g) xs) = int (length xs)"
  by (induction xs) auto

lemma filter_segment_map [simp]: "filter is_segment (map (Segment \<circ> g) xs) = map (Segment \<circ> g) xs"
  by (induction xs) auto

lemma window_size: "segmentSize_ok api \<Longrightarrow> window g s n source \<Longrightarrow> m3u8_SegmentSize api source = int n"
  by (simp add: segmentSize_ok_def window_def)

lemma follows_next: "segmentSize_ok api \<Longrightarrow> window g s n source \<Longrightarrow> follows s n (next_variant api v source)"
  by (simp add: follows_def next_variant_def window_size) (simp add: window_def)

text \<open>The new segments of a source are those from \<open>first_new\<close> on.\<close>

lemma new_segments_window:
  assumes "window g s' n source"
  shows "new_segments api v source = map (Segment \<circ> g) [s' + nat (first_new api v source)..<s' + n]"
  using assms by (simp add: new_segments_def window_def drop_map)

lemma first_new_window:
  assumes "segmentSize_ok api" "window g s' n source" "follows s m v"
  shows "first_new api v source =
    (if s' + n < s + m then 0 else int m + min 0 (int s - int s' + int n - int m))"
  using assms(3) window_size [OF assms(1,2)] assms(2)
  by (auto simp: first_new_def goes_back_def follows_def window_def)

text \<open>Sources that carry the stream on: longer from the same place, or shifted at the same length.\<close>

definition carries_on :: "nat \<times> nat \<Rightarrow> nat \<times> nat \<Rightarrow> bool" where
  "carries_on old new = (case (old, new) of ((s, m), (s', n)) \<Rightarrow>
     s' = s \<and> m \<le> n \<or> s \<le> s' \<and> s' \<le> s + m \<and> n = m)"

lemma upt_eq_iff: "b \<le> c \<Longrightarrow> [a..<c] = [b..<c] \<longleftrightarrow> c - a = c - b"
proof -
  assume "b \<le> c"
  then have "c - a = c - b \<Longrightarrow> a = b \<or> b = c \<and> c \<le> a" for a by arith
  then show ?thesis by (metis length_upt upt_conv_Nil order_refl)
qed

lemma new_items_carries_on:
  assumes "segmentSize_ok api" "window g s' n source" "follows s m v" "carries_on (s, m) (s', n)"
  shows "new_items api v source = map (Segment \<circ> g) [s + m..<s' + n]"
proof -
  have "\<not> s' + n < s + m" using assms(4) by (auto simp: carries_on_def)
  moreover from this have "\<not> goes_back api v source"
    using assms(2,3) window_size [OF assms(1,2)] by (simp add: goes_back_def follows_def window_def)
  moreover have "s' + nat (int m + min 0 (int s - int s' + int n - int m)) = s + m"
    using assms(4) by (auto simp: carries_on_def min_def)
  ultimately show ?thesis
    by (simp add: new_items_def new_segments_window [OF assms(2)] first_new_window [OF assms(1-3)])
qed

fun carries_all :: "nat \<times> nat \<Rightarrow> (nat \<times> nat) list \<Rightarrow> bool" where
  "carries_all old [] = True"
| "carries_all old (new # news) = (carries_on old new \<and> carries_all new news)"

lemma lp_size_fold: "lp_ok lp \<Longrightarrow> lp_size (fold lp_push is lp) = lp_size lp"
  using live.capacity_fold [of lp "is"] live.ok_fold [of lp "is"] by (simp add: lp_ok_def eq_nat_nat_iff)

text \<open>
  What is known of a parser that has followed one stream up to, not including, segment \<open>e\<close>:
  its output lists the last segments, numbered on without a gap from the first.
\<close>

definition shows_stream :: "(nat \<Rightarrow> SegmentItem) \<Rightarrow> nat \<Rightarrow> nat \<Rightarrow> LivePlaylist \<Rightarrow> bool" where
  "shows_stream g s0 e out \<longleftrightarrow>
     lp_items out = drop (e - s0 - nat (lp_size out)) (map (Segment \<circ> g) [s0..<e])
     \<and> lp_total_segments out = int (e - s0)"

lemma shows_stream_push:
  assumes "lp_ok out" "shows_stream g s0 e out" "s0 \<le> e" "e \<le> e'"
  shows "shows_stream g s0 e' (fold lp_push (map (Segment \<circ> g) [e..<e']) out)"
proof -
  let ?new = "map (Segment \<circ> g) [e..<e']" and ?k = "nat (lp_size out)"
  have sz: "nat (lp_size (fold lp_push ?new out)) = ?k" using assms(1) by (simp add: lp_size_fold)
  have app: "map (Segment \<circ> g) [s0..<e] @ ?new = map (Segment \<circ> g) [s0..<e']"
    using assms(3,4) by (metis map_append le_add_diff_inverse upt_add_eq_append)
  have "lp_items out @ ?new = drop (e - s0 - ?k) (map (Segment \<circ> g) [s0..<e'])"
    using assms(2) unfolding app [symmetric] by (simp add: shows_stream_def)
  moreover have arith: "e' - (s0 + (e - (s0 + ?k)) + ?k) + (e - (s0 + ?k)) = e' - (s0 + ?k)"
    using assms(3,4) by arith
  ultimately have "lp_items (fold lp_push ?new out) = drop (e' - s0 - ?k) (map (Segment \<circ> g) [s0..<e'])"
    using live.items_fold [OF assms(1), of ?new] assms(3,4) arith by simp
  moreover have "lp_total_segments (fold lp_push ?new out) = int (e' - s0)"
    using lp_fold_totals(1) [OF assms(1), of ?new] assms(2,3,4) by (simp add: shows_stream_def)
  ultimately show ?thesis by (simp add: shows_stream_def sz)
qed

definition following :: "(nat \<Rightarrow> SegmentItem) \<Rightarrow> string \<Rightarrow> int \<Rightarrow> nat \<Rightarrow> nat \<times> nat \<Rightarrow> HLSParser \<times> io \<Rightarrow> bool" where
  "following g path sz s0 win st = (case (win, st) of ((s, m), (h, w)) \<Rightarrow>
     parser_inv (h, w) \<and> h_basePath h = dir path \<and> h_size h = sz
     \<and> (\<exists>v. h_subs h = [base path \<mapsto> v] \<and> follows s m v \<and> lp_size (v_output v) = sz
            \<and> s0 \<le> s + m \<and> shows_stream g s0 (s + m) (v_output v)))"

definition feed :: "m3u8_api \<Rightarrow> string \<Rightarrow> Playlist \<Rightarrow> HLSParser \<times> io \<Rightarrow> (HLSParser \<times> io) go" where
  "feed api path source st = go_bind (processVariant api path source st) (\<lambda>(res, st'). Inr st')"

lemma listed_map: "listed b (map (Segment \<circ> g) xs) = map (\<lambda>i. joinPath [b, seg_segment (g i)]) xs"
  by (induction xs) auto

lemma fresh_stream:
  assumes "inj (\<lambda>i. joinPath [h_basePath h, seg_segment (g i)])"
    and "new_segments api (variant_of h name) source = map (Segment \<circ> g) [e..<e']"
    and "\<And>n. set (listed_of h n) \<subseteq> (\<lambda>i. joinPath [h_basePath h, seg_segment (g i)]) ` {..<e}"
  shows "fresh_segments api h name source"
proof -
  let ?f = "\<lambda>i. joinPath [h_basePath h, seg_segment (g i)]"
  have "distinct (map ?f [e..<e'])"
    using assms(1) by (auto simp: distinct_map intro: inj_on_subset)
  moreover have "?f ` {e..<e'} \<inter> ?f ` {..<e} = {}"
    using assms(1) by (auto dest: injD)
  ultimately show ?thesis
    using assms(3) unfolding fresh_segments_def assms(2) listed_map by fastforce
qed

lemma shows_stream_setTarget [simp]: "shows_stream g s0 e (setSegmentTarget t out) = shows_stream g s0 e out"
  by (simp add: shows_stream_def lp_total_segments_def setSegmentTarget_def)

lemma feed_step:
  assumes inv: "parser_inv (h, w)" and b: "h_basePath h = dir path" and sz: "h_size h = sz"
    and subs: "dom (h_subs h) \<subseteq> {base path}"
    and g: "inj (\<lambda>i. joinPath [dir path, seg_segment (g i)])" and win: "window g s' n source"
    and api: "segmentSize_ok api"
  defines "v \<equiv> variant_of h (base path)"
  assumes out: "shows_stream g s0 e (v_output v)" "lp_size (v_output v) = sz" "s0 \<le> e" "e \<le> s' + n"
    and new: "new_segments api v source = map (Segment \<circ> g) [e..<s' + n]" "\<not> goes_back api v source"
  shows "\<exists>st'. feed api path source (h, w) = Inr st' \<and> following g path sz s0 (s', n) st'"
proof -
  have other: "k \<noteq> base path \<Longrightarrow> h_subs h k = None" for k using subs by (auto simp: domIff)
  have "set (listed_of h k) \<subseteq> (\<lambda>i. joinPath [h_basePath h, seg_segment (g i)]) ` {..<e}" for k
  proof (cases "k = base path")
    case True
    then have "listed_of h k = listed (h_basePath h) (lp_items (v_output v))"
      by (simp add: v_def listed_variant_of)
    then show ?thesis
      using out(1) by (auto simp: shows_stream_def drop_map listed_map)
  qed (simp add: listed_of_def other)
  then have "fresh_segments api h (base path) source"
    using fresh_stream [of h g api "base path" source] g b new(1) by (simp add: v_def)
  from processVariant_ok [OF inv b [symmetric] this] obtain pl h' w' where
    pv: "processVariant api path source (h, w) = Inr (Inr pl, h', w')" "parser_inv (h', w')"
      "h_subs h' = (h_subs h)(base path \<mapsto> next_variant api v source)"
      "h_basePath h' = h_basePath h" "h_size h' = h_size h"
    unfolding v_def by blast
  have ok: "lp_ok (v_output v)" using parser_inv_vinv [OF inv refl refl, of "base path"] by (simp add: vinv_def v_def)
  have "shows_stream g s0 (s' + n) (v_output (next_variant api v source))"
    using shows_stream_push [OF ok out(1,3,4)] new by (simp add: next_variant_def new_items_def)
  moreover have "lp_size (v_output (next_variant api v source)) = sz"
    using ok out(2) by (simp add: next_variant_def setSegmentTarget_def lp_size_fold)
  moreover have "h_subs h' = [base path \<mapsto> next_variant api v source]"
    using pv(3) other by auto
  ultimately have "following g path sz s0 (s', n) (h', w')"
    using pv b sz out(3,4) follows_next [OF api win] by (auto simp: following_def)
  with pv(1) show ?thesis by (simp add: feed_def)
qed

lemma feed_follows:
  assumes st: "following g path sz s0 (s, m) (h, w)" and api: "segmentSize_ok api"
    and g: "inj (\<lambda>i. joinPath [dir path, seg_segment (g i)])"
    and win: "window g s' n source" and on: "carries_on (s, m) (s', n)"
  shows "\<exists>st'. feed api path source (h, w) = Inr st' \<and> following g path sz s0 (s', n) st'"
proof -
  obtain v where v: "h_subs h = [base path \<mapsto> v]" "follows s m v" "lp_size (v_output v) = sz"
    "s0 \<le> s + m" "shows_stream g s0 (s + m) (v_output v)"
    and inv: "parser_inv (h, w)" and b: "h_basePath h = dir path" and sz: "h_size h = sz"
    using st by (auto simp: following_def)
  have vo: "variant_of h (base path) = v" using v(1) by (simp add: variant_of_def)
  have le: "s + m \<le> s' + n" using on by (auto simp: carries_on_def)
  then have "\<not> goes_back api v source"
    using win v(2) window_size [OF api win] by (auto simp: goes_back_def follows_def window_def)
  with new_items_carries_on [OF api win v(2) on] show ?thesis
    using feed_step [OF inv b sz _ g win api, of s0 "s + m"] v le by (simp add: vo new_items_def)
qed

lemma feed_first:
  assumes "0 < sz" "chans_wf (io_chans w)" "segmentSize_ok api"
    and "inj (\<lambda>i. joinPath [dir path, seg_segment (g i)])" and win: "window g s0 n source"
  shows "\<exists>st'. feed api path source (NewHLSParser slug (dir path) sz, w) = Inr st'
    \<and> following g path sz s0 (s0, n) st'"
proof (rule feed_step [where e = s0])
  let ?h = "NewHLSParser slug (dir path) sz" and ?v = "variant_of (NewHLSParser slug (dir path) sz) (base path)"
  have v: "follows 0 0 ?v" "v_output ?v = newLivePlaylist sz"
    by (simp_all add: variant_of_def NewHLSParser_def follows_def)
  show "\<not> goes_back api ?v source"
    using win v window_size [OF assms(3) win] by (simp add: goes_back_def follows_def window_def)
  show "new_segments api ?v source = map (Segment \<circ> g) [s0..<s0 + n]"
    unfolding new_segments_window [OF win] first_new_window [OF assms(3) win v(1)] by simp
  show "shows_stream g s0 s0 (v_output ?v)"
    unfolding v(2) by (simp add: shows_stream_def newLivePlaylist_def lp_total_segments_def)
qed (use assms parser_inv_new in \<open>auto simp: NewHLSParser_def variant_of_def newLivePlaylist_def parser_inv_new\<close>)

text \<open>Any number of further sources.\<close>

lemma feed_all:
  assumes api: "segmentSize_ok api" and g: "inj (\<lambda>i. joinPath [dir path, seg_segment (g i)])"
  shows "following g path sz s0 old st \<Longrightarrow> carries_all old wins \<Longrightarrow>
    list_all2 (\<lambda>(s, n) source. window g s n source) wins sources \<Longrightarrow>
    \<exists>st'. go_fold (feed api path) sources st = Inr st' \<and> following g path sz s0 (last (old # wins)) st'"
proof (induction wins arbitrary: old st sources)
  case Nil
  then show ?case by simp
next
  case (Cons new wins)
  then obtain source rest where src: "sources = source # rest" "window g (fst new) (snd new) source"
    "list_all2 (\<lambda>(s, n) source. window g s n source) wins rest"
    by (auto simp: list_all2_Cons1 split: prod.splits)
  have "\<exists>st'. feed api path source st = Inr st' \<and> following g path sz s0 new st'"
    using feed_follows [of g path sz s0 "fst old" "snd old" "fst st" "snd st" api "fst new" "snd new" source]
      Cons.prems src(2) api g by simp
  then obtain st' where "feed api path source st = Inr st'" "following g path sz s0 new st'" by blast
  with Cons.IH [OF this(2) _ src(3)] Cons.prems src(1) show ?case by simp
qed

section \<open>Properties\<close>


text \<open>A small playlist library for examples: every character of a file is a segment of that name.\<close>

definition demo_api :: m3u8_api where
  "demo_api = \<lparr>m3u8_Read = (\<lambda>(data, err). Inr \<lparr>pl_items = map (\<lambda>c. Segment \<lparr>seg_segment = [c], seg_duration = 3\<rparr>) data,
       pl_sequence = 0, pl_discontinuity = None, pl_target = 3, pl_version = None, pl_live = True\<rparr>),
     m3u8_Write = (\<lambda>pl. Inr ''out''), m3u8_IsMaster = (\<lambda>pl. False), m3u8_SegmentSize = (\<lambda>pl. segments_in (pl_items pl))\<rparr>"

definition demo_io :: io where
  "demo_io = \<lparr>io_chans = no_chans, io_sent = [], io_fs = Map.empty\<rparr>"

definition demo_requests :: "parse_request list" where
  "demo_requests = [(\<lambda>_. no_faults, ''/s/v'', ''a'', None), (\<lambda>_. no_faults, ''/s/v'', ''ab'', None)]"

lemma demo_paths:
  "dir ''/s/v'' = ''/s''" "base ''/s/v'' = ''v''" "joinPath [''/s'', ''a''] = ''/s/a''"
  "joinPath [''/s'', ''b''] = ''/s/b''" "joinPath [''/s'', ''/s/v''] = ''/s/s/v''"
  by code_simp+

lemmas demo_simps = demo_requests_def demo_api_def demo_io_def no_faults_def demo_paths NewHLSParser_def
  parse_step_def ParsePlaylist_def processVariant_def getVariantPlaylist_def checkDiscontinuity_def
  appendItems_def appendItem_def keepFile_def make_chan_def send_def lp_append_def newLivePlaylist_def
  setSegmentTarget_def expireFile_def close_chan_def writePlaylist_def WriteFile_def aw_open_def
  aw_write_def aw_close_def aw_finish_def no_chans_def



lemma inj_segment_paths:
  assumes "list_all plain_elem es" "\<And>i. plain_elem (seg_segment (g i))" "inj (seg_segment \<circ> g)"
  shows "inj (\<lambda>i. joinPath [abs_path es, seg_segment (g i)])"
proof (rule injI)
  fix i j
  assume "joinPath [abs_path es, seg_segment (g i)] = joinPath [abs_path es, seg_segment (g j)]"
  then have "es @ [seg_segment (g i)] = es @ [seg_segment (g j)]"
    using assms(1,2) by (intro abs_path_inject) simp_all
  then show "i = j" using assms(3) by (simp add: inj_def)
qed

definition demo_stream :: "nat \<Rightarrow> SegmentItem" where
  "demo_stream i = \<lparr>seg_segment = replicate (Suc i) CHR ''x'', seg_duration = 3\<rparr>"

definition demo_window :: "nat \<Rightarrow> nat \<Rightarrow> Playlist" where
  "demo_window s n = \<lparr>pl_items = map (Segment \<circ> demo_stream) [s..<s + n], pl_sequence = int s,
     pl_discontinuity = None, pl_target = 3, pl_version = None, pl_live = True\<rparr>"

lemma demo_window [simp]: "window demo_stream s n (demo_window s n)"
  by (simp add: window_def demo_window_def)

lemma demo_api_size [simp]: "segmentSize_ok demo_api"
  by (simp add: segmentSize_ok_def demo_api_def)

lemma demo_stream_paths: "inj (\<lambda>i. joinPath [dir ''/s/v'', seg_segment (demo_stream i)])"
proof -
  have "dir ''/s/v'' = abs_path [''s'']" by (simp add: demo_paths abs_path_def)
  moreover have "replicate i CHR ''x'' = replicate j CHR ''x'' \<Longrightarrow> i = j" for i j
    by (metis length_replicate)
  ultimately show ?thesis
    using inj_segment_paths [of "[''s'']" demo_stream]
    by (auto simp: plain_elem_def demo_stream_def inj_def)
qed



definition demo_variant :: "nat \<Rightarrow> nat \<Rightarrow> VariantPlaylist" where
  "demo_variant s n = \<lparr>v_name = ''v'', v_lastIndex = int n, v_lastSize = int n, v_lastSequence = int s,
     v_output = newLivePlaylist 10\<rparr>"


end
