(* ===== verification/HlsService.thy ===== *)
theory HlsService
  imports HlsCorrect
begin

text \<open>
  More of the playlist parser of theory \<open>Hls\<close>: the end of its life (\<open>Cleanup\<close>), and the
  master playlists per language that \<open>ParsePlaylist\<close> writes beside the one it was given.
\<close>

section \<open>Restarts\<close>



section \<open>Cleanup\<close>

text \<open>C16. \<open>Cleanup\<close> of a parser in use closes every channel it holds, each once, and no other, in
  whatever order the map is iterated, so every file it kept may expire. It leaves the map nil: a
  request that is still under way and keeps another file then panics.\<close>

theorem Cleanup_releases:
  assumes "parser_inv (h, w)" "h_files h = Some m" "range_order m order"
  shows "\<exists>w'. HLSParser_Cleanup order (h, w) = Inr (h\<lparr>h_files := None\<rparr>, w')
    \<and> closed (io_chans w') = closed (io_chans w) \<union> ran m
    \<and> io_sent w' = io_sent w \<and> io_fs w' = io_fs w
    \<and> keepFile name (h\<lparr>h_files := None\<rparr>, w') = Inl NilMapWrite"
proof -
  have ok: "files_ok w m" using assms(1,2) by (auto simp: parser_inv_def)
  have ro: "distinct order" "set order = dom m" using assms(3) by (simp_all add: range_order_def)
  have "inj_on m (set order)"
    using ok ro(2) unfolding files_ok_def inj_on_def by (metis domD)
  then have "distinct (map m order)" using ro(1) by (simp add: distinct_map)
  moreover have "\<forall>p \<in> set order. \<exists>c. m p = Some c \<and> open_chan (io_chans w) c"
    using ok ro(2) by (auto simp: files_ok_def)
  moreover have "{c. \<exists>p \<in> set order. m p = Some c} = ran m"
    using ro(2) by (auto simp: ran_def)
  ultimately show ?thesis
    using close_each [of m order "io_chans w"] assms(2)
    by (simp add: HLSParser_Cleanup_def keepFile_def make_chan_def)
qed

theorem Cleanup_releases_witness:
  "\<exists>w'. HLSParser_Cleanup [''/s/a'', ''/s/b''] ((NewHLSParser ''s'' ''/s'' 2)\<lparr>h_files := Some [''/s/a'' \<mapsto> 0, ''/s/b'' \<mapsto> 1]\<rparr>,
      \<lparr>io_chans = \<lparr>next_chan = 2, closed = {}\<rparr>, io_sent = [KeepFile ''/s/a'' 0, KeepFile ''/s/b'' 1], io_fs = Map.empty\<rparr>)
     = Inr ((NewHLSParser ''s'' ''/s'' 2)\<lparr>h_files := None\<rparr>, w') \<and> closed (io_chans w') = {0, 1}"
proof -
  let ?h = "(NewHLSParser ''s'' ''/s'' 2)\<lparr>h_files := Some [''/s/a'' \<mapsto> 0, ''/s/b'' \<mapsto> 1]\<rparr>"
  let ?w = "\<lparr>io_chans = \<lparr>next_chan = 2, closed = {}\<rparr>,
    io_sent = [KeepFile ''/s/a'' 0, KeepFile ''/s/b'' 1], io_fs = Map.empty\<rparr>"
  have "parser_inv (?h, ?w)"
    by (auto simp: parser_inv_def NewHLSParser_def listed_of_def files_ok_def chans_wf_def open_chan_def
        KeepFile_def split: if_splits)
  moreover have "range_order [''/s/a'' \<mapsto> 0, ''/s/b'' \<mapsto> (1::nat)] [''/s/a'', ''/s/b'']"
    by (auto simp: range_order_def)
  ultimately obtain w' where
    "HLSParser_Cleanup [''/s/a'', ''/s/b''] (?h, ?w) = Inr (?h\<lparr>h_files := None\<rparr>, w')"
    "closed (io_chans w') = ran [''/s/a'' \<mapsto> 0, ''/s/b'' \<mapsto> 1]"
    using Cleanup_releases [of ?h ?w "[''/s/a'' \<mapsto> 0, ''/s/b'' \<mapsto> 1]" "[''/s/a'', ''/s/b'']" "''x''"] by auto
  then show ?thesis by auto
qed

section \<open>Language masters\<close>

lemma writePlaylist_no_faults:
  assumes "parser_inv (h, w)" "m3u8_Write api pl = Inr str"
  shows "\<exists>h' w'. writePlaylist api (\<lambda>_. no_faults) path pl (h, w) = Inr (None, h', w') \<and> parser_inv (h', w')
    \<and> io_fs w' = (io_fs w)(path \<mapsto> str, tmpPath path := None)"
proof -
  let ?w = "w\<lparr>io_fs := (io_fs w)(path \<mapsto> str, tmpPath path := None)\<rparr>"
  from keepFile_parser_inv [of h ?w path] assms(1) obtain h' w' where
    "keepFile path (h, ?w) = Inr (h', w')" "parser_inv (h', w')" "io_fs w' = io_fs ?w"
    by auto
  then show ?thesis
    using assms(2) by (simp add: writePlaylist_def WriteFile_no_faults Let_def)
qed

lemma setDefault_setDefault [simp]: "setDefault l (setDefault l' i) = setDefault l i"
  by (cases i) (auto split: option.splits)

lemma setDefaultLanguage_twice [simp]: "setDefaultLanguage l (setDefaultLanguage l' p) = setDefaultLanguage l p"
  by (simp add: setDefaultLanguage_def)

definition masterPath :: "string \<Rightarrow> string \<Rightarrow> string \<Rightarrow> string" where
  "masterPath d sfx lang = joinPath [d, languageMasterName lang sfx]"

text \<open>Distinct languages have distinct files, and no file is the temporary file of another.\<close>

definition masters_apart :: "string \<Rightarrow> string \<Rightarrow> string list \<Rightarrow> bool" where
  "masters_apart d sfx langs \<longleftrightarrow>
     (\<forall>l \<in> set langs. \<forall>k \<in> set langs. masterPath d sfx l \<noteq> tmpPath (masterPath d sfx k)
        \<and> (masterPath d sfx l = masterPath d sfx k \<longrightarrow> l = k))"

lemma languageMasters_written:
  assumes "parser_inv (h, w)" "\<And>p. m3u8_Write api p = Inr (render p)" "masters_apart d sfx langs"
  shows "\<exists>pl' h' w'. languageMasters api (\<lambda>_. no_faults) d sfx langs pl (h, w) = Inr (None, pl', h', w')
    \<and> (\<forall>l \<in> set langs. languageMasterName l sfx \<noteq> ''native_hd.m3u8'' \<longrightarrow>
          io_fs w' (masterPath d sfx l) = Some (render (setDefaultLanguage l pl)))
    \<and> (\<forall>p. (\<forall>l \<in> set langs. p \<noteq> masterPath d sfx l \<and> p \<noteq> tmpPath (masterPath d sfx l)) \<longrightarrow> io_fs w' p = io_fs w p)"
  using assms(1,3)
proof (induction langs arbitrary: pl h w)
  case Nil
  then show ?case by simp
next
  case (Cons lang langs)
  have apart: "masters_apart d sfx langs" using Cons.prems(2) by (auto simp: masters_apart_def)
  show ?case
  proof (cases "languageMasterName lang sfx = ''native_hd.m3u8''")
    case True
    from Cons.IH [OF Cons.prems(1) apart, of pl] True show ?thesis by (simp add: Let_def) blast
  next
    case False
    let ?P = "masterPath d sfx lang" and ?pl = "setDefaultLanguage lang pl"
    from writePlaylist_no_faults [OF Cons.prems(1) assms(2), of ?P ?pl] obtain h1 w1 where
      w: "writePlaylist api (\<lambda>_. no_faults) ?P ?pl (h, w) = Inr (None, h1, w1)" "parser_inv (h1, w1)"
        "io_fs w1 = (io_fs w)(?P \<mapsto> render ?pl, tmpPath ?P := None)"
      by blast
    from Cons.IH [OF w(2) apart, of ?pl] obtain pl' h' w' where
      IH: "languageMasters api (\<lambda>_. no_faults) d sfx langs ?pl (h1, w1) = Inr (None, pl', h', w')"
        "\<forall>l \<in> set langs. languageMasterName l sfx \<noteq> ''native_hd.m3u8'' \<longrightarrow>
          io_fs w' (masterPath d sfx l) = Some (render (setDefaultLanguage l pl))"
        "\<forall>p. (\<forall>l \<in> set langs. p \<noteq> masterPath d sfx l \<and> p \<noteq> tmpPath (masterPath d sfx l)) \<longrightarrow> io_fs w' p = io_fs w1 p"
      by auto
    have "io_fs w' ?P = Some (render ?pl)"
    proof (cases "lang \<in> set langs")
      case True
      with IH(2) False show ?thesis by blast
    next
      case False
      have "?P \<noteq> masterPath d sfx l \<and> ?P \<noteq> tmpPath (masterPath d sfx l)" if "l \<in> set langs" for l
        using Cons.prems(2) that False unfolding masters_apart_def by (metis list.set_intros)
      with IH(3) w(3) show ?thesis by simp
    qed
    moreover have "languageMasters api (\<lambda>_. no_faults) d sfx (lang # langs) pl (h, w) = Inr (None, pl', h', w')"
      using False w(1) IH(1) by (simp add: masterPath_def Let_def)
    ultimately show ?thesis
      using IH(2,3) w(3) by auto
  qed
qed

text \<open>The paths are apart when names and directory are plain and languages differ not only in case.\<close>

lemma masters_apart_plain:
  assumes "list_all plain_elem es" "\<And>l. l \<in> set langs \<Longrightarrow> plain_elem (languageMasterName l sfx)"
    and "inj_on toLower (set langs)"
  shows "masters_apart (abs_path es) sfx langs"
proof -
  let ?n = "\<lambda>l. languageMasterName l sfx"
  have path: "masterPath (abs_path es) sfx l = abs_path (es @ [?n l])" if "l \<in> set langs" for l
    using assms(1,2) that by (simp add: masterPath_def)
  have eight: "last (abs_path (es @ [?n l])) = CHR ''8''" for l
    using join_append [of es "[?n l]" slash]
    by (cases "es = []") (simp_all add: languageMasterName_def abs_path_def)
  have "abs_path (es @ [?n l]) \<noteq> tmpPath q" for l q
  proof
    assume "abs_path (es @ [?n l]) = tmpPath q"
    then have "last (abs_path (es @ [?n l])) = CHR ''p''" by (simp add: tmpPath_def)
    with eight [of l] show False by simp
  qed
  moreover have "l = k" if "l \<in> set langs" "k \<in> set langs" "abs_path (es @ [?n l]) = abs_path (es @ [?n k])" for l k
  proof -
    have "es @ [?n l] = es @ [?n k]"
      using assms(1,2) that by (intro abs_path_inject) simp_all
    then have "toLower l = toLower k" by (simp add: languageMasterName_def)
    then show ?thesis using assms(3) that(1,2) by (simp add: inj_on_def)
  qed
  ultimately show ?thesis
    unfolding masters_apart_def using path by simp
qed


definition demo_master :: Playlist where
  "demo_master = \<lparr>pl_items = [
      Media \<lparr>mi_type = ''AUDIO'', mi_group = ''a'', mi_language = Some ''Native'', mi_default = Some True, mi_uri = None\<rparr>,
      Media \<lparr>mi_type = ''AUDIO'', mi_group = ''a'', mi_language = Some ''Eng'', mi_default = Some False, mi_uri = None\<rparr>],
     pl_sequence = 0, pl_discontinuity = None, pl_target = 0, pl_version = None, pl_live = False\<rparr>"


lemma clean_step_dotdot: "plain_elem t \<Longrightarrow> clean_step True (t # ts) ''..'' = ts"
  unfolding clean_step_def plain_elem_def by simp

text \<open>The language of a track decides where its master playlist is written, and it is not checked: a
  language that begins with \<open>../\<close> leaves the directory of the stream, so whoever may upload one
  stream can place master playlists in the directory above.\<close>

lemma language_master_escapes:
  assumes "parser_inv (h, w)" "\<And>p. m3u8_Write api p = Inr (render p)"
    and "dir path = abs_path (es @ [e])" "list_all plain_elem es" "plain_elem e"
    and "getLanguages pl = [''../'' @ lang]" "plain_elem (languageMasterName lang ''sd'')"
  shows "\<exists>pl' h' w'. generateLanguageMasters api (\<lambda>_. no_faults) path ''sd'' pl (h, w) = Inr (None, pl', h', w')
    \<and> io_fs w' (abs_path (es @ [languageMasterName lang ''sd''])) = Some (render (setDefaultLanguage (''../'' @ lang) pl))"
proof -
  let ?n = "languageMasterName lang ''sd''"
  have low: "toLower ''../'' = ''../''" by code_simp
  have name: "languageMasterName (''../'' @ lang) ''sd'' = ''..'' @ slash # ?n"
    using low by (simp add: languageMasterName_def toLower_def)
  have "split slash (''..'' @ slash # ?n) = [''..'', ?n]"
    using assms(7) by (simp add: split_append)
  then have path: "masterPath (abs_path (es @ [e])) ''sd'' (''../'' @ lang) = abs_path (es @ [?n])"
    unfolding masterPath_def name using assms(4,5,7) by (simp add: joinPath_abs clean_step_dotdot)
  have "masters_apart (abs_path (es @ [e])) ''sd'' (getLanguages pl)"
    by (simp add: masters_apart_def assms(6))
  from languageMasters_written [OF assms(1,2) this, of pl] show ?thesis
    unfolding generateLanguageMasters_def assms(3) assms(6) using path name by auto
qed

text \<open>The playlist files themselves are not protected by the parser: \<open>writePlaylist\<close> hands the
  full path to \<open>keepFile\<close>, which joins it to the base path once more, so the registry is asked to
  keep a path that does not exist, and the playlist's own entry stays as it was.\<close>

lemma writePlaylist_keeps_wrong_path:
  assumes "h_files h = Some m" "m3u8_Write api pl = Inr str" "list_all plain_elem es" "es \<noteq> []" "plain_elem name"
    and "h_basePath h = abs_path es"
  shows "\<exists>h' w' c. writePlaylist api (\<lambda>_. no_faults) (abs_path (es @ [name])) pl (h, w) = Inr (None, h', w')
    \<and> io_fs w' (abs_path (es @ [name])) = Some str
    \<and> io_sent w' = io_sent w @ [KeepFile (abs_path (es @ es @ [name])) c]
    \<and> abs_path (es @ es @ [name]) \<noteq> abs_path (es @ [name])
    \<and> last_keep (io_sent w') (abs_path (es @ [name])) = last_keep (io_sent w) (abs_path (es @ [name]))"
proof -
  have join: "joinPath [abs_path es, abs_path (es @ [name])] = abs_path (es @ es @ [name])"
    using assms(3,5) by (intro joinPath_abs_abs) simp_all
  have "abs_path (es @ es @ [name]) \<noteq> abs_path (es @ [name])"
    using abs_path_inject [of "es @ es @ [name]" "es @ [name]"] assms(3-5) by auto
  then show ?thesis
    using assms(1,2,6) join
    by (simp add: writePlaylist_def WriteFile_no_faults keepFile_def make_chan_def send_def last_keep_snoc
        KeepFile_def Let_def)
qed

end
