(* ===== verification/System.thy ===== *)
theory System
  imports HlsCorrect
begin

text \<open>
  What the playlist parser and the file registry need of each other. The parser, and uploads of segments, put entries into the
  registry's queue (\<open>io_sent\<close>); the registry goroutine takes them out one at a time and ticks in between, at any
  pace. The invariant \<open>honoured\<close> says that what the registry has taken out so far is honoured: it survives whatever only adds
  entries and channels (\<open>extends_io\<close>), as parsing does, and a tick removes no path that is honoured.

  The locale \<open>parser_effect\<close> has one induction through the parser for any relation between the worlds before and after;
  theory \<open>ServerRun\<close> uses it again. There the server as a whole is composed.
\<close>

section \<open>What an operation may do to the world\<close>

definition log_ok :: "io \<Rightarrow> bool" where
  "log_ok w \<longleftrightarrow> (\<forall>e \<in> set (io_sent w). \<forall>c. fe_keep e = Some c \<longrightarrow> c < next_chan (io_chans w))"

text \<open>Entries are only appended, channels only made and closed.\<close>

definition extends_io :: "io \<Rightarrow> io \<Rightarrow> bool" where
  "extends_io w w' \<longleftrightarrow> (\<exists>new. io_sent w' = io_sent w @ new) \<and> closed (io_chans w) \<subseteq> closed (io_chans w')
     \<and> next_chan (io_chans w) \<le> next_chan (io_chans w') \<and> (log_ok w \<longrightarrow> log_ok w')"

lemma extends_io_refl [simp]: "extends_io w w"
  by (simp add: extends_io_def)

lemma extends_io_trans: "extends_io w w' \<Longrightarrow> extends_io w' w'' \<Longrightarrow> extends_io w w''"
  unfolding extends_io_def by (metis (no_types, lifting) append_assoc order_trans)

lemma extends_io_fs [simp]: "extends_io w (w'\<lparr>io_fs := s\<rparr>) = extends_io w w'" "extends_io (w\<lparr>io_fs := s\<rparr>) w' = extends_io w w'"
  by (simp_all add: extends_io_def log_ok_def)

text \<open>Something that holds of keeping and expiring a file, and does not look at metrics, variants and the file system,
  holds of parsing a playlist.\<close>

locale parser_effect =
  fixes R :: "HLSParser \<times> io \<Rightarrow> HLSParser \<times> io \<Rightarrow> bool"
  assumes R_refl: "R st st"
    and R_trans: "R st st' \<Longrightarrow> R st' st'' \<Longrightarrow> R st st''"
    and keepFile_R: "keepFile name st = Inr st' \<Longrightarrow> R st st'"
    and expireFile_R: "expireFile name st = Inr st' \<Longrightarrow> R st st'"
    and metrics_R: "R (h, w) (h\<lparr>h_metrics := x\<rparr>, w)"
    and subs_R: "R (h, w) (h\<lparr>h_subs := y\<rparr>, w)"
    and fs_R: "R (h, w) (h, w\<lparr>io_fs := z\<rparr>)"
begin

lemma expireDeleted_R: "expireDeleted d st = Inr st' \<Longrightarrow> R st st'"
  by (cases "(d, st)" rule: expireDeleted.cases) (auto simp: R_refl dest: expireFile_R)

lemma checkDiscontinuity_R:
  assumes "checkDiscontinuity api pl (v, st) = Inr (v', st')"
  shows "R st st'"
proof -
  obtain h w where st: "st = (h, w)" by force
  from assms show ?thesis
    by (auto simp: st checkDiscontinuity_def Let_def go_bind_Inr_iff R_refl split: if_splits dest!: expireDeleted_R)
qed

lemma appendItem_R:
  assumes "appendItem i it (v, st) = Inr (v', st')"
  shows "R st st'"
proof -
  obtain h w where st: "st = (h, w)" by force
  from assms show ?thesis
    by (auto simp: st appendItem_def Let_def go_bind_Inr_iff R_refl split: item.splits if_splits
        dest!: keepFile_R expireDeleted_R intro: R_trans [OF metrics_R R_trans])
qed

lemma appendLoop_R: "appendLoop i is (v, st) = Inr (v', st') \<Longrightarrow> R st st'"
proof (induction "is" arbitrary: i v st)
  case Nil
  then show ?case by (simp add: R_refl)
next
  case (Cons it "is")
  then obtain v1 st1 where "appendItem i it (v, st) = Inr (v1, st1)" "appendLoop (i + 1) is (v1, st1) = Inr (v', st')"
    by (auto simp: go_bind_Inr_iff)
  with Cons.IH show ?case by (blast dest: appendItem_R intro: R_trans)
qed

lemma appendItems_R: "appendItems pl (v, st) = Inr (v', st') \<Longrightarrow> R st st'"
  by (auto simp: appendItems_def go_bind_Inr_iff dest!: appendLoop_R)

lemma getVariantPlaylist_R: "getVariantPlaylist path h = Inr (v, h') \<Longrightarrow> R (h, w) (h', w)"
  by (auto simp: getVariantPlaylist_def Let_def R_refl intro: subs_R split: if_splits option.splits)

lemma processVariant_R:
  assumes "processVariant api path pl st = Inr (r, st')"
  shows "R st st'"
proof -
  obtain h w where st: "st = (h, w)" by force
  show ?thesis
  proof (cases "getVariantPlaylist path h")
    case (Inl e)
    with assms show ?thesis by (simp add: st processVariant_def R_refl)
  next
    case (Inr vh)
    obtain v h0 where vh: "vh = (v, h0)" by force
    define h1 where "h1 = h0\<lparr>h_metrics := RecordTargetDuration (pl_target pl) (base path) (h_metrics h0)\<rparr>"
    from assms Inr obtain v2 h2 w2 v3 h3 w3 x where
      steps: "checkDiscontinuity api pl (v, h1, w) = Inr (v2, h2, w2)" "appendItems pl (v2, h2, w2) = Inr (v3, h3, w3)"
      "st' = (h3\<lparr>h_subs := x\<rparr>, w3)"
      by (auto simp: st vh processVariant_def h1_def Let_def go_bind_Inr_iff)
    have "R (h, w) (h1, w)" using R_trans [OF getVariantPlaylist_R metrics_R] Inr by (simp add: vh h1_def)
    also note [trans] = R_trans
    have "R (h1, w) (h2, w2)" using steps(1) by (rule checkDiscontinuity_R)
    also have "R (h2, w2) (h3, w3)" using steps(2) by (rule appendItems_R)
    also have "R (h3, w3) st'" unfolding steps(3) by (rule subs_R)
    finally show ?thesis by (simp only: st)
  qed
qed

lemma writePlaylist_R:
  assumes "writePlaylist api flt path pl st = Inr (e, st')"
  shows "R st st'"
proof -
  obtain h w where st: "st = (h, w)" by force
  from assms show ?thesis
    by (auto simp: st writePlaylist_def Let_def go_bind_Inr_iff R_refl fs_R split: sum.splits option.splits
        intro: R_trans [OF fs_R keepFile_R])
qed

lemma languageMasters_R: "languageMasters api flt d sfx langs pl st = Inr (e, pl', st') \<Longrightarrow> R st st'"
proof (induction langs arbitrary: pl st)
  case Nil
  then show ?case by (cases st) (simp add: R_refl)
next
  case (Cons lang langs)
  then show ?case
    by (cases st) (auto simp: Let_def go_bind_Inr_iff split: if_splits option.splits dest!: writePlaylist_R intro: R_trans)
qed

lemma generateLanguageMasters_R: "generateLanguageMasters api flt path sfx pl st = Inr (e, pl', st') \<Longrightarrow> R st st'"
  unfolding generateLanguageMasters_def by (rule languageMasters_R)

lemma parseMaster_R:
  assumes "parseMaster api flt path pl st = Inr (e, st')"
  shows "R st st'"
proof -
  let ?p1 = "fixupCodecInformation pl"
  obtain e1 st1 where 1: "writePlaylist api flt path ?p1 st = Inr (e1, st1)"
    using assms by (auto simp: parseMaster_def Let_def go_bind_Inr_iff)
  then have r1: "R st st1" by (rule writePlaylist_R)
  show ?thesis
  proof (cases "e1 = None")
    case False
    with assms 1 r1 show ?thesis by (cases st1) (auto simp: parseMaster_def Let_def)
  next
    case True
    obtain e2 p2 st2 where 2: "generateLanguageMasters api flt path ''hd'' ?p1 st1 = Inr (e2, p2, st2)"
      using assms 1 True by (cases st1) (auto simp: parseMaster_def Let_def go_bind_Inr_iff)
    then have r2: "R st st2" using r1 by (blast dest: generateLanguageMasters_R intro: R_trans)
    obtain p3 r where 3: "filterHDResolutions p2 = (p3, r)" by force
    show ?thesis
    proof (cases "e2 = None \<and> r")
      case False
      with assms 1 2 3 True r2 show ?thesis by (cases st1; cases st2) (auto simp: parseMaster_def Let_def split: if_splits)
    next
      case all: True
      obtain e4 p4 st4 where "generateLanguageMasters api flt path ''sd'' p3 st2 = Inr (e4, p4, st4)" "st' = st4"
        using assms 1 2 3 True all by (cases st1; cases st2) (auto simp: parseMaster_def Let_def go_bind_Inr_iff)
      with r2 show ?thesis by (blast dest: generateLanguageMasters_R intro: R_trans)
    qed
  qed
qed

lemma ParsePlaylist_R:
  assumes "ParsePlaylist api flt path src st = Inr (e, st')"
  shows "R st st'"
proof (cases "m3u8_Read api src")
  case (Inr pl)
  show ?thesis
  proof (cases "m3u8_IsMaster api pl")
    case True
    with assms Inr show ?thesis by (auto simp: ParsePlaylist_def dest: parseMaster_R)
  next
    case False
    obtain r st1 where pv: "processVariant api path pl st = Inr (r, st1)"
      using assms Inr False by (auto simp: ParsePlaylist_def go_bind_Inr_iff)
    then have "R st st1" by (rule processVariant_R)
    with assms Inr False pv show ?thesis
      by (cases r; cases st1) (auto simp: ParsePlaylist_def dest!: writePlaylist_R intro: R_trans)
  qed
qed (use assms in \<open>simp add: ParsePlaylist_def R_refl\<close>)

end

interpretation ext: parser_effect "\<lambda>st st'. extends_io (snd st) (snd st')"
proof
  fix name st st'
  show "extends_io (snd st) (snd st')" if "keepFile name st = Inr st'"
    using that by (cases st; cases st') (auto simp: keepFile_def make_chan_def extends_io_def send_def log_ok_def KeepFile_def Let_def
        less_Suc_eq split: option.splits)
  show "extends_io (snd st) (snd st')" if "expireFile name st = Inr st'"
    using that by (cases st; cases st') (auto simp: expireFile_def close_chan_def extends_io_def log_ok_def Let_def go_bind_Inr_iff
        split: option.splits if_splits)
qed (simp_all add: extends_io_trans)

lemma ParsePlaylist_ext: "ParsePlaylist api flt path src (h, w) = Inr (e, h', w') \<Longrightarrow> extends_io w w'"
  using ext.ParsePlaylist_R [of api flt path src "(h, w)" e "(h', w')"] by simp

section \<open>Interleavings\<close>

record system =
  sys_parser :: HLSParser
  sys_io :: io
  sys_taken :: nat
  sys_reg :: FileRegistry

text \<open>The registry holds every path whose last request it has taken, while the channel is open.\<close>

definition honoured :: "system \<Rightarrow> bool" where
  "honoured s \<longleftrightarrow> (\<forall>p c. last_keep (take (sys_taken s) (io_sent (sys_io s))) p = Some c \<longrightarrow>
     open_chan (io_chans (sys_io s)) c \<longrightarrow> registry_holds (sys_reg s) p c)"

definition sys_inv :: "system \<Rightarrow> bool" where
  "sys_inv s \<longleftrightarrow> parser_inv (sys_parser s, sys_io s) \<and> log_ok (sys_io s)
     \<and> sys_taken s \<le> length (io_sent (sys_io s)) \<and> honoured s"

lemma last_keep_in: "last_keep es p = Some c \<Longrightarrow> \<exists>e \<in> set es. fe_keep e = Some c"
  by (induction es) (auto split: option.splits if_splits)

lemma last_keep_append:
  "last_keep (xs @ ys) p = (case last_keep ys p of None \<Rightarrow> last_keep xs p | Some c \<Rightarrow> Some c)"
  by (induction xs) (auto split: option.splits)

text \<open>A world that only grew keeps honoured what was honoured.\<close>

lemma honoured_ext:
  assumes "honoured s" "extends_io (sys_io s) w'" "log_ok (sys_io s)" "sys_taken s \<le> length (io_sent (sys_io s))"
  shows "honoured (s\<lparr>sys_parser := h', sys_io := w'\<rparr>)"
proof -
  obtain new where new: "io_sent w' = io_sent (sys_io s) @ new" using assms(2) by (auto simp: extends_io_def)
  have "open_chan (io_chans (sys_io s)) c"
    if k: "last_keep (take (sys_taken s) (io_sent (sys_io s))) p = Some c" and op: "open_chan (io_chans w') c" for p c
  proof -
    obtain e where "e \<in> set (io_sent (sys_io s))" "fe_keep e = Some c"
      using last_keep_in [OF k] by (meson in_set_takeD)
    then have "c < next_chan (io_chans (sys_io s))" using assms(3) by (auto simp: log_ok_def)
    with op assms(2) show ?thesis by (auto simp: open_chan_def extends_io_def)
  qed
  with assms(1,4) show ?thesis by (auto simp: honoured_def new)
qed

lemma honoured_take:
  assumes "honoured s" "sys_taken s < length (io_sent (sys_io s))"
  defines "e \<equiv> io_sent (sys_io s) ! sys_taken s"
  shows "honoured (s\<lparr>sys_taken := Suc (sys_taken s), sys_reg := registry_add e (sys_reg s)\<rparr>)"
proof -
  have snoc: "take (Suc (sys_taken s)) (io_sent (sys_io s)) = take (sys_taken s) (io_sent (sys_io s)) @ [e]"
    using assms(2) by (simp add: e_def take_Suc_conv_app_nth)
  have "registry_holds (registry_add e (sys_reg s)) p c"
    if "last_keep (take (sys_taken s) (io_sent (sys_io s)) @ [e]) p = Some c" "open_chan (io_chans (sys_io s)) c" for p c
    using assms(1) that
    by (fastforce simp: honoured_def last_keep_snoc registry_holds_def registry_add_files split: if_splits)
  then show ?thesis by (simp add: honoured_def snoc)
qed

lemma sys_tick:
  assumes "sys_inv s" "range_order (fr_files (sys_reg s)) order"
    and "registry_step (sys_reg s) (RegTick (io_chans (sys_io s)) now clk order) = (rm, reply, r')"
  shows "honoured (s\<lparr>sys_reg := r'\<rparr>)"
    and "last_keep (take (sys_taken s) (io_sent (sys_io s))) p = Some c \<Longrightarrow> open_chan (io_chans (sys_io s)) c \<Longrightarrow> p \<notin> set rm"
proof -
  let ?t = "(io_chans (sys_io s), now, clk)"
  have keep: "registry_holds r' p c \<and> p \<notin> set rm"
    if "last_keep (take (sys_taken s) (io_sent (sys_io s))) p = Some c" "open_chan (io_chans (sys_io s)) c" for p c
  proof -
    have "registry_holds (sys_reg s) p c" using assms(1) that by (simp add: sys_inv_def honoured_def)
    moreover have "c \<notin> closed (io_chans (sys_io s))" using that(2) by (simp add: open_chan_def)
    ultimately show ?thesis
      using reg.holds_tick [of "sys_reg s" p c ?t] reg.removed_tick [of "sys_reg s" p c ?t]
        registry_step_tick [OF assms(2,3)] by auto
  qed
  then show "honoured (s\<lparr>sys_reg := r'\<rparr>)" by (simp add: honoured_def)
  show "last_keep (take (sys_taken s) (io_sent (sys_io s))) p = Some c \<Longrightarrow> open_chan (io_chans (sys_io s)) c \<Longrightarrow> p \<notin> set rm"
    using keep by blast
qed

lemma register_ext: "extends_io w (send (RegisterFile p due) w)"
  by (auto simp: extends_io_def send_def log_ok_def RegisterFile_def)

end
