(* ===== verification/StreamStore.thy ===== *)
theory StreamStore
  imports Interfaces Hls
begin

text \<open>
  \<open>src/upload/stream.go\<close> and \<open>src/upload/stream_store.go\<close>: the streams being uploaded.
  A stream belongs to the origin that sends it, runs down at every tick of the store and is
  removed when no upload renewed it; its end closes the channel \<open>alive\<close> that protects its
  files and the channels of its playlist parser.

  The mutex of the store makes every operation one step. Iteration orders over the maps of
  streams, of parsers and of a parser's files are arguments.
\<close>

section \<open>Streams\<close>

datatype ParserType = ParserTypeHLS

record Stream =
  st_slug :: string
  st_timeout :: duration
  st_originTimeout :: duration
  st_ttl :: duration
  st_origin :: string
  st_originUpdated :: time
  st_alive :: nat
  st_parsers :: "ParserType \<rightharpoonup> HLSParser"

datatype stream_error = ErrInvalidOrigin

definition NewStream :: "string \<Rightarrow> duration \<Rightarrow> duration \<Rightarrow> chans \<Rightarrow> Stream \<times> chans" where
  "NewStream slug timeout originTimeout ch =
     (case make_chan ch of (alive, ch') \<Rightarrow>
        (\<lparr>st_slug = slug, st_timeout = timeout, st_originTimeout = originTimeout, st_ttl = timeout,
          st_origin = '''', st_originUpdated = 0, st_alive = alive, st_parsers = Map.empty\<rparr>, ch'))"

definition Stream_Update :: "string \<Rightarrow> time \<Rightarrow> Stream \<Rightarrow> stream_error option \<times> Stream" where
  "Stream_Update origin now s =
     (if origin \<noteq> st_origin s \<and> st_originUpdated s + st_originTimeout s > now
      then (Some ErrInvalidOrigin, s)
      else (None, s\<lparr>st_origin := origin, st_originUpdated := now, st_ttl := st_timeout s\<rparr>))"

definition Age :: "duration \<Rightarrow> Stream \<Rightarrow> bool \<times> Stream" where
  "Age d s = (let s' = s\<lparr>st_ttl := st_ttl s - d\<rparr> in (st_ttl s' \<le> 0, s'))"

text \<open>An order of the parsers and one of the files of each parser.\<close>

type_synonym cleanup_order = "ParserType list \<times> string list"

definition Stream_Cleanup :: "cleanup_order \<Rightarrow> Stream \<times> io \<Rightarrow> (Stream \<times> io) go" where
  "Stream_Cleanup ord st =
     (case st of (s, w) \<Rightarrow>
        go_bind (close_chan (st_alive s) (io_chans w)) (\<lambda>ch.
        go_fold (\<lambda>k (s, w).
            case st_parsers s k of
              None \<Rightarrow> Inr (s, w)
            | Some parser \<Rightarrow> go_bind (HLSParser_Cleanup (snd ord) (parser, w)) (\<lambda>(parser', w').
                Inr (s\<lparr>st_parsers := (st_parsers s)(k := None)\<rparr>, w')))
          (fst ord) (s, w\<lparr>io_chans := ch\<rparr>)))"

definition GetHLSParser :: "string \<Rightarrow> string \<Rightarrow> int \<Rightarrow> Stream \<Rightarrow> HLSParser \<times> Stream" where
  "GetHLSParser slug basePath sz s =
     (case st_parsers s ParserTypeHLS of
        Some parser \<Rightarrow> (parser, s)
      | None \<Rightarrow>
          let parser = NewHLSParser slug basePath sz
          in (parser, s\<lparr>st_parsers := (st_parsers s)(ParserTypeHLS \<mapsto> parser)\<rparr>))"

section \<open>The store\<close>

definition DefaultStreamTimeout :: duration where
  "DefaultStreamTimeout = 10 * second"

definition DefaultStreamExpireInterval :: duration where
  "DefaultStreamExpireInterval = 2 * second"

definition DefaultStreamOriginDuration :: duration where
  "DefaultStreamOriginDuration = 6 * second"

record StreamStoreConfig =
  StreamTimeout :: duration
  StreamExpireInterval :: duration
  StreamOriginDuration :: duration

record StreamStore =
  ss_config :: StreamStoreConfig
  ss_data :: "string \<rightharpoonup> Stream"

definition NewStreamStore :: "StreamStoreConfig \<Rightarrow> StreamStore" where
  "NewStreamStore config =
     (let c1 = (if StreamTimeout config = 0 then config\<lparr>StreamTimeout := DefaultStreamTimeout\<rparr> else config);
          c2 = (if StreamExpireInterval c1 = 0 then c1\<lparr>StreamExpireInterval := DefaultStreamExpireInterval\<rparr> else c1);
          c3 = (if StreamOriginDuration c2 = 0 then c2\<lparr>StreamOriginDuration := DefaultStreamOriginDuration\<rparr> else c2)
      in \<lparr>ss_config = c3, ss_data = Map.empty\<rparr>)"

definition removeStream :: "cleanup_order \<Rightarrow> string \<Rightarrow> StreamStore \<times> io \<Rightarrow> (StreamStore \<times> io) go" where
  "removeStream ord slug st =
     (case st of (store, w) \<Rightarrow>
        case ss_data store slug of
          None \<Rightarrow> Inr (store, w)
        | Some stream \<Rightarrow> go_bind (Stream_Cleanup ord (stream, w)) (\<lambda>(stream', w').
            Inr (store\<lparr>ss_data := (ss_data store)(slug := None)\<rparr>, w')))"

text \<open>The body of the loop of \<open>timeout\<close>; a key removed meanwhile is not visited.\<close>

definition timeoutStream :: "(string \<Rightarrow> cleanup_order) \<Rightarrow> string \<Rightarrow> StreamStore \<times> io \<Rightarrow> (StreamStore \<times> io) go" where
  "timeoutStream ords slug st =
     (case st of (store, w) \<Rightarrow>
        case ss_data store slug of
          None \<Rightarrow> Inr (store, w)
        | Some stream \<Rightarrow>
            (case Age (StreamExpireInterval (ss_config store)) stream of (isExpired, stream') \<Rightarrow>
               let store' = store\<lparr>ss_data := (ss_data store)(slug \<mapsto> stream')\<rparr>
               in if isExpired then removeStream (ords slug) slug (store', w) else Inr (store', w)))"

definition store_timeout :: "string list \<Rightarrow> (string \<Rightarrow> cleanup_order) \<Rightarrow> StreamStore \<times> io \<Rightarrow> (StreamStore \<times> io) go" where
  "store_timeout order ords st = go_fold (timeoutStream ords) order st"

definition UpdateStream :: "string \<Rightarrow> string \<Rightarrow> time \<Rightarrow> StreamStore \<times> io \<Rightarrow> stream_error option \<times> StreamStore \<times> io" where
  "UpdateStream slug origin now st =
     (case st of (store, w) \<Rightarrow>
        case (case ss_data store slug of
                Some stream \<Rightarrow> (stream, io_chans w)
              | None \<Rightarrow> NewStream slug (StreamTimeout (ss_config store))
                          (StreamOriginDuration (ss_config store)) (io_chans w)) of
          (stream, ch) \<Rightarrow>
            (case Stream_Update origin now stream of (err, stream') \<Rightarrow>
               (err, store\<lparr>ss_data := (ss_data store)(slug \<mapsto> stream')\<rparr>, w\<lparr>io_chans := ch\<rparr>)))"

definition GetStream :: "string \<Rightarrow> StreamStore \<Rightarrow> Stream option" where
  "GetStream slug store = ss_data store slug"

text \<open>The goroutine \<open>run\<close>: ticks, until the context is done and every stream is removed.\<close>

datatype store_event =
    UpdateEv string string time
  | TickStoreEv "string list" "string \<Rightarrow> cleanup_order"
  | StopEv "string list" "string \<Rightarrow> cleanup_order"

fun store_step :: "store_event \<Rightarrow> StreamStore \<times> io \<Rightarrow> (StreamStore \<times> io) go" where
  "store_step (UpdateEv slug origin now) st = Inr (snd (UpdateStream slug origin now st))"
| "store_step (TickStoreEv order ords) st = store_timeout order ords st"
| "store_step (StopEv order ords) st = go_fold (\<lambda>slug. removeStream (ords slug) slug) order st"

section \<open>Channels a stream owns\<close>

definition files_of :: "Stream \<Rightarrow> string \<rightharpoonup> nat" where
  "files_of s = (case st_parsers s ParserTypeHLS of
      None \<Rightarrow> Map.empty
    | Some h \<Rightarrow> (case h_files h of None \<Rightarrow> Map.empty | Some m \<Rightarrow> m))"

definition stream_chans :: "Stream \<Rightarrow> nat set" where
  "stream_chans s = insert (st_alive s) (ran (files_of s))"

definition stream_ok :: "chans \<Rightarrow> Stream \<Rightarrow> bool" where
  "stream_ok ch s \<longleftrightarrow>
     (\<forall>c \<in> stream_chans s. open_chan ch c) \<and> st_alive s \<notin> ran (files_of s)
     \<and> (\<forall>p q c. files_of s p = Some c \<longrightarrow> files_of s q = Some c \<longrightarrow> p = q)"

definition store_ok :: "StreamStore \<times> io \<Rightarrow> bool" where
  "store_ok st = (case st of (store, w) \<Rightarrow>
     chans_wf (io_chans w) \<and> 0 < StreamExpireInterval (ss_config store)
     \<and> (\<forall>slug s. ss_data store slug = Some s \<longrightarrow> stream_ok (io_chans w) s)
     \<and> (\<forall>slug slug' s s'. ss_data store slug = Some s \<longrightarrow> ss_data store slug' = Some s' \<longrightarrow>
          slug \<noteq> slug' \<longrightarrow> stream_chans s \<inter> stream_chans s' = {}))"

definition order_ok :: "Stream \<Rightarrow> cleanup_order \<Rightarrow> bool" where
  "order_ok s ord \<longleftrightarrow> range_order (st_parsers s) (fst ord) \<and> range_order (files_of s) (snd ord)"

definition close_all :: "nat set \<Rightarrow> io \<Rightarrow> io" where
  "close_all C w = w\<lparr>io_chans := (io_chans w)\<lparr>closed := closed (io_chans w) \<union> C\<rparr>\<rparr>"

lemma close_all_simps [simp]:
  "close_all {} w = w" "close_all C (close_all D w) = close_all (D \<union> C) w"
  "io_sent (close_all C w) = io_sent w" "io_fs (close_all C w) = io_fs w"
  "closed (io_chans (close_all C w)) = closed (io_chans w) \<union> C"
  "open_chan (io_chans (close_all C w)) c \<longleftrightarrow> open_chan (io_chans w) c \<and> c \<notin> C"
  by (auto simp: close_all_def open_chan_def Un_assoc)

lemma parser_order:
  "range_order (st_parsers s) ks \<Longrightarrow> ks = (if st_parsers s ParserTypeHLS = None then [] else [ParserTypeHLS])"
proof -
  assume ro: "range_order (st_parsers s) ks"
  have "set ks \<subseteq> {ParserTypeHLS}" by (auto intro: ParserType.exhaust)
  moreover have "ParserTypeHLS \<in> set ks \<longleftrightarrow> st_parsers s ParserTypeHLS \<noteq> None" "distinct ks"
    using ro by (auto simp: range_order_def domIff)
  ultimately show ?thesis
    by (cases ks; cases "tl ks") (auto simp: list.set_sel)
qed

lemma HLSParser_Cleanup_closes:
  assumes "range_order (case h_files h of None \<Rightarrow> Map.empty | Some m \<Rightarrow> m) order"
    and "\<And>p q c. (case h_files h of None \<Rightarrow> Map.empty | Some m \<Rightarrow> m) p = Some c \<Longrightarrow>
       (case h_files h of None \<Rightarrow> Map.empty | Some m \<Rightarrow> m) q = Some c \<Longrightarrow> p = q"
    and "\<forall>c \<in> ran (case h_files h of None \<Rightarrow> Map.empty | Some m \<Rightarrow> m). open_chan (io_chans w) c"
  shows "HLSParser_Cleanup order (h, w) =
    Inr (h\<lparr>h_files := None\<rparr>, close_all (ran (case h_files h of None \<Rightarrow> Map.empty | Some m \<Rightarrow> m)) w)"
proof -
  let ?m = "case h_files h of None \<Rightarrow> Map.empty | Some m \<Rightarrow> m"
  have ro: "distinct order" "set order = dom ?m" using assms(1) by (simp_all add: range_order_def)
  have "inj_on ?m (set order)" unfolding ro(2) inj_on_def by (metis assms(2) domD)
  then have "distinct (map ?m order)" using ro(1) by (simp add: distinct_map)
  moreover have "\<forall>p \<in> set order. \<exists>c. ?m p = Some c \<and> open_chan (io_chans w) c"
    using assms(3) ro(2) by (auto simp: ran_def)
  moreover have "{c. \<exists>p \<in> set order. ?m p = Some c} = ran ?m"
    using ro(2) by (auto simp: ran_def)
  ultimately show ?thesis
    using close_each [of ?m order "io_chans w"] by (simp add: HLSParser_Cleanup_def close_all_def Let_def)
qed

lemma Stream_Cleanup_closes:
  assumes "stream_ok (io_chans w) s" "order_ok s ord"
  shows "\<exists>s'. Stream_Cleanup ord (s, w) = Inr (s', close_all (stream_chans s) w)"
proof -
  let ?w = "close_all {st_alive s} w"
  have alive: "close_chan (st_alive s) (io_chans w) = Inr (io_chans ?w)"
    using assms(1) by (simp add: stream_ok_def stream_chans_def close_chan_open close_all_def insert_is_Un [symmetric])
  have w: "w\<lparr>io_chans := io_chans ?w\<rparr> = ?w" by (simp add: close_all_def)
  have order: "fst ord = (if st_parsers s ParserTypeHLS = None then [] else [ParserTypeHLS])"
    using assms(2) by (intro parser_order) (simp add: order_ok_def)
  show ?thesis
  proof (cases "st_parsers s ParserTypeHLS")
    case None
    then show ?thesis
      by (simp add: Stream_Cleanup_def alive w order stream_chans_def files_of_def)
  next
    case (Some h)
    let ?m = "case h_files h of None \<Rightarrow> Map.empty | Some m \<Rightarrow> m"
    have files: "files_of s = ?m" using Some by (simp add: files_of_def)
    have "HLSParser_Cleanup (snd ord) (h, ?w) = Inr (h\<lparr>h_files := None\<rparr>, close_all (ran ?m) ?w)"
      using assms unfolding order_ok_def stream_ok_def stream_chans_def files
      by (intro HLSParser_Cleanup_closes) (auto simp: ran_def)
    then show ?thesis
      using Some by (simp add: Stream_Cleanup_def alive w order stream_chans_def files)
  qed
qed

lemma removeStream_removes:
  assumes "ss_data store slug = Some s" "stream_ok (io_chans w) s" "order_ok s ord"
  shows "removeStream ord slug (store, w) =
    Inr (store\<lparr>ss_data := (ss_data store)(slug := None)\<rparr>, close_all (stream_chans s) w)"
  using Stream_Cleanup_closes [OF assms(2,3)] assms(1) by (auto simp: removeStream_def)

text \<open>What a tick makes of one stream.\<close>

definition aged :: "duration \<Rightarrow> Stream \<Rightarrow> Stream option" where
  "aged d s = (if st_ttl s - d \<le> 0 then None else Some (s\<lparr>st_ttl := st_ttl s - d\<rparr>))"

definition timed_out :: "StreamStore \<Rightarrow> string set \<Rightarrow> nat set" where
  "timed_out store K = (\<Union>{stream_chans s | k s. k \<in> K \<and> ss_data store k = Some s
     \<and> aged (StreamExpireInterval (ss_config store)) s = None})"

definition after_timeout :: "string set \<Rightarrow> StreamStore \<Rightarrow> StreamStore" where
  "after_timeout K store = store\<lparr>ss_data := (\<lambda>k. if k \<in> K
     then Option.bind (ss_data store k) (aged (StreamExpireInterval (ss_config store))) else ss_data store k)\<rparr>"

lemma after_timeout_simps [simp]:
  "ss_config (after_timeout K store) = ss_config store" "after_timeout {} store = store"
  "ss_data (after_timeout K store) k = (if k \<in> K
     then Option.bind (ss_data store k) (aged (StreamExpireInterval (ss_config store))) else ss_data store k)"
  by (simp_all add: after_timeout_def)

lemma aged_chans [simp]: "stream_chans (s\<lparr>st_ttl := t\<rparr>) = stream_chans s" "files_of (s\<lparr>st_ttl := t\<rparr>) = files_of s"
  by (simp_all add: stream_chans_def files_of_def)

lemma stream_ok_ttl [simp]: "stream_ok ch (s\<lparr>st_ttl := t\<rparr>) = stream_ok ch s" "order_ok (s\<lparr>st_ttl := t\<rparr>) = order_ok s"
  by (simp_all add: stream_ok_def order_ok_def fun_eq_iff)

lemma timeoutStream_step:
  assumes "\<And>s. ss_data store slug = Some s \<Longrightarrow> stream_ok (io_chans w) s \<and> order_ok s (ords slug)"
  shows "timeoutStream ords slug (store, w) = Inr (after_timeout {slug} store, close_all (timed_out store {slug}) w)"
proof (cases "ss_data store slug")
  case None
  then have "after_timeout {slug} store = store" "timed_out store {slug} = {}"
    by (auto simp: after_timeout_def timed_out_def fun_eq_iff intro!: StreamStore.equality)
  with None show ?thesis by (simp add: timeoutStream_def)
next
  case (Some s)
  let ?d = "StreamExpireInterval (ss_config store)"
  have upd: "after_timeout {slug} store = store\<lparr>ss_data := (ss_data store)(slug := aged ?d s)\<rparr>"
    using Some by (auto simp: after_timeout_def fun_eq_iff intro!: StreamStore.equality)
  have out: "timed_out store {slug} = (if aged ?d s = None then stream_chans s else {})"
    using Some by (auto simp: timed_out_def)
  have ok: "stream_ok (io_chans w) s" "order_ok s (ords slug)" using assms [OF Some] by auto
  show ?thesis
  proof (cases "st_ttl s - ?d \<le> 0")
    case True
    let ?store = "store\<lparr>ss_data := (ss_data store)(slug \<mapsto> s\<lparr>st_ttl := st_ttl s - ?d\<rparr>)\<rparr>"
    have "removeStream (ords slug) slug (?store, w) =
        Inr (?store\<lparr>ss_data := (ss_data ?store)(slug := None)\<rparr>, close_all (stream_chans s) w)"
      using removeStream_removes [of ?store slug "s\<lparr>st_ttl := st_ttl s - ?d\<rparr>" w "ords slug"] ok by simp
    with True Some show ?thesis
      by (simp add: timeoutStream_def Age_def aged_def upd out Let_def)
  next
    case False
    with Some show ?thesis
      by (simp add: timeoutStream_def Age_def aged_def upd out Let_def)
  qed
qed

text \<open>The whole loop, over any part of the map in any order.\<close>

lemma timeout_loop:
  assumes "distinct order" "store_ok (store, w)"
    and "\<And>k s. k \<in> set order \<Longrightarrow> ss_data store k = Some s \<Longrightarrow> order_ok s (ords k)"
  shows "go_fold (timeoutStream ords) order (store, w) =
    Inr (after_timeout (set order) store, close_all (timed_out store (set order)) w)"
  using assms
proof (induction order rule: rev_induct)
  case Nil
  then show ?case by (simp add: timed_out_def)
next
  case (snoc k order)
  let ?store = "after_timeout (set order) store" and ?w = "close_all (timed_out store (set order)) w"
  have k: "k \<notin> set order" using snoc.prems(1) by simp
  have IH: "go_fold (timeoutStream ords) order (store, w) = Inr (?store, ?w)"
    using snoc by simp
  have "stream_ok (io_chans ?w) s \<and> order_ok s (ords k)" if s: "ss_data ?store k = Some s" for s
  proof -
    have s: "ss_data store k = Some s" using that k by simp
    then have "stream_chans s \<inter> timed_out store (set order) = {}"
      using snoc.prems(2) k unfolding store_ok_def timed_out_def by fastforce
    with s snoc.prems show ?thesis by (auto simp: store_ok_def stream_ok_def)
  qed
  then have "timeoutStream ords k (?store, ?w) = Inr (after_timeout {k} ?store, close_all (timed_out ?store {k}) ?w)"
    by (rule timeoutStream_step)
  moreover have "after_timeout {k} ?store = after_timeout (set (order @ [k])) store"
    using k by (auto simp: after_timeout_def fun_eq_iff intro!: StreamStore.equality)
  moreover have "timed_out store (set order) \<union> timed_out ?store {k} = timed_out store (set (order @ [k]))"
    using k unfolding timed_out_def by auto
  ultimately show ?case
    using IH by (simp add: go_fold_append)
qed

definition tick_ok :: "string list \<Rightarrow> (string \<Rightarrow> cleanup_order) \<Rightarrow> StreamStore \<times> io \<Rightarrow> bool" where
  "tick_ok order ords st \<longleftrightarrow> range_order (ss_data (fst st)) order
     \<and> (\<forall>k s. ss_data (fst st) k = Some s \<longrightarrow> order_ok s (ords k))"

lemma store_timeout_eq:
  assumes "store_ok (store, w)" "tick_ok order ords (store, w)"
  shows "store_timeout order ords (store, w) =
    Inr (after_timeout (dom (ss_data store)) store, close_all (timed_out store (dom (ss_data store))) w)"
  using timeout_loop [OF _ assms(1), of order ords] assms(2)
  by (auto simp: tick_ok_def range_order_def store_timeout_def)

lemma after_timeout_all:
  "ss_data (after_timeout (dom (ss_data store)) store) k =
     Option.bind (ss_data store k) (aged (StreamExpireInterval (ss_config store)))"
  by (auto simp: domIff)

lemma aged_Some:
  "aged d s = Some s' \<longleftrightarrow> 0 < st_ttl s - d \<and> s' = s\<lparr>st_ttl := st_ttl s - d\<rparr>" "aged d s = None \<longleftrightarrow> st_ttl s - d \<le> 0"
  by (auto simp: aged_def)

lemma store_ok_timeout:
  assumes "store_ok (store, w)"
  shows "store_ok (after_timeout (dom (ss_data store)) store, close_all (timed_out store (dom (ss_data store))) w)"
proof -
  let ?w = "close_all (timed_out store (dom (ss_data store))) w"
  have wf: "chans_wf (io_chans ?w)"
  proof -
    have "c < next_chan (io_chans w)" if "c \<in> timed_out store (dom (ss_data store))" for c
      using assms that by (fastforce simp: store_ok_def timed_out_def stream_ok_def open_chan_def)
    then show ?thesis
      using assms by (auto simp: store_ok_def chans_wf_def close_all_def)
  qed
  have "stream_ok (io_chans ?w) s" if "ss_data store k = Some s" "0 < st_ttl s - StreamExpireInterval (ss_config store)" for k s
  proof -
    have "stream_chans s \<inter> timed_out store (dom (ss_data store)) = {}"
      using assms that unfolding store_ok_def timed_out_def by (fastforce simp: aged_Some)
    with assms that(1) show ?thesis by (auto simp: store_ok_def stream_ok_def)
  qed
  with wf assms show ?thesis
    unfolding store_ok_def after_timeout_all prod.case after_timeout_simps(1)
    by (auto simp: bind_eq_Some_conv aged_Some) blast
qed

lemma Stream_Update_chans:
  "Stream_Update origin now s = (err, s') \<Longrightarrow> stream_chans s' = stream_chans s \<and> files_of s' = files_of s
     \<and> st_alive s' = st_alive s \<and> st_parsers s' = st_parsers s"
  by (auto simp: Stream_Update_def stream_chans_def files_of_def split: if_splits)

lemma store_ok_update:
  assumes "store_ok (store, w)"
  shows "store_ok (snd (UpdateStream slug origin now (store, w)))"
proof (cases "ss_data store slug")
  case (Some s)
  obtain err s' where upd: "Stream_Update origin now s = (err, s')" by force
  note same = Stream_Update_chans [OF upd]
  have "stream_ok (io_chans w) s' = stream_ok (io_chans w) s" using same by (simp add: stream_ok_def)
  with assms Some same show ?thesis
    by (auto simp: UpdateStream_def upd store_ok_def)
next
  case None
  obtain s ch where new: "NewStream slug (StreamTimeout (ss_config store)) (StreamOriginDuration (ss_config store)) (io_chans w) = (s, ch)"
    by force
  obtain err s' where upd: "Stream_Update origin now s = (err, s')" by force
  note same = Stream_Update_chans [OF upd]
  have s: "st_alive s = next_chan (io_chans w)" "st_parsers s = Map.empty" "make_chan (io_chans w) = (next_chan (io_chans w), ch)"
    using new by (auto simp: NewStream_def make_chan_def)
  have wf: "chans_wf (io_chans w)" using assms by (simp add: store_ok_def)
  have mine: "stream_chans s' = {next_chan (io_chans w)}" "files_of s' = Map.empty"
    using same s by (simp_all add: stream_chans_def files_of_def)
  have ok': "stream_ok ch s'"
    using mine same s(1) make_chan_open [OF s(3) wf] by (simp add: stream_ok_def)
  have old: "stream_ok ch t \<and> next_chan (io_chans w) \<notin> stream_chans t" if "ss_data store k = Some t" for k t
    using assms that make_chan_keeps_open [OF s(3)] make_chan_fresh [OF s(3)]
    by (auto simp: store_ok_def stream_ok_def)
  show ?thesis
    using assms None make_chan_wf [OF s(3) wf] old ok'
    by (auto simp: UpdateStream_def new upd store_ok_def mine split: if_splits)
qed

lemma chans_wf_close_all:
  "chans_wf (io_chans w) \<Longrightarrow> (\<And>c. c \<in> C \<Longrightarrow> open_chan (io_chans w) c) \<Longrightarrow> chans_wf (io_chans (close_all C w))"
  by (auto simp: chans_wf_def close_all_def open_chan_def)

text \<open>Removal of all streams when the store stops.\<close>

lemma removeStream_safe:
  assumes "store_ok (store, w)" "\<And>s. ss_data store slug = Some s \<Longrightarrow> order_ok s ord"
  shows "\<exists>D. removeStream ord slug (store, w) =
      Inr (store\<lparr>ss_data := (ss_data store)(slug := None)\<rparr>, close_all D w)
    \<and> store_ok (store\<lparr>ss_data := (ss_data store)(slug := None)\<rparr>, close_all D w)
    \<and> (\<forall>s. ss_data store slug = Some s \<longrightarrow> D = stream_chans s)"
proof (cases "ss_data store slug")
  case None
  then have "store\<lparr>ss_data := (ss_data store)(slug := None)\<rparr> = store"
    by (auto simp: fun_eq_iff intro!: StreamStore.equality)
  with None assms(1) show ?thesis by (intro exI [of _ "{}"]) (simp add: removeStream_def)
next
  case (Some s)
  have ok: "stream_ok (io_chans w) s" using assms(1) Some by (simp add: store_ok_def)
  have "chans_wf (io_chans (close_all (stream_chans s) w))"
    using assms(1) ok by (intro chans_wf_close_all) (auto simp: store_ok_def stream_ok_def)
  moreover have "stream_ok (io_chans (close_all (stream_chans s) w)) t"
    if "ss_data store k = Some t" "k \<noteq> slug" for k t
  proof -
    have "stream_chans t \<inter> stream_chans s = {}" using assms(1) Some that unfolding store_ok_def by blast
    moreover have "stream_ok (io_chans w) t" using assms(1) that(1) by (simp add: store_ok_def)
    ultimately show ?thesis by (auto simp: stream_ok_def)
  qed
  ultimately have "store_ok (store\<lparr>ss_data := (ss_data store)(slug := None)\<rparr>, close_all (stream_chans s) w)"
    using assms(1) unfolding store_ok_def by auto
  with removeStream_removes [OF Some ok assms(2) [OF Some]] Some show ?thesis by auto
qed

lemma removal_loop:
  assumes "distinct order" "store_ok (store, w)"
    and "\<And>k s. k \<in> set order \<Longrightarrow> ss_data store k = Some s \<Longrightarrow> order_ok s (ords k)"
  shows "\<exists>C. go_fold (\<lambda>slug. removeStream (ords slug) slug) order (store, w) =
      Inr (store\<lparr>ss_data := ss_data store |` (- set order)\<rparr>, close_all C w)
    \<and> store_ok (store\<lparr>ss_data := ss_data store |` (- set order)\<rparr>, close_all C w)
    \<and> (\<forall>k s. k \<in> set order \<longrightarrow> ss_data store k = Some s \<longrightarrow> stream_chans s \<subseteq> C)"
  using assms
proof (induction order arbitrary: store w)
  case Nil
  then have "go_fold (\<lambda>slug. removeStream (ords slug) slug) [] (store, w) = Inr (store, close_all {} w)" by simp
  with Nil show ?case by (intro exI [of _ "{}"]) simp
next
  case (Cons k order)
  obtain store' D where one: "removeStream (ords k) k (store, w) = Inr (store', close_all D w)"
    "store' = store\<lparr>ss_data := (ss_data store)(k := None)\<rparr>" "store_ok (store', close_all D w)"
    "\<And>s. ss_data store k = Some s \<Longrightarrow> D = stream_chans s"
    using removeStream_safe [OF Cons.prems(2), of k "ords k"] Cons.prems(3) by auto
  have "\<And>j s. j \<in> set order \<Longrightarrow> ss_data store' j = Some s \<Longrightarrow> order_ok s (ords j)"
    using Cons.prems(3) one(2) by (auto split: if_splits)
  from Cons.IH [OF _ one(3) this] Cons.prems(1) obtain C where
    IH: "go_fold (\<lambda>slug. removeStream (ords slug) slug) order (store', close_all D w) =
      Inr (store'\<lparr>ss_data := ss_data store' |` (- set order)\<rparr>, close_all C (close_all D w))"
      "store_ok (store'\<lparr>ss_data := ss_data store' |` (- set order)\<rparr>, close_all C (close_all D w))"
      "\<And>j s. j \<in> set order \<Longrightarrow> ss_data store' j = Some s \<Longrightarrow> stream_chans s \<subseteq> C"
    by auto
  have upd: "store'\<lparr>ss_data := ss_data store' |` (- set order)\<rparr> = store\<lparr>ss_data := ss_data store |` (- set (k # order))\<rparr>"
    by (auto simp: one(2) restrict_map_def fun_eq_iff intro!: StreamStore.equality)
  have "stream_chans s \<subseteq> D \<union> C" if "j \<in> set (k # order)" "ss_data store j = Some s" for j s
    using that one(2,4) IH(3) [of j s] by (cases "j = k") auto
  then show ?case
    using one(1) IH(1,2) unfolding upd by (intro exI [of _ "D \<union> C"]) simp
qed

section \<open>Runs of the store\<close>

fun store_allowed :: "StreamStore \<times> io \<Rightarrow> store_event \<Rightarrow> bool" where
  "store_allowed st (UpdateEv slug origin now) = True"
| "store_allowed st (TickStoreEv order ords) = tick_ok order ords st"
| "store_allowed st (StopEv order ords) = tick_ok order ords st"

interpretation store: safe_steps store_step store_allowed store_ok
proof
  fix st e
  assume ok: "store_ok st" and al: "store_allowed st e"
  obtain store w where st: "st = (store, w)" by force
  show "\<exists>st'. store_step e st = Inr st' \<and> store_ok st'"
  proof (cases e)
    case (UpdateEv slug origin now)
    with ok show ?thesis by (simp add: st store_ok_update)
  next
    case (TickStoreEv order ords)
    with ok al show ?thesis
      using store_timeout_eq [of store w order ords] store_ok_timeout [of store w] by (simp add: st)
  next
    case (StopEv order ords)
    with al have "distinct order" "\<And>k s. ss_data store k = Some s \<Longrightarrow> order_ok s (ords k)"
      by (auto simp: st tick_ok_def range_order_def)
    with StopEv ok removal_loop [of order store w ords] show ?thesis by (auto simp: st)
  qed
qed

type_synonym store_tick = "string list \<times> (string \<Rightarrow> cleanup_order)"

definition store_tick :: "store_tick \<Rightarrow> StreamStore \<times> io \<Rightarrow> StreamStore \<times> io" where
  "store_tick t st = projr (store_timeout (fst t) (snd t) st)"

lemma store_tick_eq:
  assumes "store_ok (store, w)" "tick_ok (fst t) (snd t) (store, w)"
  shows "store_tick t (store, w) =
    (after_timeout (dom (ss_data store)) store, close_all (timed_out store (dom (ss_data store))) w)"
  using store_timeout_eq [OF assms] by (simp add: store_tick_def)

interpretation store_ttl: ttl_store "\<lambda>st slug. map_option st_ttl (ss_data (fst st) slug)" store_tick
  "\<lambda>t st. store_ok st \<and> tick_ok (fst t) (snd t) st" "\<lambda>st. StreamExpireInterval (ss_config (fst st))"
proof (unfold_locales, goal_cases)
  case (1 t st k)
  obtain store w where st: "st = (store, w)" by force
  with 1 show ?case
    by (simp add: store_tick_eq after_timeout_all aged_def split: option.splits del: after_timeout_simps(3))
next
  case (2 t st)
  then show ?case by (cases st) (simp add: store_ok_def)
next
  case (3 t st)
  then show ?case by (cases st) (simp add: store_tick_eq)
qed

definition tick_event :: "store_tick \<Rightarrow> store_event" where
  "tick_event t = TickStoreEv (fst t) (snd t)"

lemma store_ticks:
  "store_ok st \<Longrightarrow> steps_allowed store_step store_allowed st (map tick_event ts) \<Longrightarrow>
   go_fold store_step (map tick_event ts) st = Inr (store_ttl.ticks ts st) \<and> store_ttl.ticks_ok ts st"
proof (induction ts arbitrary: st)
  case Nil
  then show ?case by simp
next
  case (Cons t ts)
  obtain store w where st: "st = (store, w)" by force
  have ok: "tick_ok (fst t) (snd t) (store, w)" using Cons.prems(2) by (simp add: tick_event_def st)
  have eq: "store_step (tick_event t) (store, w) = Inr (store_tick t (store, w))"
    using store_timeout_eq [OF _ ok] store_tick_eq [OF _ ok] Cons.prems(1) by (simp add: tick_event_def st)
  have "store_ok (store_tick t (store, w))"
    using store_ok_timeout store_tick_eq [OF _ ok] Cons.prems(1) by (simp add: st)
  with Cons.IH [of "store_tick t st"] Cons.prems ok eq show ?case by (simp add: st)
qed

text \<open>A stream is in the store, under its old channel, or that channel is closed.\<close>

definition tracked :: "string \<Rightarrow> nat \<Rightarrow> StreamStore \<times> io \<Rightarrow> bool" where
  "tracked slug c st \<longleftrightarrow> (\<exists>s. ss_data (fst st) slug = Some s \<and> st_alive s = c)
     \<or> ss_data (fst st) slug = None \<and> c \<in> closed (io_chans (snd st))"

lemma tracked_ticks:
  "store_ttl.ticks_ok ts st \<Longrightarrow> tracked slug c st \<Longrightarrow> tracked slug c (store_ttl.ticks ts st)"
proof (induction ts arbitrary: st)
  case Nil
  then show ?case by simp
next
  case (Cons t ts)
  obtain store w where st: "st = (store, w)" by force
  have eq: "store_tick t st =
      (after_timeout (dom (ss_data store)) store, close_all (timed_out store (dom (ss_data store))) w)"
    using Cons.prems(1) by (simp add: st store_tick_eq)
  let ?d = "StreamExpireInterval (ss_config store)"
  have "tracked slug c (store_tick t st)"
  proof (cases "ss_data store slug")
    case (Some s)
    then have c: "st_alive s = c" using Cons.prems(2) by (simp add: tracked_def st)
    have "stream_chans s \<subseteq> timed_out store (dom (ss_data store))" if "aged ?d s = None"
      using that Some by (auto simp: timed_out_def)
    with c Some show ?thesis
      unfolding eq tracked_def fst_conv snd_conv after_timeout_all
      by (cases "aged ?d s") (auto simp: stream_chans_def aged_Some)
  qed (use Cons.prems(2) eq in \<open>simp add: tracked_def st\<close>)
  with Cons show ?case by simp
qed

section \<open>Properties\<close>

text \<open>C8. Whatever uploads, ticks and stops the store sees, in whatever order its maps are
  iterated, it never panics: no channel is closed twice. At any time every stream it knows has an
  \<open>alive\<close> channel of its own that is open.\<close>

theorem store_never_panics:
  assumes "0 \<le> StreamExpireInterval config" "chans_wf (io_chans w)"
    and "steps_allowed store_step store_allowed (NewStreamStore config, w) es"
  shows "\<exists>store' w'. go_fold store_step es (NewStreamStore config, w) = Inr (store', w')
    \<and> (\<forall>slug s. ss_data store' slug = Some s \<longrightarrow> open_chan (io_chans w') (st_alive s))
    \<and> (\<forall>slug slug' s s'. ss_data store' slug = Some s \<longrightarrow> ss_data store' slug' = Some s' \<longrightarrow>
         st_alive s = st_alive s' \<longrightarrow> slug = slug')"
proof -
  have "store_ok (NewStreamStore config, w)"
    using assms(1,2) by (simp add: store_ok_def NewStreamStore_def DefaultStreamExpireInterval_def Let_def)
  from store.run_safe [OF this assms(3)] obtain store' w' where
    run: "go_fold store_step es (NewStreamStore config, w) = Inr (store', w')" "store_ok (store', w')" by auto
  from run(2) have "slug = slug'"
    if "ss_data store' slug = Some s" "ss_data store' slug' = Some s'" "st_alive s = st_alive s'" for slug slug' s s'
    using that unfolding store_ok_def stream_chans_def by fastforce
  moreover have "open_chan (io_chans w') (st_alive s)" if "ss_data store' slug = Some s" for slug s
    using run(2) that by (auto simp: store_ok_def stream_ok_def stream_chans_def)
  ultimately show ?thesis using run(1) by blast
qed

text \<open>Examples: two streams of different origins, then ticks.\<close>

definition demo_store_io :: io where
  "demo_store_io = \<lparr>io_chans = no_chans, io_sent = [], io_fs = Map.empty\<rparr>"

definition demo_config :: StreamStoreConfig where
  "demo_config = \<lparr>StreamTimeout = 3, StreamExpireInterval = 2, StreamOriginDuration = 5\<rparr>"

definition demo_stream_a :: Stream where
  "demo_stream_a = \<lparr>st_slug = ''a'', st_timeout = 3, st_originTimeout = 5, st_ttl = 3, st_origin = ''h'',
     st_originUpdated = 9, st_alive = 0, st_parsers = Map.empty\<rparr>"

definition demo_store :: StreamStore where
  "demo_store = \<lparr>ss_config = demo_config, ss_data = [''a'' \<mapsto> demo_stream_a]\<rparr>"

definition demo_order :: "string \<Rightarrow> cleanup_order" where
  "demo_order slug = ([], [])"

lemma demo_update: "UpdateStream ''a'' ''h'' 9 (NewStreamStore demo_config, demo_store_io) =
    (None, demo_store, demo_store_io\<lparr>io_chans := \<lparr>next_chan = 1, closed = {}\<rparr>\<rparr>)"
  by (simp add: UpdateStream_def NewStreamStore_def demo_config_def NewStream_def make_chan_def demo_store_io_def
      no_chans_def Stream_Update_def demo_store_def demo_stream_a_def Let_def)

lemma demo_tick_ok: "tick_ok [''a''] demo_order (demo_store, w)"
  by (auto simp: tick_ok_def demo_store_def range_order_def order_ok_def demo_stream_a_def demo_order_def files_of_def)

theorem store_never_panics_witness:
  "\<exists>store' w' s. go_fold store_step [UpdateEv ''a'' ''h'' 9, TickStoreEv [''a''] demo_order, UpdateEv ''b'' ''g'' 9]
       (NewStreamStore demo_config, demo_store_io) = Inr (store', w')
     \<and> ss_data store' ''a'' = Some s \<and> st_ttl s = 1 \<and> open_chan (io_chans w') (st_alive s)"
proof -
  let ?es = "[UpdateEv ''a'' ''h'' 9, TickStoreEv [''a''] demo_order, UpdateEv ''b'' ''g'' 9]"
  have "steps_allowed store_step store_allowed (NewStreamStore demo_config, demo_store_io) ?es"
    by (simp add: demo_update demo_tick_ok split: sum.splits)
  moreover have "0 \<le> StreamExpireInterval demo_config" "chans_wf (io_chans demo_store_io)"
    by (simp_all add: demo_config_def demo_store_io_def)
  ultimately obtain store' w' where
    run: "go_fold store_step ?es (NewStreamStore demo_config, demo_store_io) = Inr (store', w')"
    and al: "\<forall>slug s. ss_data store' slug = Some s \<longrightarrow> open_chan (io_chans w') (st_alive s)"
    using store_never_panics by blast
  obtain s where "ss_data store' ''a'' = Some s" "st_ttl s = 1"
    using run by (auto simp: NewStreamStore_def demo_store_io_def no_chans_def store_timeout_def timeoutStream_def demo_store_def demo_stream_a_def Age_def
        demo_config_def UpdateStream_def NewStream_def make_chan_def Stream_Update_def Let_def)
  with run al show ?thesis by blast
qed

text \<open>C9. The life of an idle stream: with time \<open>T\<close> left, it is in the store, with the rest of its
  time, as long as ticks of the expire interval have not used it up, and from then on it is gone and
  its \<open>alive\<close> channel is closed, so that its files may expire.\<close>

theorem idle_stream_lifetime:
  assumes "store_ok (store, w)" "ss_data store slug = Some s" "ts \<noteq> []"
    and "steps_allowed store_step store_allowed (store, w) (map tick_event ts)"
  shows "\<exists>store' w'. go_fold store_step (map tick_event ts) (store, w) = Inr (store', w')
    \<and> (let left = st_ttl s - int (length ts) * StreamExpireInterval (ss_config store)
       in if 0 < left then \<exists>s'. ss_data store' slug = Some s' \<and> st_ttl s' = left \<and> st_alive s' = st_alive s
          else ss_data store' slug = None \<and> st_alive s \<in> closed (io_chans w'))"
proof -
  let ?left = "st_ttl s - int (length ts) * StreamExpireInterval (ss_config store)"
  obtain store' w' where st': "store_ttl.ticks ts (store, w) = (store', w')" by force
  have run: "go_fold store_step (map tick_event ts) (store, w) = Inr (store', w')"
    and ok: "store_ttl.ticks_ok ts (store, w)"
    using store_ticks [OF assms(1,4)] st' by simp_all
  have tr: "tracked slug (st_alive s) (store', w')"
    using tracked_ticks [OF ok, of slug "st_alive s"] assms(2) st' by (simp add: tracked_def)
  have "0 < ?left \<Longrightarrow> map_option st_ttl (ss_data store' slug) = Some ?left"
    using store_ttl.survives [of "(store, w)" slug "st_ttl s" ts] assms(2) ok st' by simp
  moreover have "\<not> 0 < ?left \<Longrightarrow> map_option st_ttl (ss_data store' slug) = None"
    using store_ttl.expires [of "(store, w)" slug "st_ttl s" ts] assms(2,3) ok st' by simp
  ultimately show ?thesis
    using run tr by (auto simp: tracked_def Let_def)
qed

lemma demo_store_ok: "store_ok (demo_store, demo_store_io\<lparr>io_chans := \<lparr>next_chan = 1, closed = {}\<rparr>\<rparr>)"
  by (simp add: store_ok_def demo_store_def demo_config_def stream_ok_def stream_chans_def demo_stream_a_def
      files_of_def demo_store_io_def chans_wf_def open_chan_def)

theorem idle_stream_lifetime_witness:
  "\<exists>store' w'. go_fold store_step (map tick_event [([''a''], demo_order), ([''a''], demo_order)])
       (demo_store, demo_store_io\<lparr>io_chans := \<lparr>next_chan = 1, closed = {}\<rparr>\<rparr>) = Inr (store', w')
     \<and> ss_data store' ''a'' = None \<and> 0 \<in> closed (io_chans w')"
proof -
  let ?w = "demo_store_io\<lparr>io_chans := \<lparr>next_chan = 1, closed = {}\<rparr>\<rparr>"
  let ?ts = "[([''a''], demo_order), ([''a''], demo_order)]"
  have "store_timeout [''a''] demo_order (demo_store, ?w) =
      Inr (demo_store\<lparr>ss_data := [''a'' \<mapsto> demo_stream_a\<lparr>st_ttl := 1\<rparr>]\<rparr>, ?w)"
    by (simp add: store_timeout_def timeoutStream_def demo_store_def demo_stream_a_def Age_def demo_config_def Let_def)
  moreover have "tick_ok [''a''] demo_order (demo_store\<lparr>ss_data := [''a'' \<mapsto> demo_stream_a\<lparr>st_ttl := 1\<rparr>]\<rparr>, ?w)"
    by (auto simp: tick_ok_def range_order_def order_ok_def demo_stream_a_def demo_order_def files_of_def)
  ultimately have "steps_allowed store_step store_allowed (demo_store, ?w) (map tick_event ?ts)"
    by (auto simp: tick_event_def demo_tick_ok split: sum.splits)
  moreover have "ss_data demo_store ''a'' = Some demo_stream_a" by (simp add: demo_store_def)
  ultimately show ?thesis
    using idle_stream_lifetime [OF demo_store_ok, of "''a''" demo_stream_a ?ts]
    by (simp add: demo_stream_a_def demo_store_def demo_config_def Let_def)
qed

text \<open>Events during which a stream stays with its origin.\<close>

fun keeps_origin :: "string \<Rightarrow> string \<Rightarrow> StreamStore \<times> io \<Rightarrow> store_event \<Rightarrow> bool" where
  "keeps_origin slug A st (UpdateEv slug' origin now) =
     (slug' = slug \<and> origin \<noteq> A \<longrightarrow>
        (\<forall>s. ss_data (fst st) slug = Some s \<longrightarrow> now < st_originUpdated s + st_originTimeout s))"
| "keeps_origin slug A st (TickStoreEv order ords) = (tick_ok order ords st
     \<and> (\<forall>s. ss_data (fst st) slug = Some s \<longrightarrow> StreamExpireInterval (ss_config (fst st)) < st_ttl s))"
| "keeps_origin slug A st (StopEv order ords) = False"

definition owned_by :: "string \<Rightarrow> string \<Rightarrow> StreamStore \<times> io \<Rightarrow> bool" where
  "owned_by slug A st \<longleftrightarrow> store_ok st \<and> (\<exists>s. ss_data (fst st) slug = Some s \<and> st_origin s = A)"

interpretation origin: safe_steps store_step "keeps_origin slug A" "owned_by slug A" for slug A
proof
  fix st e
  assume own: "owned_by slug A st" and keep: "keeps_origin slug A st e"
  obtain store w where st: "st = (store, w)" by force
  obtain s where s: "ss_data store slug = Some s" "st_origin s = A" and ok: "store_ok (store, w)"
    using own by (auto simp: owned_by_def st)
  show "\<exists>st'. store_step e st = Inr st' \<and> owned_by slug A st'"
  proof (cases e)
    case (UpdateEv slug' origin now)
    have "\<exists>s'. ss_data (fst (snd (UpdateStream slug' origin now (store, w)))) slug = Some s' \<and> st_origin s' = A"
      using s keep UpdateEv
      by (cases "slug' = slug"; cases "origin = A")
        (auto simp: st UpdateStream_def Stream_Update_def split: prod.splits option.splits)
    with ok UpdateEv store_ok_update [of store w] show ?thesis by (simp add: st owned_by_def)
  next
    case (TickStoreEv order ords)
    with keep have t: "tick_ok order ords (store, w)" "StreamExpireInterval (ss_config store) < st_ttl s"
      using s by (auto simp: st)
    have "ss_data (after_timeout (dom (ss_data store)) store) slug =
        Some (s\<lparr>st_ttl := st_ttl s - StreamExpireInterval (ss_config store)\<rparr>)"
      using s t(2) unfolding after_timeout_all by (simp add: aged_def)
    with TickStoreEv s(2) store_timeout_eq [OF ok t(1)] store_ok_timeout [OF ok] show ?thesis
      by (simp add: st owned_by_def)
  qed (use keep in simp)
qed

text \<open>C7. A stream belongs to one origin at a time. The upload that was accepted last came from
  \<open>A\<close>: as long as the stream is not removed, and whatever else the store does meanwhile, every
  upload of another origin within the origin duration of the last upload from \<open>A\<close> is refused and
  changes nothing, and the origin stays \<open>A\<close>.\<close>

theorem origin_exclusive:
  assumes "store_ok st" "ss_data (fst st) slug = Some s" "st_origin s = A"
    and "steps_allowed store_step (keeps_origin slug A) st es"
  shows "\<exists>st' s'. go_fold store_step es st = Inr st' \<and> ss_data (fst st') slug = Some s' \<and> st_origin s' = A
    \<and> (\<forall>B now. B \<noteq> A \<longrightarrow> now < st_originUpdated s' + st_originTimeout s' \<longrightarrow>
         UpdateStream slug B now st' = (Some ErrInvalidOrigin, st'))"
proof -
  obtain st' where run: "go_fold store_step es st = Inr st'" "owned_by slug A st'"
    using origin.run_safe [OF _ assms(4)] assms(1-3) by (auto simp: owned_by_def)
  obtain s' where s': "ss_data (fst st') slug = Some s'" "st_origin s' = A"
    using run(2) by (auto simp: owned_by_def)
  have "UpdateStream slug B now st' = (Some ErrInvalidOrigin, st')"
    if "B \<noteq> A" "now < st_originUpdated s' + st_originTimeout s'" for B now
    using that s' by (cases st') (auto simp: UpdateStream_def Stream_Update_def map_upd_triv)
  with run(1) s' show ?thesis by blast
qed

theorem origin_exclusive_witness:
  "\<exists>st' s'. go_fold store_step [UpdateEv ''a'' ''thief'' 13, UpdateEv ''b'' ''thief'' 13]
       (demo_store, demo_store_io\<lparr>io_chans := \<lparr>next_chan = 1, closed = {}\<rparr>\<rparr>) = Inr st'
     \<and> ss_data (fst st') ''a'' = Some s' \<and> st_origin s' = ''h''"
proof -
  let ?w = "demo_store_io\<lparr>io_chans := \<lparr>next_chan = 1, closed = {}\<rparr>\<rparr>"
  have "steps_allowed store_step (keeps_origin ''a'' ''h'') (demo_store, ?w)
      [UpdateEv ''a'' ''thief'' 13, UpdateEv ''b'' ''thief'' 13]"
    by (simp add: demo_store_def demo_stream_a_def)
  moreover have "ss_data (fst (demo_store, ?w)) ''a'' = Some demo_stream_a" "st_origin demo_stream_a = ''h''"
    by (simp_all add: demo_store_def demo_stream_a_def)
  ultimately show ?thesis
    using origin_exclusive [OF demo_store_ok, of "''a''" demo_stream_a "''h''"] by blast
qed

end
