(* ===== verification/UploadAuth.thy ===== *)
theory UploadAuth
  imports GoPath Prelude
begin

text \<open>
  \<open>src/upload/auth.go\<close>: who may upload where. A user with the right password may write below
  one of the allowed directories; the first path element below it is the slug of the stream,
  which the user's pattern must match. The matcher is \<open>wildcard.MatchSimple\<close> of another
  package, a parameter here.
\<close>

record AuthConfigEntry =
  ac_match :: string
  ac_user :: string
  ac_pass :: string

record AuthConfig =
  AllowedDirs :: "string list"
  Users :: "AuthConfigEntry list"

record StaticAuth =
  sa_allowedDirs :: "string list"
  sa_conf :: "string \<rightharpoonup> AuthConfigEntry"

text \<open>\<open>dir[len(dir)-1]\<close> of an empty string panics.\<close>

fun addSlashes :: "string list \<Rightarrow> string list go" where
  "addSlashes [] = Inr []"
| "addSlashes (d # ds) =
     (if d = '''' then Inl IndexOutOfRange
      else go_bind (addSlashes ds) (\<lambda>ds'. Inr ((if last d \<noteq> slash then d @ [slash] else d) # ds')))"

definition NewStaticAuth :: "AuthConfig \<Rightarrow> StaticAuth go" where
  "NewStaticAuth conf =
     go_bind (addSlashes (AllowedDirs conf)) (\<lambda>dirs.
     Inr \<lparr>sa_allowedDirs = dirs,
          sa_conf = fold (\<lambda>entry m. m(ac_user entry \<mapsto> entry)) (Users conf) Map.empty\<rparr>)"

text \<open>The loop over the allowed prefixes: what remains of the path after the first that fits.\<close>

fun stripAllowed :: "string list \<Rightarrow> string \<Rightarrow> string option" where
  "stripAllowed [] p = None"
| "stripAllowed (pre # pres) p =
     (if hasPrefix p pre then Some (drop (length pre) p) else stripAllowed pres p)"

definition Auth :: "(string \<Rightarrow> string \<Rightarrow> bool) \<Rightarrow> StaticAuth \<Rightarrow> string \<Rightarrow> string \<Rightarrow> string \<Rightarrow> (string \<times> bool) go" where
  "Auth matchSimple a user pass path =
     (case sa_conf a user of
        None \<Rightarrow> Inr ('''', False)
      | Some entry \<Rightarrow>
          if pass \<noteq> ac_pass entry then Inr ('''', False)
          else
            (case stripAllowed (sa_allowedDirs a) (clean path) of
               None \<Rightarrow> Inr ('''', False)
             | Some rest \<Rightarrow>
                 let p = (if isAbs rest then rest else slash # rest)
                 in (case split slash p of
                       first # slug # others \<Rightarrow>
                         if \<not> matchSimple (ac_match entry) slug then Inr ('''', False) else Inr (slug, True)
                     | _ \<Rightarrow> Inl IndexOutOfRange)))"

section \<open>Allowed directories by path elements\<close>

text \<open>The prefix that stands for the directory with elements \<open>d\<close>.\<close>

definition dirPrefix :: "string list \<Rightarrow> string" where
  "dirPrefix d = (if d = [] then [slash] else abs_path d @ [slash])"

lemma abs_path_append: "d \<noteq> [] \<Longrightarrow> r \<noteq> [] \<Longrightarrow> abs_path (d @ r) = abs_path d @ slash # join slash r"
  by (simp add: abs_path_def join_append)

lemma dirPrefix_strip:
  assumes "r \<noteq> []"
  shows "abs_path (d @ r) = dirPrefix d @ join slash r"
  using assms by (cases "d = []") (simp_all add: dirPrefix_def abs_path_append, simp add: abs_path_def)

lemma hasPrefix_dirPrefix:
  assumes "list_all plain_elem es" "list_all plain_elem d" "es \<noteq> []"
  shows "hasPrefix (abs_path es) (dirPrefix d) \<longleftrightarrow> strict_prefix d es"
proof
  assume pre: "hasPrefix (abs_path es) (dirPrefix d)"
  show "strict_prefix d es"
  proof (cases "d = []")
    case True
    with assms(3) show ?thesis by (simp add: strict_prefix_def)
  next
    case False
    with pre obtain t where t: "abs_path es = abs_path d @ slash # t"
      by (auto simp: dirPrefix_def elim: hasPrefixE)
    then have "split slash (abs_path es) = split slash (abs_path d) @ split slash t"
      by (simp add: split_append_general)
    then have "es = d @ split slash t"
      using False assms by (simp add: split_abs_path)
    then show ?thesis by (simp add: strict_prefix_def)
  qed
next
  assume "strict_prefix d es"
  then obtain r where "es = d @ r" "r \<noteq> []" by (metis strict_prefixE' list.distinct(1))
  then show "hasPrefix (abs_path es) (dirPrefix d)" by (simp add: dirPrefix_strip)
qed

lemma stripAllowed_dirs:
  assumes "list_all plain_elem es" "list_all (list_all plain_elem) ds" "es \<noteq> []"
  shows "stripAllowed (map dirPrefix ds) (abs_path es) =
    map_option (\<lambda>d. join slash (drop (length d) es)) (find (\<lambda>d. strict_prefix d es) ds)"
  using assms(2)
proof (induction ds)
  case Nil
  then show ?case by simp
next
  case (Cons d ds)
  show ?case
  proof (cases "strict_prefix d es")
    case True
    then obtain r where "es = d @ r" "r \<noteq> []" by (metis strict_prefixE' list.distinct(1))
    with True Cons.prems assms hasPrefix_dirPrefix [OF assms(1) _ assms(3), of d] show ?thesis
      by (simp add: dirPrefix_strip)
  next
    case False
    with Cons assms hasPrefix_dirPrefix [OF assms(1) _ assms(3), of d] show ?thesis by simp
  qed
qed

text \<open>A configured directory, written with or without the final slash.\<close>

definition names_dir :: "string list \<Rightarrow> string \<Rightarrow> bool" where
  "names_dir d s \<longleftrightarrow> s = abs_path d \<or> d \<noteq> [] \<and> s = abs_path d @ [slash]"

lemma last_abs_path:
  assumes "list_all plain_elem d" "d \<noteq> []"
  shows "last (abs_path d) \<noteq> slash"
proof -
  obtain x e where d: "d = x @ [e]" using assms(2) by (metis rev_exhaust)
  then have e: "e \<noteq> []" "slash \<notin> set e" using assms(1) by simp_all
  then have "last e \<noteq> slash" by (metis last_in_set)
  moreover have "last (abs_path d) = last e"
    using e(1) by (cases "x = []") (simp_all add: d abs_path_def join_append)
  ultimately show ?thesis by simp
qed

lemma addSlashes_dirs:
  "list_all (list_all plain_elem) ds \<Longrightarrow> list_all2 names_dir ds dirs \<Longrightarrow> addSlashes dirs = Inr (map dirPrefix ds)"
proof (induction ds arbitrary: dirs)
  case Nil
  then show ?case by simp
next
  case (Cons d ds)
  then obtain s rest where dirs: "dirs = s # rest" "names_dir d s" "list_all2 names_dir ds rest"
    by (auto simp: list_all2_Cons1)
  have "s \<noteq> []" using dirs(2) by (auto simp: names_dir_def abs_path_def)
  moreover have "(if last s \<noteq> slash then s @ [slash] else s) = dirPrefix d"
    using dirs(2) last_abs_path [of d] Cons.prems(1) by (auto simp: names_dir_def dirPrefix_def abs_path_def)
  ultimately show ?case
    using Cons dirs by simp
qed

lemma users_map:
  "fold (\<lambda>entry m. m(ac_user entry \<mapsto> entry)) us m u =
     (case find (\<lambda>e. ac_user e = u) (rev us) of Some e \<Rightarrow> Some e | None \<Rightarrow> m u)"
  by (induction us rule: rev_induct) auto

text \<open>The rest of a path below a directory splits into its elements.\<close>

lemma split_strict_prefix:
  assumes "strict_prefix d es" "list_all plain_elem es"
  shows "split slash (let r = join slash (drop (length d) es) in if isAbs r then r else slash # r) = [] # drop (length d) es"
    and "drop (length d) es \<noteq> []"
proof -
  obtain s r where es: "es = d @ s # r" using assms(1) by (metis strict_prefixE')
  have pl: "list_all plain_elem (s # r)" using assms(2) es by simp
  then have "s \<noteq> []" "slash \<notin> set s" by simp_all
  then obtain c s' where "s = c # s'" "c \<noteq> slash" by (cases s) auto
  then have "\<not> isAbs (join slash (s # r))" by (cases r) (simp_all add: isAbs_iff)
  moreover have "split slash (slash # join slash (s # r)) = [] # s # r"
    using split_abs_path [OF pl] by (simp add: abs_path_def)
  ultimately show "split slash (let r = join slash (drop (length d) es) in if isAbs r then r else slash # r) = [] # drop (length d) es"
    and "drop (length d) es \<noteq> []"
    by (simp_all add: es)
qed

text \<open>When access is granted, in terms of path elements.\<close>

lemma Auth_grants:
  assumes "list_all2 names_dir ds (AllowedDirs conf)" "list_all (list_all plain_elem) ds"
    and "clean path = abs_path es" "list_all plain_elem es" "es \<noteq> []"
  shows "\<exists>a slug' ok. NewStaticAuth conf = Inr a \<and> Auth matchSimple a user pass path = Inr (slug', ok)
    \<and> (\<forall>slug. (slug', ok) = (slug, True) \<longleftrightarrow>
         (\<exists>e d rest. find (\<lambda>e. ac_user e = user) (rev (Users conf)) = Some e \<and> ac_pass e = pass
            \<and> find (\<lambda>d. strict_prefix d es) ds = Some d \<and> es = d @ slug # rest
            \<and> matchSimple (ac_match e) slug))"
proof -
  let ?a = "\<lparr>sa_allowedDirs = map dirPrefix ds,
     sa_conf = fold (\<lambda>entry m. m(ac_user entry \<mapsto> entry)) (Users conf) Map.empty\<rparr>"
  have new: "NewStaticAuth conf = Inr ?a"
    using addSlashes_dirs [OF assms(2,1)] by (simp add: NewStaticAuth_def)
  have user: "sa_conf ?a user = find (\<lambda>e. ac_user e = user) (rev (Users conf))"
    by (simp add: users_map split: option.splits)
  have strip: "stripAllowed (sa_allowedDirs ?a) (clean path) =
      map_option (\<lambda>d. join slash (drop (length d) es)) (find (\<lambda>d. strict_prefix d es) ds)"
    using stripAllowed_dirs [OF assms(4,2,5)] by (simp add: assms(3))
  have parts: "split slash (let r = join slash (drop (length d) es) in if isAbs r then r else slash # r) =
      [] # drop (length d) es" "drop (length d) es \<noteq> []" if "strict_prefix d es" for d
    using split_strict_prefix [OF that assms(4)] by simp_all
  show ?thesis
  proof (cases "find (\<lambda>e. ac_user e = user) (rev (Users conf))")
    case None
    with new user show ?thesis by (auto simp: Auth_def)
  next
    case (Some e)
    show ?thesis
    proof (cases "find (\<lambda>d. strict_prefix d es) ds")
      case None
      with new user strip Some show ?thesis by (auto simp: Auth_def)
    next
      case (Some d)
      then have pre: "strict_prefix d es" by (auto simp: find_Some_iff)
      then obtain s r where es: "es = d @ s # r" by (metis strict_prefixE')
      have "Auth matchSimple ?a user pass path = Inr
          (if pass = ac_pass e \<and> matchSimple (ac_match e) s then (s, True) else ('''', False))"
        using user strip Some parts(1) [OF pre] \<open>find _ (rev _) = Some e\<close>
        by (auto simp: Auth_def Let_def es)
      with new Some \<open>find _ (rev _) = Some e\<close> es show ?thesis by auto
    qed
  qed
qed

lemma Auth_sound:
  assumes "list_all2 names_dir ds (AllowedDirs conf)" "list_all (list_all plain_elem) ds" "NewStaticAuth conf = Inr a"
    and "clean path = abs_path es" "list_all plain_elem es" "es \<noteq> []" "Auth matchSimple a user pass path = Inr (slug, True)"
  shows "\<exists>d rest. d \<in> set ds \<and> es = d @ slug # rest"
proof -
  obtain a' slug' ok where g: "NewStaticAuth conf = Inr a'" "Auth matchSimple a' user pass path = Inr (slug', ok)"
    "\<forall>slug. (slug', ok) = (slug, True) \<longleftrightarrow>
       (\<exists>e d rest. find (\<lambda>e. ac_user e = user) (rev (Users conf)) = Some e \<and> ac_pass e = pass
          \<and> find (\<lambda>d. strict_prefix d es) ds = Some d \<and> es = d @ slug # rest \<and> matchSimple (ac_match e) slug)"
    using Auth_grants [OF assms(1,2,4-6), of matchSimple user pass]
    by (elim exE conjE) (rule that)
  then have "(slug', ok) = (slug, True)" using assms(3,7) by simp
  with g(3) obtain d rest where "find (\<lambda>d. strict_prefix d es) ds = Some d" "es = d @ slug # rest" by blast
  moreover from this(1) have "d \<in> set ds" by (auto simp: find_Some_iff)
  ultimately show ?thesis by blast
qed

section \<open>Properties\<close>

text \<open>C6. Access control. With allowed directories given as absolute paths, with or without a final
  slash, and any absolute request path below the root, the check never panics, and it grants access
  under a slug exactly if the last configured entry of that user has that password, the cleaned path
  has the form \<open>directory/slug/...\<close> for an allowed directory, taken element by element, so that
  \<open>/allowed\<close> does not admit \<open>/allowedfoo\<close> and \<open>..\<close> does not leave it, and the entry's
  pattern matches the slug.\<close>

theorem Auth_grants_iff:
  assumes "list_all2 names_dir ds (AllowedDirs conf)" "list_all (list_all plain_elem) ds"
    and "clean path = abs_path es" "list_all plain_elem es" "es \<noteq> []"
  shows "\<exists>a slug' ok. NewStaticAuth conf = Inr a \<and> Auth matchSimple a user pass path = Inr (slug', ok)
    \<and> (\<forall>slug. (slug', ok) = (slug, True) \<longleftrightarrow>
         (\<exists>e d rest. find (\<lambda>e. ac_user e = user) (rev (Users conf)) = Some e \<and> ac_pass e = pass
            \<and> find (\<lambda>d. strict_prefix d es) ds = Some d \<and> es = d @ slug # rest
            \<and> matchSimple (ac_match e) slug))"
  using assms by (rule Auth_grants)

text \<open>A matcher for examples: \<open>*\<close> matches everything, any other pattern itself.\<close>

definition demo_match :: "string \<Rightarrow> string \<Rightarrow> bool" where
  "demo_match pat s \<longleftrightarrow> pat = ''*'' \<or> pat = s"

definition demo_auth :: AuthConfig where
  "demo_auth = \<lparr>AllowedDirs = [''/hls/'', ''/pub''], Users = [\<lparr>ac_match = ''s2'', ac_user = ''u'', ac_pass = ''p''\<rparr>]\<rparr>"

theorem Auth_grants_iff_witness:
  "\<exists>a. NewStaticAuth demo_auth = Inr a \<and> Auth demo_match a ''u'' ''p'' ''/hls/x/../s2/a.ts'' = Inr (''s2'', True)"
proof -
  let ?ds = "[[''hls''], [''pub'']]" and ?es = "[''hls'', ''s2'', ''a.ts'']"
  have "plain_elem ''hls''" "plain_elem ''pub''" "plain_elem ''s2''" "plain_elem ''a.ts''" by code_simp+
  then have pl: "list_all (list_all plain_elem) ?ds" "list_all plain_elem ?es" by simp_all
  have cl: "clean ''/hls/x/../s2/a.ts'' = abs_path ?es" by code_simp
  have nm: "list_all2 names_dir ?ds (AllowedDirs demo_auth)"
    by (simp add: demo_auth_def names_dir_def abs_path_def)
  obtain a slug' ok where res: "NewStaticAuth demo_auth = Inr a"
    "Auth demo_match a ''u'' ''p'' ''/hls/x/../s2/a.ts'' = Inr (slug', ok)"
    and iff: "\<forall>slug. (slug', ok) = (slug, True) \<longleftrightarrow>
       (\<exists>e d rest. find (\<lambda>e. ac_user e = ''u'') (rev (Users demo_auth)) = Some e \<and> ac_pass e = ''p''
          \<and> find (\<lambda>d. strict_prefix d ?es) ?ds = Some d \<and> ?es = d @ slug # rest \<and> demo_match (ac_match e) slug)"
    using Auth_grants_iff [OF nm pl(1) cl pl(2) list.distinct(2), of demo_match "''u''" "''p''"]
    by (elim exE conjE) (rule that)
  have "find (\<lambda>d. strict_prefix d ?es) ?ds = Some [''hls'']" by (simp add: strict_prefix_def)
  then have "(slug', ok) = (''s2'', True)"
    using iff [THEN spec, of "''s2''"] by (simp add: demo_auth_def demo_match_def)
  with res show ?thesis by simp
qed

text \<open>An empty entry in the list of allowed directories stops the server when it starts: the
  constructor reads the last byte of an empty string and panics.\<close>

lemma empty_allowed_dir_panics:
  "NewStaticAuth conf = Inl IndexOutOfRange \<longleftrightarrow> '''' \<in> set (AllowedDirs conf)"
proof -
  have "addSlashes ds = Inl IndexOutOfRange \<longleftrightarrow> '''' \<in> set ds" for ds
  proof (induction ds)
    case (Cons d ds)
    then show ?case by (cases "addSlashes ds") auto
  qed simp
  moreover have "NewStaticAuth conf = Inl x \<longleftrightarrow> addSlashes (AllowedDirs conf) = Inl x" for x
    by (cases "addSlashes (AllowedDirs conf)") (simp_all add: NewStaticAuth_def)
  ultimately show ?thesis by simp
qed

end
