(* ===== verification/UploadServer.thy ===== *)
theory UploadServer
  imports StreamStore UploadAuth
begin

text \<open>
  \<open>src/upload/handler.go\<close> and \<open>src/upload/server.go\<close>: what an HTTP request does to the
  upload server. The state is the handler, which holds the stream store, and the world \<open>io\<close>:
  entries sent to the file registry are appended to \<open>io_sent\<close> in order. The body of a request is a
  reader; \<open>fuel\<close> bounds the number of reads, and \<open>None\<close> is a body that has not ended yet.
\<close>

section \<open>The handler\<close>

record ServerConfig =
  sc_addr :: string
  sc_outputPath :: string
  sc_maxSegmentSize :: int
  sc_maxPlaylistSize :: int
  sc_streamTimeout :: duration
  sc_streamOriginDuration :: duration
  sc_playlistSize :: int

record Handler =
  hn_registry :: FileRegistry
  hn_store :: StreamStore
  hn_playlistSize :: int
  hn_maxPlaylistSize :: int
  hn_maxSegmentSize :: int

text \<open>The registry of the record is the one the handler starts; its later states are its goroutine's.\<close>

definition NewHandler :: "ServerConfig \<Rightarrow> Handler" where
  "NewHandler config =
     \<lparr>hn_registry = NewFileRegistry \<lparr>ExpireInterval = 0, KeepDelay = 0\<rparr>,
      hn_store = NewStreamStore \<lparr>StreamTimeout = sc_streamTimeout config, StreamExpireInterval = 0,
                   StreamOriginDuration = sc_streamOriginDuration config\<rparr>,
      hn_playlistSize = sc_playlistSize config,
      hn_maxPlaylistSize = sc_maxPlaylistSize config,
      hn_maxSegmentSize = sc_maxSegmentSize config\<rparr>"

definition Validate :: "string \<Rightarrow> string \<Rightarrow> string \<Rightarrow> time \<Rightarrow> Handler \<times> io \<Rightarrow> stream_error option \<times> Handler \<times> io" where
  "Validate slug path origin now st =
     (case st of (hn, w) \<Rightarrow>
        (case UpdateStream slug origin now (hn_store hn, w) of (err, store, w') \<Rightarrow>
           (err, hn\<lparr>hn_store := store\<rparr>, w')))"

datatype handler_error =
    UnknownStream string
  | ParserError hls_error
  | CopyError io_error

text \<open>The \<open>default\<close> case, which the two picture extensions fall through to.\<close>

definition storeFile :: "nat \<Rightarrow> (string \<Rightarrow> faults) \<Rightarrow> time \<Rightarrow> 's reader \<Rightarrow> 's \<Rightarrow> string \<Rightarrow> Handler \<times> io \<Rightarrow>
    (handler_error option \<times> Handler \<times> io) go option" where
  "storeFile fuel flt now R input outputPath st =
     (case st of (hn, w) \<Rightarrow>
        let w1 = send (RegisterFile outputPath (now + 30 * second)) w
        in map_option
             (\<lambda>res. go_bind res (\<lambda>(states, err).
                Inr (map_option CopyError err, hn, w1\<lparr>io_fs := last states\<rparr>)))
             (CopyFile fuel (flt outputPath) outputPath (LimitReader_Read R)
                (LimitReads input (hn_maxSegmentSize hn)) (io_fs w1)))"

text \<open>The playlist case: all the library reads of the limited body, and the error that ended it.\<close>

definition parseFile :: "nat \<Rightarrow> m3u8_api \<Rightarrow> (string \<Rightarrow> faults) \<Rightarrow> 's reader \<Rightarrow> 's \<Rightarrow> string \<Rightarrow> string \<Rightarrow> Stream \<Rightarrow>
    Handler \<times> io \<Rightarrow> (handler_error option \<times> Handler \<times> io) go option" where
  "parseFile fuel api flt R input slug outputPath stream st =
     (case st of (hn, w) \<Rightarrow>
        (case GetHLSParser slug (dir outputPath) (hn_playlistSize hn) stream of (hls, stream1) \<Rightarrow>
           map_option
             (\<lambda>src. go_bind (ParsePlaylist api flt outputPath src (hls, w)) (\<lambda>(err, hls', w').
                let stream2 = stream1\<lparr>st_parsers := (st_parsers stream1)(ParserTypeHLS \<mapsto> hls')\<rparr>
                in Inr (map_option ParserError err,
                        hn\<lparr>hn_store := (hn_store hn)\<lparr>ss_data := (ss_data (hn_store hn))(slug \<mapsto> stream2)\<rparr>\<rparr>, w')))
             (io_copy fuel None (LimitReader_Read R) (LimitReads input (hn_maxPlaylistSize hn)) '''')))"

definition HandleFile :: "nat \<Rightarrow> m3u8_api \<Rightarrow> (string \<Rightarrow> faults) \<Rightarrow> time \<Rightarrow> 's reader \<Rightarrow> 's \<Rightarrow> string \<Rightarrow> string \<Rightarrow>
    Handler \<times> io \<Rightarrow> (handler_error option \<times> Handler \<times> io) go option" where
  "HandleFile fuel api flt now R input slug outputPath st =
     (case st of (hn, w) \<Rightarrow>
        case GetStream slug (hn_store hn) of
          None \<Rightarrow> Some (Inr (Some (UnknownStream slug), hn, w))
        | Some stream \<Rightarrow>
            let w1 = send (KeepFile (dir outputPath) (st_alive stream)) w;
                e = ext outputPath
            in if e = ''.m3u8'' then parseFile fuel api flt R input slug outputPath stream (hn, w1)
               else if e = ''.mpd'' then Some (Inr (None, hn, w1))
               else if e = ''.jpg'' \<or> e = ''.jpeg'' then
                 storeFile fuel flt now R input outputPath (hn, send (KeepFile outputPath (st_alive stream)) w1)
               else storeFile fuel flt now R input outputPath (hn, w1))"

section \<open>The server\<close>

record upload_request =
  rq_method :: string
  rq_path :: string
  rq_basicAuth :: "(string \<times> string) option"
  rq_forwardedFor :: "string list"
  rq_remoteAddr :: string

text \<open>\<open>net.SplitHostPort\<close>: the host, or \<open>None\<close> for an error.\<close>

definition splitHostPort :: "string \<Rightarrow> string option" where
  "splitHostPort hp =
     (if CHR '':'' \<notin> set hp then None
      else
        let port = rev (takeWhile (\<lambda>c. c \<noteq> CHR '':'') (rev hp));
            i = length hp - length port - 1
        in if hd hp = CHR ''['' then
             (if CHR '']'' \<notin> set hp then None
              else
                let end = length (takeWhile (\<lambda>c. c \<noteq> CHR '']'') hp)
                in if end + 1 \<noteq> i then None
                   else if CHR ''['' \<in> set (drop 1 hp) \<or> CHR '']'' \<in> set (drop (end + 1) hp) then None
                   else Some (take (end - 1) (drop 1 hp)))
           else
             let host = take i hp
             in if CHR '':'' \<in> set host then None
                else if CHR ''['' \<in> set hp \<or> CHR '']'' \<in> set hp then None
                else Some host)"

definition requestHost :: "upload_request \<Rightarrow> string option" where
  "requestHost req =
     (case rq_forwardedFor req of
        v # vs \<Rightarrow> if v \<noteq> '''' then Some (hd (split (CHR '','') v)) else splitHostPort (rq_remoteAddr req)
      | [] \<Rightarrow> splitHostPort (rq_remoteAddr req))"

definition authenticate :: "(string \<Rightarrow> string \<Rightarrow> string \<Rightarrow> (string \<times> bool) go) \<Rightarrow> upload_request \<Rightarrow> (string \<times> bool) go" where
  "authenticate auth req =
     (case rq_basicAuth req of
        None \<Rightarrow> Inr ('''', False)
      | Some (username, password) \<Rightarrow> auth username password (rq_path req))"

text \<open>\<open>HandleUpload\<close>: the status of the response and the new state.\<close>

definition HandleUpload :: "nat \<Rightarrow> m3u8_api \<Rightarrow> (string \<Rightarrow> faults) \<Rightarrow> time \<Rightarrow>
    (string \<Rightarrow> string \<Rightarrow> string \<Rightarrow> (string \<times> bool) go) \<Rightarrow> string \<Rightarrow> upload_request \<Rightarrow> 's reader \<Rightarrow> 's \<Rightarrow>
    Handler \<times> io \<Rightarrow> (nat \<times> Handler \<times> io) go option" where
  "HandleUpload fuel api flt now auth outputPath req R body st =
     (case authenticate auth req of
        Inl p \<Rightarrow> Some (Inl p)
      | Inr (slug, ok) \<Rightarrow>
          if \<not> ok then Some (Inr (401, st))
          else
            let path = joinPath [outputPath, rq_path req]
            in case requestHost req of
                 None \<Rightarrow> Some (Inr (500, st))
               | Some host \<Rightarrow>
                   (case Validate slug path host now st of (err, st1) \<Rightarrow>
                      if err \<noteq> None then Some (Inr (403, st1))
                      else if rq_method req = ''PUT'' \<or> rq_method req = ''POST'' then
                        map_option
                          (\<lambda>res. go_bind res (\<lambda>(err, st2). Inr (if err \<noteq> None then 500 else 200, st2)))
                          (HandleFile fuel api flt now R body slug path st1)
                      else if rq_method req = ''DELETE'' then Some (Inr (200, st1))
                      else Some (Inr (405, st1))))"

section \<open>Uploads that are let through\<close>

text \<open>What has to hold for a request to reach \<open>HandleFile\<close>, and the state it finds there.\<close>

definition admitted :: "(string \<Rightarrow> string \<Rightarrow> string \<Rightarrow> (string \<times> bool) go) \<Rightarrow> string \<Rightarrow> time \<Rightarrow> upload_request \<Rightarrow> string \<Rightarrow>
    Handler \<times> io \<Rightarrow> Handler \<times> io \<Rightarrow> bool" where
  "admitted auth outputPath now req slug st st1 \<longleftrightarrow>
     authenticate auth req = Inr (slug, True)
     \<and> (\<exists>host. requestHost req = Some host \<and> Validate slug (joinPath [outputPath, rq_path req]) host now st = (None, st1))"

lemma admitted_HandleUpload:
  assumes "admitted auth outputPath now req slug st st1" "rq_method req = ''PUT'' \<or> rq_method req = ''POST''"
  shows "HandleUpload fuel api flt now auth outputPath req R body st =
    map_option (\<lambda>res. go_bind res (\<lambda>(err, st2). Inr (if err \<noteq> None then 500 else 200, st2)))
      (HandleFile fuel api flt now R body slug (joinPath [outputPath, rq_path req]) st1)"
  using assms by (auto simp: admitted_def HandleUpload_def Let_def)

lemma Validate_stream:
  assumes "Validate slug path host now (hn, w) = (None, hn1, w1)"
  shows "\<exists>s. GetStream slug (hn_store hn1) = Some s \<and> st_origin s = host \<and> st_ttl s = st_timeout s"
    and "io_fs w1 = io_fs w" "io_sent w1 = io_sent w" "hn_maxSegmentSize hn1 = hn_maxSegmentSize hn"
  using assms
  by (auto simp: Validate_def UpdateStream_def Stream_Update_def GetStream_def split: prod.splits option.splits if_splits)

definition is_segment_name :: "string \<Rightarrow> bool" where
  "is_segment_name name \<longleftrightarrow> ext name \<notin> {''.m3u8'', ''.mpd'', ''.jpg'', ''.jpeg''}"

lemma CopyFile_frame:
  assumes "CopyFile fuel f path R src s = Some (Inr (states, err))" "q \<noteq> path" "q \<noteq> tmpPath path"
  shows "last states q = s q"
proof -
  have op: "\<not> f_open f" using assms(1) by (auto simp: CopyFile_def aw_open_def split: if_splits)
  let ?s1 = "s(tmpPath path \<mapsto> '''')"
  obtain e s2 where cp: "aw_copy fuel f path R src ?s1 = Some (e, s2)"
    using assms(1) op by (auto simp: CopyFile_def aw_open_def)
  then have fin: "last states = snd (aw_finish f path e s2)"
    using assms(1) op by (auto simp: CopyFile_def aw_open_def split: prod.splits)
  have "s2 q = s q"
    using cp assms(3) by (auto simp: aw_copy_def aw_close_def split: prod.splits option.splits)
  moreover have "snd (aw_finish f path e s2) q = s2 q"
    using assms(2,3) by (auto simp: aw_finish_def Let_def)
  ultimately show ?thesis using fin by simp
qed

lemma storeFile_frame:
  assumes "storeFile fuel flt now R input path (hn, w) = Some (Inr (err, hn', w'))" "q \<noteq> path" "q \<noteq> tmpPath path"
  shows "io_fs w' q = io_fs w q"
  using assms CopyFile_frame [of fuel "flt path" path "LimitReader_Read R" "LimitReads input (hn_maxSegmentSize hn)" "io_fs w" _ _ q]
  by (auto simp: storeFile_def send_def Let_def)

lemma HandleFile_frame:
  assumes "HandleFile fuel api flt now R input slug path (hn, w) = Some (Inr (err, hn', w'))" "ext path \<noteq> ''.m3u8''"
    and "q \<noteq> path" "q \<noteq> tmpPath path"
  shows "io_fs w' q = io_fs w q"
  using assms
  by (auto simp: HandleFile_def Let_def send_def split: option.splits if_splits dest!: storeFile_frame)

lemma segment_upload_at:
  assumes adm: "admitted auth outputPath now req slug (hn, w) (hn1, w1)"
    and req: "rq_method req = ''PUT''" "joinPath [outputPath, rq_path req] = abs_path (es @ [name])"
    and plain: "list_all plain_elem es" "plain_elem name" "is_segment_name name"
    and body: "body_ok cs" "length (concat cs) < fuel"
  shows "\<exists>s w2. GetStream slug (hn_store hn1) = Some s
    \<and> HandleUpload fuel api (\<lambda>_. no_faults) now auth outputPath req (body_read eager) cs (hn, w) =
        Some (Inr (if within_limit eager (hn_maxSegmentSize hn) (concat cs) then 200 else 500, hn1, w2))
    \<and> (let path = abs_path (es @ [name])
       in io_fs w2 = (if within_limit eager (hn_maxSegmentSize hn) (concat cs)
                      then (io_fs w)(path \<mapsto> concat cs, tmpPath path := None) else (io_fs w)(tmpPath path := None))
        \<and> io_sent w2 = io_sent w @ [KeepFile (abs_path es) (st_alive s), RegisterFile path (now + 30 * second)])"
proof -
  let ?path = "abs_path (es @ [name])"
  obtain host where "Validate slug ?path host now (hn, w) = (None, hn1, w1)"
    using adm by (auto simp: admitted_def req(2))
  note val = Validate_stream [OF this]
  obtain s where s: "GetStream slug (hn_store hn1) = Some s" using val(1) by blast
  have dir: "dir ?path = abs_path es"
    using dir_abs_path [of es name] plain by simp
  have ext: "ext ?path = ext name"
    using ext_abs_path [of name es] plain by simp
  let ?w1 = "send (KeepFile (abs_path es) (st_alive s)) w1"
  obtain s1 s2 where cp: "CopyFile fuel no_faults ?path (LimitReader_Read (body_read eager)) (LimitReads cs (hn_maxSegmentSize hn)) (io_fs w) =
      Some (Inr ([s1, s2, if within_limit eager (hn_maxSegmentSize hn) (concat cs)
         then (io_fs w)(?path \<mapsto> concat cs, tmpPath ?path := None) else (io_fs w)(tmpPath ?path := None)],
       if within_limit eager (hn_maxSegmentSize hn) (concat cs) then None else Some ErrLargeFile))"
    using CopyFile_no_faults [OF body] by blast
  let ?in = "within_limit eager (hn_maxSegmentSize hn) (concat cs)"
  define w2 where "w2 = (send (RegisterFile ?path (now + 30 * second)) ?w1)\<lparr>io_fs :=
    (if ?in then (io_fs w)(?path \<mapsto> concat cs, tmpPath ?path := None) else (io_fs w)(tmpPath ?path := None))\<rparr>"
  have "HandleFile fuel api (\<lambda>_. no_faults) now (body_read eager) cs slug ?path (hn1, w1) =
      Some (Inr (if ?in then None else Some (CopyError ErrLargeFile), hn1, w2))"
    using s cp val(2,4) plain(3)
    by (simp add: HandleFile_def storeFile_def is_segment_name_def dir ext w2_def send_def Let_def)
  then have "HandleUpload fuel api (\<lambda>_. no_faults) now auth outputPath req (body_read eager) cs (hn, w) =
      Some (Inr (if ?in then 200 else 500, hn1, w2))"
    unfolding admitted_HandleUpload [OF adm disjI1 [OF req(1)]] req(2) by simp
  with s val(3) show ?thesis
    by (auto simp: w2_def send_def Let_def)
qed

lemma segment_upload:
  assumes adm: "admitted auth (abs_path out) now req slug (hn, w) (hn1, w1)"
    and req: "rq_method req = ''PUT''" "rq_path req = abs_path (es @ [name])"
    and plain: "list_all plain_elem out" "list_all plain_elem es" "plain_elem name" "is_segment_name name"
    and body: "body_ok cs" "length (concat cs) < fuel"
  shows "\<exists>s w2. GetStream slug (hn_store hn1) = Some s
    \<and> HandleUpload fuel api (\<lambda>_. no_faults) now auth (abs_path out) req (body_read eager) cs (hn, w) =
        Some (Inr (if within_limit eager (hn_maxSegmentSize hn) (concat cs) then 200 else 500, hn1, w2))
    \<and> (let path = abs_path (out @ es @ [name])
       in io_fs w2 = (if within_limit eager (hn_maxSegmentSize hn) (concat cs)
                      then (io_fs w)(path \<mapsto> concat cs, tmpPath path := None) else (io_fs w)(tmpPath path := None))
        \<and> io_sent w2 = io_sent w @ [KeepFile (abs_path (out @ es)) (st_alive s), RegisterFile path (now + 30 * second)])"
proof -
  have "joinPath [abs_path out, rq_path req] = abs_path ((out @ es) @ [name])" using req(2) plain by simp
  from segment_upload_at [OF adm req(1) this _ plain(3,4) body] show ?thesis using plain by (simp only: list_all_append append_assoc)
qed

section \<open>Properties\<close>


text \<open>C18. Requests that are turned away write nothing. Whatever the request, if it is answered with 401
  or 403, or is neither PUT nor POST, no file changes and nothing is sent to the registry; a 401
  changes nothing at all, nor does a 403 for a stream that is known.\<close>

theorem refused_changes_no_file:
  assumes "HandleUpload fuel api flt now auth outputPath req R body (hn, w) = Some (Inr (code, hn', w'))"
    and "code = 401 \<or> code = 403 \<or> rq_method req \<notin> {''PUT'', ''POST''}"
  shows "io_fs w' = io_fs w \<and> io_sent w' = io_sent w \<and> (code = 401 \<longrightarrow> (hn', w') = (hn, w))
    \<and> (code = 403 \<longrightarrow> (\<forall>slug. authenticate auth req = Inr (slug, True) \<longrightarrow>
         GetStream slug (hn_store hn) \<noteq> None \<longrightarrow> (hn', w') = (hn, w)))"
proof -
  have val: "io_fs w1 = io_fs w \<and> io_sent w1 = io_sent w
      \<and> (err \<noteq> None \<longrightarrow> GetStream slug (hn_store hn) \<noteq> None \<longrightarrow> (hn1, w1) = (hn, w))"
    if "Validate slug p host now (hn, w) = (err, hn1, w1)" for slug p host err hn1 w1
    using that by (auto simp: Validate_def UpdateStream_def Stream_Update_def GetStream_def map_upd_triv
        split: prod.splits option.splits if_splits)
  have codes: "HandleFile fuel api flt now R body slug p st1 = Some res \<Longrightarrow>
      go_bind res (\<lambda>(err, st2). Inr (if err \<noteq> None then 500 else 200, st2)) = Inr (c, st2) \<Longrightarrow>
      c \<noteq> 401 \<and> c \<noteq> (403::nat)" for slug p st1 res c st2
    by (cases res) (auto split: if_splits prod.splits)
  show ?thesis
    using assms
    by (auto simp: HandleUpload_def Let_def split: sum.splits prod.splits if_splits option.splits
        dest!: val codes)
qed

text \<open>Confinement: with the static access list and a path that never leads above the root, whatever a request other than
  a playlist upload does, it changes at most one file and its temporary file, in an allowed directory below the output
  directory and there in the directory of the slug, or the file is the slug itself.\<close>

lemma HandleUpload_confined:
  assumes "list_all2 names_dir ds (AllowedDirs conf)" "list_all (list_all plain_elem) ds" "NewStaticAuth conf = Inr a"
    and "isAbs (rq_path req)" "stays_below 0 (split slash (rq_path req))"
    and "clean (rq_path req) \<noteq> [slash]" "ext (clean (rq_path req)) \<noteq> ''.m3u8''" "list_all plain_elem out"
    and "HandleUpload fuel api flt now (Auth matchSimple a) (abs_path out) req R body (hn, w) = Some (Inr (code, hn', w'))"
  shows "io_fs w' = io_fs w
    \<or> (\<exists>d slug rest. d \<in> set ds \<and> list_all plain_elem (slug # rest) \<and> clean (rq_path req) = abs_path (d @ slug # rest) \<and>
         (\<forall>q. q \<noteq> abs_path (out @ d @ slug # rest) \<longrightarrow> q \<noteq> tmpPath (abs_path (out @ d @ slug # rest)) \<longrightarrow>
              io_fs w' q = io_fs w q))"
proof (cases "authenticate (Auth matchSimple a) req")
  case (Inl p)
  with assms(9) show ?thesis by (simp add: HandleUpload_def)
next
  case (Inr r)
  obtain slug ok where r: "r = (slug, ok)" by force
  obtain es where es: "list_all plain_elem es" "clean (rq_path req) = abs_path es" using clean_abs_elems [OF assms(4)] .
  then have ne: "es \<noteq> []" using assms(6) by (auto simp: abs_path_def)
  let ?path = "abs_path (out @ es)"
  have path: "joinPath [abs_path out, rq_path req] = ?path" by (rule joinPath_below [OF assms(8,4,5) es(2,1)])
  obtain fs name where fs: "es = fs @ [name]" "plain_elem name" using ne es(1) by (cases es rule: rev_cases) auto
  then have e: "ext ?path \<noteq> ''.m3u8''"
    using assms(7) es(2) ext_abs_path [of name fs] ext_abs_path [of name "out @ fs"] by simp
  show ?thesis
  proof (cases ok)
    case False
    with Inr r assms(9) show ?thesis by (simp add: HandleUpload_def)
  next
    case True
    then obtain u p where granted: "Auth matchSimple a u p (rq_path req) = Inr (slug, True)"
      using Inr r by (auto simp: authenticate_def split: option.splits)
    from Auth_sound [OF assms(1-3) es(2,1) ne granted] obtain d rest where d: "d \<in> set ds" "es = d @ slug # rest" by blast
    have fr: "io_fs w1 = io_fs w" if "Validate slug ?path host now (hn, w) = (er, hn1, w1)" for host er hn1 w1
      using that by (auto simp: Validate_def UpdateStream_def split: prod.splits)
    have "\<forall>q. q \<noteq> ?path \<longrightarrow> q \<noteq> tmpPath ?path \<longrightarrow> io_fs w' q = io_fs w q"
      using assms(9) Inr r True
      by (auto simp: HandleUpload_def path Let_def split: prod.splits if_splits option.splits
          dest!: fr HandleFile_frame [OF _ e])
    with d es show ?thesis by auto
  qed
qed

text \<open>A file that is uploaded directly into an allowed directory, its own name being the slug, makes
  the handler put that whole directory, with every stream in it, under the \<open>alive\<close> channel of the
  one stream: once that stream ends, and with the next ticks of the registry, \<open>os.RemoveAll\<close> is called on
  the allowed directory.\<close>

lemma flat_upload_removes_allowed_dir:
  assumes adm: "admitted auth (abs_path out) now req name (hn, w) (hn1, w1)"
    and req: "rq_method req = ''PUT''" "rq_path req = abs_path (d @ [name])"
    and plain: "list_all plain_elem out" "list_all plain_elem d" "plain_elem name" "is_segment_name name"
    and body: "body_ok cs" "length (concat cs) < fuel"
  shows "\<exists>s code w2. GetStream name (hn_store hn1) = Some s
    \<and> HandleUpload fuel api (\<lambda>_. no_faults) now auth (abs_path out) req (body_read eager) cs (hn, w) = Some (Inr (code, hn1, w2))
    \<and> KeepFile (abs_path (out @ d)) (st_alive s) \<in> set (io_sent w2)
    \<and> (let r1 = registry_add (KeepFile (abs_path (out @ d)) (st_alive s)) r;
           ticks = [RegTick ch t clk order, RegTick ch2 t2 clk2 order2]
       in registry_run_ok r1 ticks \<longrightarrow> st_alive s \<in> closed ch \<longrightarrow>
          clk (abs_path (out @ d)) + KeepDelay (fr_config r) \<le> t2 \<longrightarrow>
          abs_path (out @ d) \<in> set (fst (registry_run r1 ticks)))"
proof -
  obtain s w2 where up: "GetStream name (hn_store hn1) = Some s"
    "HandleUpload fuel api (\<lambda>_. no_faults) now auth (abs_path out) req (body_read eager) cs (hn, w) =
        Some (Inr (if within_limit eager (hn_maxSegmentSize hn) (concat cs) then 200 else 500, hn1, w2))"
    "io_sent w2 = io_sent w @ [KeepFile (abs_path (out @ d)) (st_alive s),
       RegisterFile (abs_path (out @ d @ [name])) (now + 30 * second)]"
    using segment_upload [OF adm req plain body, of api eager] by (auto simp: Let_def)
  let ?r1 = "registry_add (KeepFile (abs_path (out @ d)) (st_alive s)) r"
  have "registry_holds ?r1 (abs_path (out @ d)) (st_alive s)" by (rule reg.holds_keep)
  from released_path_removed [OF this, of ch t clk order "[]" ch2 t2 clk2 order2]
  have "registry_run_ok ?r1 [RegTick ch t clk order, RegTick ch2 t2 clk2 order2] \<longrightarrow> st_alive s \<in> closed ch \<longrightarrow>
      clk (abs_path (out @ d)) + KeepDelay (fr_config r) \<le> t2 \<longrightarrow>
      abs_path (out @ d) \<in> set (fst (registry_run ?r1 [RegTick ch t clk order, RegTick ch2 t2 clk2 order2]))"
    by (simp only: registry_add_config append_Nil list.pred_inject(1)) blast
  with up show ?thesis by (auto simp: Let_def)
qed

section \<open>Examples\<close>

definition demo_lib :: m3u8_api where
  "demo_lib = \<lparr>m3u8_Read = (\<lambda>r. Inl ''empty''), m3u8_Write = (\<lambda>p. Inr ''out''), m3u8_IsMaster = (\<lambda>p. False),
     m3u8_SegmentSize = (\<lambda>p. segments_in (pl_items p))\<rparr>"

definition demo_server :: Handler where
  "demo_server = NewHandler \<lparr>sc_addr = ''localhost:8080'', sc_outputPath = ''/out'', sc_maxSegmentSize = 100, sc_maxPlaylistSize = 100,
     sc_streamTimeout = 0, sc_streamOriginDuration = 0, sc_playlistSize = 10\<rparr>"

definition demo_request :: "string \<Rightarrow> upload_request" where
  "demo_request path = \<lparr>rq_method = ''PUT'', rq_path = path, rq_basicAuth = Some (''u'', ''p''),
     rq_forwardedFor = [''10.0.0.1,proxy''], rq_remoteAddr = ''h:1''\<rparr>"

definition demo_admitted :: "string \<Rightarrow> Handler \<times> io" where
  "demo_admitted slug = (demo_server\<lparr>hn_store := (hn_store demo_server)\<lparr>ss_data := [slug \<mapsto>
      \<lparr>st_slug = slug, st_timeout = 10 * second, st_originTimeout = 6 * second, st_ttl = 10 * second,
       st_origin = ''10.0.0.1'', st_originUpdated = 100 * second, st_alive = 0, st_parsers = Map.empty\<rparr>]\<rparr>\<rparr>,
     demo_store_io\<lparr>io_chans := \<lparr>next_chan = 1, closed = {}\<rparr>\<rparr>)"

lemma demo_admitted:
  "admitted (\<lambda>u p path. Inr (slug, True)) out (100 * second) (demo_request path) slug (demo_server, demo_store_io) (demo_admitted slug)"
  by (simp add: admitted_def authenticate_def demo_request_def requestHost_def Validate_def UpdateStream_def
      demo_server_def NewHandler_def NewStreamStore_def NewStream_def make_chan_def Stream_Update_def demo_store_io_def
      no_chans_def demo_admitted_def DefaultStreamTimeout_def DefaultStreamOriginDuration_def second_def Let_def)

lemma demo_plain: "list_all plain_elem [''out'']" "list_all plain_elem [''hls'', ''s2'']" "list_all plain_elem [''hls'']"
  "plain_elem ''a.ts''" "is_segment_name ''a.ts''"
  by code_simp+


theorem refused_changes_no_file_witness:
  "\<exists>hn' w'. HandleUpload 10 demo_lib (\<lambda>_. no_faults) 0 (\<lambda>u p path. Inr ('''', False)) ''/out'' (demo_request ''/x'')
       (body_read False) [''ab''] (demo_server, demo_store_io) = Some (Inr (401, hn', w')) \<and> io_fs w' = io_fs demo_store_io"
proof -
  have res: "HandleUpload 10 demo_lib (\<lambda>_. no_faults) 0 (\<lambda>u p path. Inr ('''', False)) ''/out'' (demo_request ''/x'')
       (body_read False) [''ab''] (demo_server, demo_store_io) = Some (Inr (401, demo_server, demo_store_io))"
    by (simp add: HandleUpload_def authenticate_def demo_request_def)
  show ?thesis
    using res refused_changes_no_file [OF res] by blast
qed

end
