(* ===== verification/ServerRun.thy ===== *)
theory ServerRun
  imports System UploadServer
begin

text \<open>
  The whole upload server (\<open>src/upload\<close>) at work: requests of any number of streams go through \<open>HandleUpload\<close>, the stream
  store ticks and removes idle streams, and the registry takes entries from its queue and ticks, in any
  interleaving. Theory \<open>System\<close> has this for the parser of a single stream; here streams share the registry, the channels and the
  file system, and come and go.

  A request and a tick of the store are one step each. What is asked of requests (\<open>request_ok\<close>) is that directories can be
  created, that new segments have new names, and that streams do not ask for each other's files.
\<close>

section \<open>Channels a parser touches\<close>

definition own_chans :: "HLSParser \<Rightarrow> nat set" where
  "own_chans h = (case h_files h of None \<Rightarrow> {} | Some m \<Rightarrow> ran m)"

text \<open>A parser closes only channels of its own, and gets only new ones.\<close>

definition touches :: "HLSParser \<times> io \<Rightarrow> HLSParser \<times> io \<Rightarrow> bool" where
  "touches st st' \<longleftrightarrow>
     closed (io_chans (snd st')) \<subseteq> closed (io_chans (snd st)) \<union> own_chans (fst st) \<union> {next_chan (io_chans (snd st))..}
     \<and> own_chans (fst st') \<subseteq> own_chans (fst st) \<union> {next_chan (io_chans (snd st))..}
     \<and> next_chan (io_chans (snd st)) \<le> next_chan (io_chans (snd st'))"

lemma ran_upd_subset: "ran (m(p := x)) \<subseteq> ran m \<union> set_option x"
  by (auto simp: ran_def split: if_splits)

interpretation touch: parser_effect touches
proof
  fix name st st' st''
  show "touches st st'" if "keepFile name st = Inr st'"
    using that by (cases st; cases st')
      (auto simp: keepFile_def make_chan_def touches_def own_chans_def send_def Let_def split: option.splits dest!: subsetD [OF ran_upd_subset])
  show "touches st st'" if "expireFile name st = Inr st'"
    using that by (cases st; cases st')
      (auto simp: expireFile_def close_chan_def touches_def own_chans_def Let_def go_bind_Inr_iff split: option.splits if_splits
        dest!: subsetD [OF ran_upd_subset] intro: ranI)
  show "touches st st''" if "touches st st'" "touches st' st''"
    using that by (fastforce simp: touches_def)
qed (auto simp: touches_def own_chans_def)

section \<open>The invariant of the handler\<close>

definition parsers_ok :: "Handler \<Rightarrow> io \<Rightarrow> bool" where
  "parsers_ok hn w \<longleftrightarrow> (\<forall>slug s h. ss_data (hn_store hn) slug = Some s \<longrightarrow> st_parsers s ParserTypeHLS = Some h \<longrightarrow> parser_inv (h, w))"

definition handler_inv :: "Handler \<times> io \<Rightarrow> bool" where
  "handler_inv st = (case st of (hn, w) \<Rightarrow>
     store_ok (hn_store hn, w) \<and> log_ok w \<and> 0 < hn_playlistSize hn \<and> parsers_ok hn w)"

lemma last_keep_avoid:
  "\<forall>e \<in> set es. fe_keep e \<noteq> None \<longrightarrow> fe_path e \<noteq> p \<Longrightarrow> last_keep es p = None"
  by (induction es) auto

text \<open>A parser does not notice what happens to other channels and paths.\<close>

lemma parser_inv_frame:
  assumes "parser_inv (h, w)" "chans_wf (io_chans w')"
    and "\<And>c. c \<in> own_chans h \<Longrightarrow> open_chan (io_chans w') c"
    and "\<And>m p c. h_files h = Some m \<Longrightarrow> m p = Some c \<Longrightarrow> last_keep (io_sent w') p = last_keep (io_sent w) p"
  shows "parser_inv (h, w')"
proof -
  obtain m where m: "h_files h = Some m" "files_ok w m" using assms(1) by (auto simp: parser_inv_def)
  have "open_chan (io_chans w') c" if "m p = Some c" for p c
    using assms(3) that m(1) by (auto simp: own_chans_def ran_def)
  with m assms(2,4) have "files_ok w' m" by (auto simp: files_ok_def)
  with assms(1) m show ?thesis by (auto simp: parser_inv_def)
qed

lemma own_chans_stream:
  "st_parsers s ParserTypeHLS = Some h \<Longrightarrow> own_chans h = ran (files_of s)"
  by (simp add: own_chans_def files_of_def split: option.splits)

lemma stream_own_chans: "st_parsers s ParserTypeHLS = Some h \<Longrightarrow> own_chans h \<subseteq> stream_chans s"
  by (auto simp: own_chans_stream stream_chans_def)

lemma files_of_parser: "st_parsers s ParserTypeHLS = Some h \<Longrightarrow> h_files h = Some m \<Longrightarrow> files_of s = m"
  by (simp add: files_of_def)

text \<open>Entries that name no kept path do no harm.\<close>

definition spares :: "StreamStore \<Rightarrow> string \<Rightarrow> FileEntry list \<Rightarrow> bool" where
  "spares store slug es \<longleftrightarrow> (\<forall>e \<in> set es. fe_keep e \<noteq> None \<longrightarrow>
     (\<forall>slug' s. slug' \<noteq> slug \<longrightarrow> ss_data store slug' = Some s \<longrightarrow> fe_path e \<notin> dom (files_of s)))"

lemma handler_inv_send:
  assumes "handler_inv (hn, w)" "\<forall>c. fe_keep e = Some c \<longrightarrow> c < next_chan (io_chans w)"
    and "\<forall>slug s. fe_keep e \<noteq> None \<longrightarrow> ss_data (hn_store hn) slug = Some s \<longrightarrow> fe_path e \<notin> dom (files_of s)"
  shows "handler_inv (hn, send e w)"
proof -
  have "parser_inv (h, send e w)" if s: "ss_data (hn_store hn) slug = Some s" "st_parsers s ParserTypeHLS = Some h" for slug s h
  proof (rule parser_inv_frame)
    show inv: "parser_inv (h, w)" using assms(1) s by (auto simp: handler_inv_def parsers_ok_def)
    show "chans_wf (io_chans (send e w))" using assms(1) by (simp add: handler_inv_def store_ok_def send_def)
    show "open_chan (io_chans (send e w)) c" if "c \<in> own_chans h" for c
      using assms(1) s that stream_own_chans [OF s(2)] by (auto simp: handler_inv_def store_ok_def stream_ok_def send_def)
    show "last_keep (io_sent (send e w)) p = last_keep (io_sent w) p" if "h_files h = Some m" "m p = Some c" for m p c
      using assms(3) s files_of_parser [OF s(2) that(1)] that(2) by (fastforce simp: send_def last_keep_snoc)
  qed
  with assms(1,2) show ?thesis
    by (auto simp: handler_inv_def parsers_ok_def log_ok_def send_def store_ok_def)
qed

lemma handler_inv_fs: "handler_inv (hn, w\<lparr>io_fs := x\<rparr>) = handler_inv (hn, w)"
  by (simp add: handler_inv_def store_ok_def log_ok_def parsers_ok_def parser_inv_def files_ok_def)

lemma handler_inv_frame:
  assumes "handler_inv (hn, w)" "store_ok (hn_store hn', w')" "log_ok w'" "hn_playlistSize hn' = hn_playlistSize hn"
    and "\<And>slug s' h. ss_data (hn_store hn') slug = Some s' \<Longrightarrow> st_parsers s' ParserTypeHLS = Some h \<Longrightarrow>
      parser_inv (h, w') \<or> (\<exists>s. ss_data (hn_store hn) slug = Some s \<and> st_parsers s ParserTypeHLS = Some h
        \<and> (\<forall>p \<in> dom (files_of s). last_keep (io_sent w') p = last_keep (io_sent w) p))"
  shows "handler_inv (hn', w')"
proof -
  have "parser_inv (h, w')" if s': "ss_data (hn_store hn') slug = Some s'" "st_parsers s' ParserTypeHLS = Some h" for slug s' h
    using assms(5) [OF s']
  proof
    assume "\<exists>s. ss_data (hn_store hn) slug = Some s \<and> st_parsers s ParserTypeHLS = Some h
      \<and> (\<forall>p \<in> dom (files_of s). last_keep (io_sent w') p = last_keep (io_sent w) p)"
    then obtain s where s: "ss_data (hn_store hn) slug = Some s" "st_parsers s ParserTypeHLS = Some h"
      "\<forall>p \<in> dom (files_of s). last_keep (io_sent w') p = last_keep (io_sent w) p" by blast
    show ?thesis
    proof (rule parser_inv_frame)
      show "parser_inv (h, w)" using assms(1) s by (auto simp: handler_inv_def parsers_ok_def)
      show "chans_wf (io_chans w')" using assms(2) by (simp add: store_ok_def)
      show "open_chan (io_chans w') c" if "c \<in> own_chans h" for c
        using assms(2) s'(1) that stream_own_chans [OF s'(2)] by (auto simp: store_ok_def stream_ok_def)
      show "last_keep (io_sent w') p = last_keep (io_sent w) p" if "h_files h = Some m" "m p = Some c" for m p c
        using s(3) files_of_parser [OF s(2) that(1)] that(2) by auto
    qed
  qed
  with assms(1-4) show ?thesis by (auto simp: handler_inv_def parsers_ok_def)
qed

section \<open>Steps of the handler\<close>

text \<open>Admitting a request changes no parser.\<close>

definition same_parsers :: "StreamStore \<Rightarrow> StreamStore \<Rightarrow> bool" where
  "same_parsers store store' \<longleftrightarrow> (\<forall>slug s'. ss_data store' slug = Some s' \<longrightarrow>
     st_parsers s' = (case ss_data store slug of None \<Rightarrow> Map.empty | Some s \<Rightarrow> st_parsers s))"

lemma same_parsers_files:
  "same_parsers store store' \<Longrightarrow> ss_data store' slug = Some s' \<Longrightarrow>
   files_of s' = (case ss_data store slug of None \<Rightarrow> Map.empty | Some s \<Rightarrow> files_of s)"
  by (auto simp: same_parsers_def files_of_def split: option.splits)

lemma Validate_inv:
  assumes "handler_inv (hn, w)" "Validate slug path host now (hn, w) = (err, hn1, w1)"
  shows "handler_inv (hn1, w1)" "extends_io w w1" "io_sent w1 = io_sent w" "same_parsers (hn_store hn) (hn_store hn1)"
    "hn_playlistSize hn1 = hn_playlistSize hn" "hn_maxPlaylistSize hn1 = hn_maxPlaylistSize hn"
proof -
  have upd: "snd (UpdateStream slug host now (hn_store hn, w)) = (hn_store hn1, w1)"
    using assms(2) by (auto simp: Validate_def split: prod.splits)
  show sent: "io_sent w1 = io_sent w" and same: "same_parsers (hn_store hn) (hn_store hn1)" and ext: "extends_io w w1"
    and sz: "hn_playlistSize hn1 = hn_playlistSize hn" "hn_maxPlaylistSize hn1 = hn_maxPlaylistSize hn"
    using assms(2) by (auto simp: Validate_def UpdateStream_def NewStream_def make_chan_def Stream_Update_def same_parsers_def
        extends_io_def log_ok_def less_Suc_eq split: prod.splits option.splits if_splits)
  show "handler_inv (hn1, w1)"
  proof (rule handler_inv_frame [OF assms(1)])
    show "store_ok (hn_store hn1, w1)" using store_ok_update [of "hn_store hn" w slug host now] assms(1) upd by (simp add: handler_inv_def)
    show "log_ok w1" using ext assms(1) by (simp add: extends_io_def handler_inv_def)
    show "parser_inv (h, w1) \<or> (\<exists>s. ss_data (hn_store hn) slug' = Some s \<and> st_parsers s ParserTypeHLS = Some h
        \<and> (\<forall>p \<in> dom (files_of s). last_keep (io_sent w1) p = last_keep (io_sent w) p))"
      if "ss_data (hn_store hn1) slug' = Some s'" "st_parsers s' ParserTypeHLS = Some h" for slug' s' h
      using same that by (auto simp: same_parsers_def sent split: option.splits)
  qed (rule sz(1))
qed

lemma timeout_inv:
  assumes "handler_inv (hn, w)" "tick_ok order ords (hn_store hn, w)" "store_timeout order ords (hn_store hn, w) = Inr (store', w')"
  shows "handler_inv (hn\<lparr>hn_store := store'\<rparr>, w')" "extends_io w w'"
proof -
  have ok: "store_ok (hn_store hn, w)" using assms(1) by (simp add: handler_inv_def)
  from store_timeout_eq [OF ok assms(2)] assms(3) have eq:
    "store' = after_timeout (dom (ss_data (hn_store hn))) (hn_store hn)" "w' = close_all (timed_out (hn_store hn) (dom (ss_data (hn_store hn)))) w"
    by simp_all
  show ext: "extends_io w w'" unfolding eq by (auto simp: extends_io_def log_ok_def close_all_def)
  show "handler_inv (hn\<lparr>hn_store := store'\<rparr>, w')"
  proof (rule handler_inv_frame [OF assms(1)])
    show "store_ok (hn_store (hn\<lparr>hn_store := store'\<rparr>), w')" using store_ok_timeout [OF ok] by (simp add: eq)
    show "log_ok w'" using ext assms(1) by (simp add: extends_io_def handler_inv_def)
    show "parser_inv (h, w') \<or> (\<exists>s. ss_data (hn_store hn) slug = Some s \<and> st_parsers s ParserTypeHLS = Some h
        \<and> (\<forall>p \<in> dom (files_of s). last_keep (io_sent w') p = last_keep (io_sent w) p))"
      if "ss_data (hn_store (hn\<lparr>hn_store := store'\<rparr>)) slug = Some s'" "st_parsers s' ParserTypeHLS = Some h" for slug s' h
    proof -
      from that(1) obtain s where "ss_data (hn_store hn) slug = Some s" "aged (StreamExpireInterval (ss_config (hn_store hn))) s = Some s'"
        using after_timeout_all [of "hn_store hn" slug] by (auto simp: eq bind_eq_Some_conv simp del: after_timeout_simps)
      with that(2) show ?thesis by (auto simp: aged_Some eq)
    qed
  qed simp
qed

text \<open>The store with the parser of one stream replaced.\<close>

definition put_parser :: "string \<Rightarrow> Stream \<Rightarrow> HLSParser \<Rightarrow> StreamStore \<Rightarrow> StreamStore" where
  "put_parser slug s h store = store\<lparr>ss_data := (ss_data store)(slug \<mapsto> s\<lparr>st_parsers := (st_parsers s)(ParserTypeHLS \<mapsto> h)\<rparr>)\<rparr>"

lemma store_ok_put:
  assumes ok: "store_ok (store, w)" and s: "ss_data store slug = Some s"
    and tch: "touches (h, w) (h', w')" and own: "own_chans h \<subseteq> ran (files_of s)"
    and h': "h_files h' = Some m'" "files_ok w' m'"
  shows "store_ok (put_parser slug s h' store, w')"
proof -
  let ?n = "next_chan (io_chans w)" and ?s = "s\<lparr>st_parsers := (st_parsers s)(ParserTypeHLS \<mapsto> h')\<rparr>"
  have files: "files_of ?s = m'" "own_chans h' = ran m'" using h'(1) by (simp_all add: files_of_def own_chans_def)
  have wf: "chans_wf (io_chans w')" using h'(2) by (simp add: files_ok_def)
  have sok: "stream_ok (io_chans w) s" using ok s by (auto simp: store_ok_def)
  have low: "c < ?n" if "ss_data store k = Some t" "c \<in> stream_chans t" for k t c
    using ok that by (auto simp: store_ok_def stream_ok_def open_chan_def)
  have stays: "open_chan (io_chans w') c" if "open_chan (io_chans w) c" "c \<notin> ran (files_of s)" for c
    using tch own that by (fastforce simp: touches_def open_chan_def)
  have new: "stream_chans ?s \<subseteq> insert (st_alive s) (ran (files_of s)) \<union> {?n..}"
    using tch own files by (auto simp: stream_chans_def touches_def)
  have "st_alive s < ?n" using low [OF s] by (simp add: stream_chans_def)
  then have alive: "st_alive s \<notin> ran m'" using tch own files sok by (fastforce simp: touches_def stream_ok_def)
  have al_open: "open_chan (io_chans w') (st_alive s)" using stays sok by (auto simp: stream_ok_def stream_chans_def)
  have "open_chan (io_chans w') c" if "c \<in> ran m'" for c using h'(2) that by (auto simp: files_ok_def ran_def)
  with al_open alive h'(2) have s_ok: "stream_ok (io_chans w') ?s"
    by (auto simp: stream_ok_def stream_chans_def files files_ok_def)
  have apart: "stream_chans t \<inter> stream_chans s = {}" if "ss_data store k = Some t" "k \<noteq> slug" for k t
    using ok s that by (auto simp: store_ok_def)
  have other_ok: "stream_ok (io_chans w') t" if "ss_data store k = Some t" "k \<noteq> slug" for k t
  proof -
    have "stream_ok (io_chans w) t" using ok that(1) by (auto simp: store_ok_def)
    moreover have "ran (files_of s) \<subseteq> stream_chans s" by (auto simp: stream_chans_def)
    then have "c \<notin> ran (files_of s)" if "c \<in> stream_chans t" for c
      using apart [OF \<open>ss_data store k = Some t\<close> \<open>k \<noteq> slug\<close>] that by blast
    then have "open_chan (io_chans w') c" if "c \<in> stream_chans t" for c
      using stays [of c] calculation that by (auto simp: stream_ok_def)
    ultimately show ?thesis by (auto simp: stream_ok_def)
  qed
  have other_apart: "stream_chans t \<inter> stream_chans ?s = {}" if "ss_data store k = Some t" "k \<noteq> slug" for k t
    using new apart [OF that] low [OF that(1)] by (fastforce simp: stream_chans_def)
  show ?thesis
    using ok wf s_ok other_ok other_apart
    by (auto simp: store_ok_def put_parser_def Int_commute)
qed

lemma parse_inv:
  assumes inv: "handler_inv (hn, w)" and s: "ss_data (hn_store hn) slug = Some s"
    and hls: "hls = fst (GetHLSParser slug (dir path) (hn_playlistSize hn) s)"
    and al: "parse_allowed api (hls, w) (flt, path, src)"
  shows "\<exists>err hls' w'. ParsePlaylist api flt path src (hls, w) = Inr (err, hls', w') \<and> extends_io w w'
    \<and> (\<forall>new. io_sent w' = io_sent w @ new \<longrightarrow> spares (hn_store hn) slug new \<longrightarrow>
         handler_inv (hn\<lparr>hn_store := put_parser slug s hls' (hn_store hn)\<rparr>, w'))"
proof -
  have ok: "store_ok (hn_store hn, w)" and log: "log_ok w" and sz: "0 < hn_playlistSize hn" using inv by (simp_all add: handler_inv_def)
  have wf: "chans_wf (io_chans w)" using ok by (simp add: store_ok_def)
  have own: "own_chans hls \<subseteq> ran (files_of s)"
  proof (cases "st_parsers s ParserTypeHLS")
    case None
    then show ?thesis by (simp add: hls GetHLSParser_def own_chans_def NewHLSParser_def Let_def)
  next
    case (Some h)
    then show ?thesis by (simp add: hls GetHLSParser_def own_chans_stream)
  qed
  have "parser_inv (hls, w)"
    using inv s parser_inv_new [OF sz wf] by (cases "st_parsers s ParserTypeHLS") (auto simp: hls GetHLSParser_def handler_inv_def parsers_ok_def Let_def)
  from ParsePlaylist_parser_inv [OF this al] obtain err hls' w' where
    pp: "ParsePlaylist api flt path src (hls, w) = Inr (err, hls', w')" and inv': "parser_inv (hls', w')" by blast
  have ext: "extends_io w w'" using pp by (rule ParsePlaylist_ext)
  have tch: "touches (hls, w) (hls', w')" using touch.ParsePlaylist_R [OF pp] .
  obtain m' where m': "h_files hls' = Some m'" "files_ok w' m'" using inv' by (auto simp: parser_inv_def)
  have "handler_inv (hn\<lparr>hn_store := put_parser slug s hls' (hn_store hn)\<rparr>, w')"
    if new: "io_sent w' = io_sent w @ new" "spares (hn_store hn) slug new" for new
  proof (rule handler_inv_frame [OF inv])
    show "store_ok (hn_store (hn\<lparr>hn_store := put_parser slug s hls' (hn_store hn)\<rparr>), w')"
      using store_ok_put [OF ok s tch own m'] by simp
    show "log_ok w'" using ext log by (simp add: extends_io_def)
    show "parser_inv (h, w') \<or> (\<exists>t. ss_data (hn_store hn) k = Some t \<and> st_parsers t ParserTypeHLS = Some h
        \<and> (\<forall>p \<in> dom (files_of t). last_keep (io_sent w') p = last_keep (io_sent w) p))"
      if k: "ss_data (hn_store (hn\<lparr>hn_store := put_parser slug s hls' (hn_store hn)\<rparr>)) k = Some t" "st_parsers t ParserTypeHLS = Some h" for k t h
    proof (cases "k = slug")
      case True
      with k inv' show ?thesis by (auto simp: put_parser_def)
    next
      case False
      then have t: "ss_data (hn_store hn) k = Some t" using k(1) by (simp add: put_parser_def)
      have "last_keep new p = None" if "p \<in> dom (files_of t)" for p
        using new(2) False t that by (intro last_keep_avoid) (auto simp: spares_def)
      with t k(2) show ?thesis by (auto simp: new(1) last_keep_append)
    qed
  qed simp
  with pp ext show ?thesis by blast
qed

section \<open>Requests\<close>

definition parser_for :: "Handler \<Rightarrow> string \<Rightarrow> string \<Rightarrow> HLSParser" where
  "parser_for hn slug path =
     (case ss_data (hn_store hn) slug of
        None \<Rightarrow> NewHLSParser slug (dir path) (hn_playlistSize hn)
      | Some s \<Rightarrow> fst (GetHLSParser slug (dir path) (hn_playlistSize hn) s))"

definition file_ok :: "nat \<Rightarrow> m3u8_api \<Rightarrow> (string \<Rightarrow> faults) \<Rightarrow> bool \<Rightarrow> string list \<Rightarrow> string \<Rightarrow> string \<Rightarrow> Handler \<Rightarrow> bool" where
  "file_ok fuel api flt eager cs slug path hn \<longleftrightarrow>
     (\<forall>p. \<not> f_open (flt p))
     \<and> (\<forall>k s. ss_data (hn_store hn) k = Some s \<longrightarrow>
          dir path \<notin> dom (files_of s) \<and> (ext path \<in> {''.jpg'', ''.jpeg''} \<longrightarrow> path \<notin> dom (files_of s)))
     \<and> (\<forall>src w. ext path = ''.m3u8'' \<longrightarrow>
          io_copy fuel None (LimitReader_Read (body_read eager)) (LimitReads cs (hn_maxPlaylistSize hn)) '''' = Some src \<longrightarrow>
          parse_allowed api (parser_for hn slug path, w) (flt, path, src))"

lemma file_ok_same:
  assumes "file_ok fuel api flt eager cs slug path hn" "same_parsers (hn_store hn) (hn_store hn1)"
    and "hn_playlistSize hn1 = hn_playlistSize hn" "hn_maxPlaylistSize hn1 = hn_maxPlaylistSize hn" "ss_data (hn_store hn1) slug \<noteq> None"
  shows "file_ok fuel api flt eager cs slug path hn1"
proof -
  have "parser_for hn1 slug path = parser_for hn slug path"
    using assms(2-5) by (auto simp: parser_for_def same_parsers_def GetHLSParser_def Let_def split: option.splits)
  moreover have "dir path \<notin> dom (files_of s) \<and> (ext path \<in> {''.jpg'', ''.jpeg''} \<longrightarrow> path \<notin> dom (files_of s))"
    if "ss_data (hn_store hn1) k = Some s" for k s
    using same_parsers_files [OF assms(2) that] assms(1) [unfolded file_ok_def, THEN conjunct2, THEN conjunct1, rule_format, of k]
    by (cases "ss_data (hn_store hn) k") simp_all
  ultimately show ?thesis using assms(1,4) unfolding file_ok_def by simp
qed

lemma spares_same:
  assumes "same_parsers store store'" "spares store slug es"
  shows "spares store' slug es"
  unfolding spares_def
proof (intro ballI impI allI)
  fix e k s'
  assume e: "e \<in> set es" "fe_keep e \<noteq> None" and k: "k \<noteq> slug" "ss_data store' k = Some s'"
  show "fe_path e \<notin> dom (files_of s')"
    using assms(2) e k(1) same_parsers_files [OF assms(1) k(2)] by (auto simp: spares_def split: option.splits)
qed

lemma storeFile_inv:
  assumes "handler_inv (hn, w)" "\<not> f_open (flt path)" "storeFile fuel flt now R cs path (hn, w) = Some res"
  shows "\<exists>err w'. res = Inr (err, hn, w') \<and> handler_inv (hn, w') \<and> extends_io w w'"
proof -
  let ?e = "RegisterFile path (now + 30 * second)"
  have inv: "handler_inv (hn, send ?e w)" using assms(1) by (intro handler_inv_send) (simp_all add: RegisterFile_def)
  have "\<exists>err x. res = Inr (err, hn, (send ?e w)\<lparr>io_fs := x\<rparr>)"
    using assms(2,3) by (auto simp: storeFile_def CopyFile_def aw_open_def case_prod_beta Let_def)
  moreover have "extends_io w ((send ?e w)\<lparr>io_fs := x\<rparr>)" for x using register_ext [of w path] by simp
  ultimately show ?thesis using inv handler_inv_fs by metis
qed

lemma alive_send_inv:
  assumes "handler_inv (hn, w)" "ss_data (hn_store hn) slug = Some s"
    and "\<forall>k t. ss_data (hn_store hn) k = Some t \<longrightarrow> p \<notin> dom (files_of t)"
  shows "handler_inv (hn, send (KeepFile p (st_alive s)) w)" "extends_io w (send (KeepFile p (st_alive s)) w)"
proof -
  have "st_alive s < next_chan (io_chans w)"
    using assms(1,2) by (auto simp: handler_inv_def store_ok_def stream_ok_def stream_chans_def open_chan_def)
  with assms(1,3) show "handler_inv (hn, send (KeepFile p (st_alive s)) w)" by (intro handler_inv_send) (auto simp: KeepFile_def)
  show "extends_io w (send (KeepFile p (st_alive s)) w)"
    using \<open>st_alive s < next_chan (io_chans w)\<close> by (auto simp: extends_io_def send_def log_ok_def KeepFile_def)
qed

lemma HandleFile_inv:
  assumes inv: "handler_inv (hn, w)" and ok: "file_ok fuel api flt eager cs slug path hn"
    and hf: "HandleFile fuel api flt now (body_read eager) cs slug path (hn, w) = Some res"
  shows "\<exists>err hn' w'. res = Inr (err, hn', w') \<and> extends_io w w'
    \<and> (\<forall>new. io_sent w' = io_sent w @ new \<longrightarrow> spares (hn_store hn) slug new \<longrightarrow> handler_inv (hn', w'))"
proof (cases "ss_data (hn_store hn) slug")
  case None
  with inv hf show ?thesis by (auto simp: HandleFile_def GetStream_def)
next
  case (Some s)
  let ?w1 = "send (KeepFile (dir path) (st_alive s)) w"
  have opens: "\<not> f_open (flt p)" for p using ok by (simp add: file_ok_def)
  have avoid: "\<forall>k t. ss_data (hn_store hn) k = Some t \<longrightarrow> dir path \<notin> dom (files_of t)" using ok by (simp add: file_ok_def)
  note w1 = alive_send_inv [OF inv Some avoid]
  have store: "\<exists>err w'. res = Inr (err, hn, w') \<and> handler_inv (hn, w') \<and> extends_io w w'"
    if "storeFile fuel flt now (body_read eager) cs path (hn, v) = Some res" "handler_inv (hn, v)" "extends_io w v" for v
    using storeFile_inv [OF that(2) opens that(1)] extends_io_trans [OF that(3)] by blast
  consider "ext path = ''.m3u8''" | "ext path = ''.mpd''" | "ext path \<in> {''.jpg'', ''.jpeg''}"
    | "ext path \<notin> {''.m3u8'', ''.mpd'', ''.jpg'', ''.jpeg''}" by blast
  then show ?thesis
  proof cases
    case 1
    let ?hls = "fst (GetHLSParser slug (dir path) (hn_playlistSize hn) s)"
    have pf: "parser_for hn slug path = ?hls" using Some by (simp add: parser_for_def)
    obtain src where src: "io_copy fuel None (LimitReader_Read (body_read eager)) (LimitReads cs (hn_maxPlaylistSize hn)) [] = Some src"
      and res: "res = go_bind (ParsePlaylist api flt path src (?hls, ?w1)) (\<lambda>(err, hls', w').
         Inr (map_option ParserError err, hn\<lparr>hn_store := put_parser slug s hls' (hn_store hn)\<rparr>, w'))"
      using hf 1 Some by (auto simp: HandleFile_def GetStream_def parseFile_def put_parser_def GetHLSParser_def case_prod_beta Let_def split: option.splits)
    have "parse_allowed api (?hls, ?w1) (flt, path, src)" using ok src 1 pf by (simp add: file_ok_def)
    from parse_inv [OF w1(1) Some refl this] obtain err hls' w' where
      pp: "ParsePlaylist api flt path src (?hls, ?w1) = Inr (err, hls', w')" "extends_io ?w1 w'"
      "\<forall>new. io_sent w' = io_sent ?w1 @ new \<longrightarrow> spares (hn_store hn) slug new \<longrightarrow>
         handler_inv (hn\<lparr>hn_store := put_parser slug s hls' (hn_store hn)\<rparr>, w')" by blast
    obtain new2 where new2: "io_sent w' = io_sent ?w1 @ new2" using pp(2) by (auto simp: extends_io_def)
    have "handler_inv (hn\<lparr>hn_store := put_parser slug s hls' (hn_store hn)\<rparr>, w')"
      if "io_sent w' = io_sent w @ new" "spares (hn_store hn) slug new" for new
      using pp(3) new2 that by (auto simp: send_def spares_def)
    with pp(1,2) w1(2) res show ?thesis by (auto intro: extends_io_trans)
  next
    case 2
    with hf Some w1 show ?thesis by (auto simp: HandleFile_def GetStream_def Let_def)
  next
    case 3
    have pic: "\<forall>k t. ss_data (hn_store hn) k = Some t \<longrightarrow> path \<notin> dom (files_of t)" using ok 3 unfolding file_ok_def by blast
    note w2 = alive_send_inv [OF w1(1) Some pic]
    have "storeFile fuel flt now (body_read eager) cs path (hn, send (KeepFile path (st_alive s)) ?w1) = Some res"
      using hf 3 Some by (auto simp: HandleFile_def GetStream_def Let_def)
    from store [OF this w2(1) extends_io_trans [OF w1(2) w2(2)]] show ?thesis by blast
  next
    case 4
    then have "storeFile fuel flt now (body_read eager) cs path (hn, ?w1) = Some res"
      using hf Some by (auto simp: HandleFile_def GetStream_def Let_def)
    from store [OF this w1] show ?thesis by blast
  qed
qed

text \<open>What is asked of a request; \<open>out\<close> is the output directory.\<close>

definition request_ok :: "nat \<Rightarrow> m3u8_api \<Rightarrow> (string \<Rightarrow> faults) \<Rightarrow> (string \<Rightarrow> string \<Rightarrow> string \<Rightarrow> (string \<times> bool) go) \<Rightarrow> string \<Rightarrow>
    upload_request \<Rightarrow> bool \<Rightarrow> string list \<Rightarrow> Handler \<Rightarrow> bool" where
  "request_ok fuel api flt auth out req eager cs hn \<longleftrightarrow>
     (\<exists>slug ok. authenticate auth req = Inr (slug, ok)
        \<and> (ok \<longrightarrow> file_ok fuel api flt eager cs slug (joinPath [out, rq_path req]) hn))"

definition spares_others :: "(string \<Rightarrow> string \<Rightarrow> string \<Rightarrow> (string \<times> bool) go) \<Rightarrow> upload_request \<Rightarrow> Handler \<Rightarrow> io \<Rightarrow> io \<Rightarrow> bool" where
  "spares_others auth req hn w w' \<longleftrightarrow> (\<forall>slug ok. authenticate auth req = Inr (slug, ok) \<longrightarrow>
     spares (hn_store hn) slug (drop (length (io_sent w)) (io_sent w')))"

lemma HandleUpload_inv:
  assumes inv: "handler_inv (hn, w)" and ok: "request_ok fuel api flt auth out req eager cs hn"
    and up: "HandleUpload fuel api flt now auth out req (body_read eager) cs (hn, w) = Some res"
  shows "\<exists>code hn' w'. res = Inr (code, hn', w') \<and> extends_io w w' \<and> (spares_others auth req hn w w' \<longrightarrow> handler_inv (hn', w'))"
proof -
  let ?path = "joinPath [out, rq_path req]"
  obtain slug a where auth: "authenticate auth req = Inr (slug, a)" "a \<longrightarrow> file_ok fuel api flt eager cs slug ?path hn"
    using ok by (auto simp: request_ok_def)
  show ?thesis
  proof (cases "a \<and> requestHost req \<noteq> None")
    case False
    with up auth(1) inv show ?thesis by (auto simp: HandleUpload_def Let_def split: option.splits if_splits)
  next
    case True
    then obtain host where host: "requestHost req = Some host" and fo: "file_ok fuel api flt eager cs slug ?path hn" using auth(2) by auto
    obtain err hn1 w1 where val: "Validate slug ?path host now (hn, w) = (err, hn1, w1)" by (metis prod_cases3)
    note v = Validate_inv [OF inv val]
    show ?thesis
    proof (cases "err = None \<and> (rq_method req = ''PUT'' \<or> rq_method req = ''POST'')")
      case False
      then have "\<exists>code. res = Inr (code, hn1, w1)"
        using up auth(1) True host val by (auto simp: HandleUpload_def Let_def split: if_splits)
      with v(1,2) show ?thesis by blast
    next
      case put: True
      then obtain r where r: "HandleFile fuel api flt now (body_read eager) cs slug ?path (hn1, w1) = Some r"
        and res: "res = go_bind r (\<lambda>(err, st2). Inr (if err \<noteq> None then 500 else 200, st2))"
        using up auth(1) True host val by (auto simp: HandleUpload_def Let_def)
      have "ss_data (hn_store hn1) slug \<noteq> None" using Validate_stream(1) [of slug ?path host now hn w hn1 w1] val put by (auto simp: GetStream_def)
      from HandleFile_inv [OF v(1) file_ok_same [OF fo v(4-6) this] r] obtain e hn' w' where hf:
        "r = Inr (e, hn', w')" "extends_io w1 w'"
        "\<forall>new. io_sent w' = io_sent w1 @ new \<longrightarrow> spares (hn_store hn1) slug new \<longrightarrow> handler_inv (hn', w')" by blast
      obtain new where new: "io_sent w' = io_sent w @ new" using hf(2) v(3) by (auto simp: extends_io_def)
      have "handler_inv (hn', w')" if "spares_others auth req hn w w'"
      proof -
        have "spares (hn_store hn) slug new" using that auth(1) new by (simp add: spares_others_def)
        from spares_same [OF v(4) this] hf(3) new v(3) show ?thesis by simp
      qed
      moreover have "extends_io w w'" using v(2) hf(2) by (rule extends_io_trans)
      ultimately show ?thesis using res hf(1) by (cases "e = None") auto
    qed
  qed
qed

section \<open>Interleavings\<close>

record server =
  us_handler :: Handler
  us_io :: io
  us_taken :: nat
  us_reg :: FileRegistry

inductive server_step :: "m3u8_api \<Rightarrow> (string \<Rightarrow> string \<Rightarrow> string \<Rightarrow> (string \<times> bool) go) \<Rightarrow> string \<Rightarrow> server \<Rightarrow> string list \<Rightarrow> server \<Rightarrow> bool"
  for api auth out where
  request: "request_ok fuel api flt auth out req eager cs (us_handler s) \<Longrightarrow>
    HandleUpload fuel api flt now auth out req (body_read eager) cs (us_handler s, us_io s) = Some (Inr (code, hn', w')) \<Longrightarrow>
    spares_others auth req (us_handler s) (us_io s) w' \<Longrightarrow>
    server_step api auth out s [] (s\<lparr>us_handler := hn', us_io := w'\<rparr>)"
| timeout: "tick_ok order ords (hn_store (us_handler s), us_io s) \<Longrightarrow>
    store_timeout order ords (hn_store (us_handler s), us_io s) = Inr (store', w') \<Longrightarrow>
    server_step api auth out s [] (s\<lparr>us_handler := (us_handler s)\<lparr>hn_store := store'\<rparr>, us_io := w'\<rparr>)"
| take: "us_taken s < length (io_sent (us_io s)) \<Longrightarrow>
    registry_step (us_reg s) (RegAdd (io_sent (us_io s) ! us_taken s)) = (rm, reply, r') \<Longrightarrow>
    server_step api auth out s rm (s\<lparr>us_taken := Suc (us_taken s), us_reg := r'\<rparr>)"
| tick: "range_order (fr_files (us_reg s)) order \<Longrightarrow>
    registry_step (us_reg s) (RegTick (io_chans (us_io s)) now clk order) = (rm, reply, r') \<Longrightarrow>
    server_step api auth out s rm (s\<lparr>us_reg := r'\<rparr>)"

inductive server_reach :: "m3u8_api \<Rightarrow> (string \<Rightarrow> string \<Rightarrow> string \<Rightarrow> (string \<times> bool) go) \<Rightarrow> string \<Rightarrow> server \<Rightarrow> server \<Rightarrow> bool"
  for api auth out s0 where
  start: "server_reach api auth out s0 s0"
| step: "server_reach api auth out s0 s \<Longrightarrow> server_step api auth out s rm s' \<Longrightarrow> server_reach api auth out s0 s'"

definition server_start :: "ServerConfig \<Rightarrow> server" where
  "server_start config =
     \<lparr>us_handler = NewHandler config, us_io = \<lparr>io_chans = no_chans, io_sent = [], io_fs = Map.empty\<rparr>, us_taken = 0,
      us_reg = hn_registry (NewHandler config)\<rparr>"

text \<open>Queue and registry are those of theory \<open>System\<close>, next to an idle parser.\<close>

definition view :: "server \<Rightarrow> system" where
  "view s = \<lparr>sys_parser = NewHLSParser [] [] 1, sys_io = us_io s, sys_taken = us_taken s, sys_reg = us_reg s\<rparr>"

definition server_inv :: "server \<Rightarrow> bool" where
  "server_inv s \<longleftrightarrow> handler_inv (us_handler s, us_io s) \<and> us_taken s \<le> length (io_sent (us_io s)) \<and> honoured (view s)"

lemma view_inv: "server_inv s \<Longrightarrow> sys_inv (view s)"
  by (simp add: server_inv_def sys_inv_def view_def handler_inv_def store_ok_def parser_inv_new)

lemma server_grows:
  assumes "server_inv s" "extends_io (us_io s) w'" "handler_inv (hn', w')"
  shows "server_inv (s\<lparr>us_handler := hn', us_io := w'\<rparr>)"
proof -
  have "honoured ((view s)\<lparr>sys_parser := NewHLSParser [] [] 1, sys_io := w'\<rparr>)"
    using assms(1,2) view_inv [OF assms(1)] by (intro honoured_ext) (auto simp: server_inv_def sys_inv_def view_def)
  with assms show ?thesis by (auto simp: server_inv_def view_def extends_io_def)
qed

lemma server_inv_step:
  assumes "server_step api auth out s rm s'" "server_inv s"
  shows "server_inv s'"
  using assms
proof (induction rule: server_step.induct)
  case (request fuel flt req eager cs s now code hn' w')
  have "handler_inv (us_handler s, us_io s)" using request.prems by (simp add: server_inv_def)
  from HandleUpload_inv [OF this request.hyps(1,2)] request.hyps(3) server_grows [OF request.prems] show ?case by auto
next
  case (timeout order ords s store' w')
  have "handler_inv (us_handler s, us_io s)" using timeout.prems by (simp add: server_inv_def)
  from timeout_inv [OF this timeout.hyps] server_grows [OF timeout.prems] show ?case by blast
next
  case (take s rm reply r')
  have "honoured ((view s)\<lparr>sys_taken := Suc (sys_taken (view s)), sys_reg := registry_add (io_sent (sys_io (view s)) ! sys_taken (view s)) (sys_reg (view s))\<rparr>)"
    using take by (intro honoured_take) (simp_all add: server_inv_def view_def)
  with take show ?case by (auto simp: server_inv_def view_def)
next
  case (tick s order now clk rm reply r')
  have "honoured ((view s)\<lparr>sys_reg := r'\<rparr>)"
    using sys_tick(1) [OF view_inv [OF tick.prems], of order now clk rm reply r'] tick.hyps by (simp add: view_def)
  with tick.prems show ?case by (simp add: server_inv_def view_def)
qed

lemma server_inv_reach: "server_reach api auth out s0 s \<Longrightarrow> server_inv s0 \<Longrightarrow> server_inv s"
  by (induction rule: server_reach.induct) (auto intro: server_inv_step)

lemma server_inv_start: "0 < sc_playlistSize config \<Longrightarrow> server_inv (server_start config)"
  by (simp add: server_inv_def server_start_def handler_inv_def NewHandler_def NewStreamStore_def DefaultStreamExpireInterval_def store_ok_def
      log_ok_def parsers_ok_def honoured_def view_def Let_def)

section \<open>Properties\<close>


text \<open>Example: the first playlist of a stream is uploaded.\<close>

definition demo_server_config :: ServerConfig where
  "demo_server_config = \<lparr>sc_addr = ''localhost:8080'', sc_outputPath = ''/out'', sc_maxSegmentSize = 100, sc_maxPlaylistSize = 100,
     sc_streamTimeout = 0, sc_streamOriginDuration = 0, sc_playlistSize = 10\<rparr>"

lemma playlist_paths:
  "joinPath [''/out'', ''/s/v.m3u8''] = ''/out/s/v.m3u8''" "dir ''/out/s/v.m3u8'' = ''/out/s''" "base ''/out/s/v.m3u8'' = ''v.m3u8''"
  "ext ''/out/s/v.m3u8'' = ''.m3u8''" "joinPath [''/out/s'', ''a''] = ''/out/s/a''"
  by code_simp+

lemma demo_first_playlist:
  "\<exists>hls' w'. ParsePlaylist demo_api (\<lambda>_. no_faults) ''/out/s/v.m3u8'' (''a'', None)
       (NewHLSParser ''s'' ''/out/s'' 10, send (KeepFile ''/out/s'' 0) (snd (demo_admitted ''s''))) = Inr (None, hls', w')
     \<and> (\<exists>v. h_subs hls' ''v.m3u8'' = Some v \<and> lp_items (v_output v) = [demo_segment ''a'']) \<and> h_basePath hls' = ''/out/s''"
  by (simp add: demo_simps playlist_paths demo_admitted_def demo_store_io_def demo_segment_def Let_def)

lemma demo_upload:
  defines "auth \<equiv> (\<lambda>u p path. Inr (''s'', True)) :: string \<Rightarrow> string \<Rightarrow> string \<Rightarrow> (string \<times> bool) go"
  shows "\<exists>hls' w' s1. HandleUpload 10 demo_api (\<lambda>_. no_faults) (100 * second) auth ''/out'' (demo_request ''/s/v.m3u8'') (body_read False) [''a'']
       (demo_server, demo_store_io) = Some (Inr (200, demo_server\<lparr>hn_store := put_parser ''s'' s1 hls' (hn_store (fst (demo_admitted ''s'')))\<rparr>, w'))
     \<and> (\<exists>v. h_subs hls' ''v.m3u8'' = Some v \<and> lp_items (v_output v) = [demo_segment ''a'']) \<and> h_basePath hls' = ''/out/s''"
    and "request_ok 10 demo_api (\<lambda>_. no_faults) auth ''/out'' (demo_request ''/s/v.m3u8'') False [''a''] demo_server"
proof -
  have req: "rq_path (demo_request q) = q" "rq_method (demo_request q) = ''PUT''" for q by (simp_all add: demo_request_def)
  have hn: "hn_maxPlaylistSize demo_server = 100" "hn_playlistSize demo_server = 10" "ss_data (hn_store demo_server) = Map.empty"
    by (simp_all add: demo_server_def NewHandler_def NewStreamStore_def Let_def)
  have copy: "io_copy 10 None (LimitReader_Read (body_read False)) (LimitReads [''a''] 100) [] = Some (''a'', None)"
    using copy_limited_body [of "[''a'']" 10 False 100 "[]"] by (simp add: body_ok_def within_limit_def LimitReads_def)
  have "parse_allowed demo_api (NewHLSParser ''s'' ''/out/s'' 10, w) (\<lambda>_. no_faults, ''/out/s/v.m3u8'', ''a'', None)" for w
    by (simp add: parse_allowed_def demo_simps playlist_paths fresh_segments_def new_segments_def
        first_new_def goes_back_def variant_of_def listed_of_def Let_def)
  then show "request_ok 10 demo_api (\<lambda>_. no_faults) auth ''/out'' (demo_request ''/s/v.m3u8'') False [''a''] demo_server"
    unfolding request_ok_def
    by (intro exI [of _ "''s''"] exI [of _ True])
      (simp add: auth_def authenticate_def file_ok_def req playlist_paths hn copy parser_for_def no_faults_def demo_request_def)
  let ?s0 = "\<lparr>st_slug = ''s'', st_timeout = 10 * second, st_originTimeout = 6 * second, st_ttl = 10 * second,
       st_origin = ''10.0.0.1'', st_originUpdated = 100 * second, st_alive = 0, st_parsers = Map.empty\<rparr>"
  obtain hls' w' where pp: "ParsePlaylist demo_api (\<lambda>_. no_faults) ''/out/s/v.m3u8'' (''a'', None)
      (NewHLSParser ''s'' ''/out/s'' 10, send (KeepFile ''/out/s'' 0) (snd (demo_admitted ''s''))) = Inr (None, hls', w')"
    "\<exists>v. h_subs hls' ''v.m3u8'' = Some v \<and> lp_items (v_output v) = [demo_segment ''a'']" "h_basePath hls' = ''/out/s''"
    using demo_first_playlist by blast
  have adm: "admitted auth ''/out'' (100 * second) (demo_request ''/s/v.m3u8'') ''s'' (demo_server, demo_store_io) (demo_admitted ''s'')"
    unfolding auth_def by (rule demo_admitted)
  obtain hn1 w1 where st: "demo_admitted ''s'' = (hn1, w1)" by force
  have f: "ss_data (hn_store hn1) ''s'' = Some ?s0" "hn_maxPlaylistSize hn1 = 100" "hn_playlistSize hn1 = 10"
    "hn1\<lparr>hn_store := x\<rparr> = demo_server\<lparr>hn_store := x\<rparr>" for x
    using st by (auto simp: demo_admitted_def hn)
  have pp1: "ParsePlaylist demo_api (\<lambda>_. no_faults) ''/out/s/v.m3u8'' (''a'', None)
      (NewHLSParser ''s'' ''/out/s'' 10, send (KeepFile ''/out/s'' 0) w1) = Inr (None, hls', w')"
    using pp(1) unfolding st snd_conv .
  have "HandleFile 10 demo_api (\<lambda>_. no_faults) (100 * second) (body_read False) [''a''] ''s'' ''/out/s/v.m3u8'' (demo_admitted ''s'') =
      Some (Inr (None, demo_server\<lparr>hn_store := put_parser ''s'' ?s0 hls' (hn_store (fst (demo_admitted ''s'')))\<rparr>, w'))"
    by (simp add: st HandleFile_def GetStream_def f playlist_paths parseFile_def copy GetHLSParser_def pp1 put_parser_def Let_def)
  then have "HandleUpload 10 demo_api (\<lambda>_. no_faults) (100 * second) auth ''/out'' (demo_request ''/s/v.m3u8'') (body_read False) [''a'']
       (demo_server, demo_store_io) = Some (Inr (200, demo_server\<lparr>hn_store := put_parser ''s'' ?s0 hls' (hn_store (fst (demo_admitted ''s'')))\<rparr>, w'))"
    unfolding admitted_HandleUpload [OF adm disjI1 [OF req(2)]] req(1) playlist_paths(1) by simp
  with pp(2,3) show "\<exists>hls' w' s1. HandleUpload 10 demo_api (\<lambda>_. no_faults) (100 * second) auth ''/out'' (demo_request ''/s/v.m3u8'') (body_read False) [''a'']
       (demo_server, demo_store_io) = Some (Inr (200, demo_server\<lparr>hn_store := put_parser ''s'' s1 hls' (hn_store (fst (demo_admitted ''s'')))\<rparr>, w'))
     \<and> (\<exists>v. h_subs hls' ''v.m3u8'' = Some v \<and> lp_items (v_output v) = [demo_segment ''a'']) \<and> h_basePath hls' = ''/out/s''" by blast
qed


end
