(* ===== verification/Sink.thy ===== *)
theory Sink
  imports Interfaces GoPath
begin

text \<open>
  \<open>src/cmd/upload-proxy/sink.go\<close> and \<open>config.go\<close>: a sink is one upstream server with a bounded
  queue of requests and a worker that uploads them. The state is the record \<open>Sink\<close>; its counters
  are \<open>SinkMetrics\<close>, durations in nanoseconds. The addresses for which counters are registered are
  a set that is passed along: registering a name twice panics.

  The worker's loop \<open>upload\<close> is a function of what it meets in each round: the clock, the answer
  of the HTTP client, the length of the queue, and whether the context was cancelled.
\<close>

section \<open>Configuration\<close>

record AuthParams =
  au_username :: string
  au_password :: string
  au_authType :: string

record SinkConfig =
  sn_address :: string
  sn_queueSize :: int
  sn_auth :: AuthParams

definition AuthTypeBasic :: string where "AuthTypeBasic = ''basic''"

definition AuthTypeDigest :: string where "AuthTypeDigest = ''digest''"

definition DefaultQueueSize :: int where "DefaultQueueSize = 128"

definition GracePeriod :: duration where "GracePeriod = 5 * minute"

definition defaultAuthType :: "AuthParams \<Rightarrow> AuthParams" where
  "defaultAuthType a =
     (if au_username a \<noteq> '''' \<and> au_authType a \<noteq> AuthTypeBasic \<and> au_authType a \<noteq> AuthTypeDigest
      then a\<lparr>au_authType := AuthTypeBasic\<rparr> else a)"

definition ApplyDefaults :: "SinkConfig \<Rightarrow> SinkConfig" where
  "ApplyDefaults s =
     (let s1 = (if sn_queueSize s = 0 then s\<lparr>sn_queueSize := DefaultQueueSize\<rparr> else s)
      in s1\<lparr>sn_auth := defaultAuthType (sn_auth s1)\<rparr>)"

record ProxyConfig =
  px_listenAddress :: string
  px_sinks :: "SinkConfig list"
  px_auth :: AuthParams

text \<open>
  \<open>Load\<close>. Reading a file and decoding TOML are parameters: \<open>readFile\<close> gives an error or the
  contents, a decoder an error or the value with the keys of the file set.
\<close>

datatype load_error = ReadError string | UnmarshalError string

definition loadInto :: "(string \<Rightarrow> string + string) \<Rightarrow> (string \<Rightarrow> 'a \<Rightarrow> string + 'a) \<Rightarrow> string \<Rightarrow> 'a \<Rightarrow> load_error + 'a" where
  "loadInto readFile unmarshal path x =
     (case readFile path of
        Inl err \<Rightarrow> Inl (ReadError err)
      | Inr data \<Rightarrow> (case unmarshal data x of Inl err \<Rightarrow> Inl (UnmarshalError err) | Inr y \<Rightarrow> Inr y))"

definition Config_Load :: "(string \<Rightarrow> string + string) \<Rightarrow> (string \<Rightarrow> ProxyConfig \<Rightarrow> string + ProxyConfig) \<Rightarrow>
    (string \<Rightarrow> AuthParams \<Rightarrow> string + AuthParams) \<Rightarrow> string \<Rightarrow> string \<Rightarrow> ProxyConfig \<Rightarrow> load_error + ProxyConfig" where
  "Config_Load readFile unmarshalConfig unmarshalAuth path authPath c =
     (case loadInto readFile unmarshalConfig path c of
        Inl err \<Rightarrow> Inl err
      | Inr c1 \<Rightarrow>
          (case (if authPath = '''' then Inr (px_auth c1) else loadInto readFile unmarshalAuth authPath (px_auth c1)) of
             Inl err \<Rightarrow> Inl err
           | Inr a \<Rightarrow>
               let auth = defaultAuthType a
               in Inr (c1\<lparr>px_auth := auth,
                    px_sinks := map (\<lambda>s. let s' = ApplyDefaults s
                                          in if au_username auth \<noteq> '''' then s'\<lparr>sn_auth := auth\<rparr> else s') (px_sinks c1)\<rparr>)))"

section \<open>Sinks\<close>

record url =
  u_scheme :: string
  u_host :: string
  u_path :: string
  u_rawPath :: string

record http_request =
  hr_method :: string
  hr_url :: url
  hr_basicAuth :: "(string \<times> string) option"
  hr_body :: string
  hr_contentLength :: int

record SinkEntry =
  se_request :: http_request
  se_deadline :: time
  se_queuedAt :: time

record SinkMetrics =
  totalNumUploaded :: nat
  totalNumDropped :: nat
  totalQueueDelay :: duration
  totalUploadDuration :: duration
  totalBytesUploaded :: int
  totalTransientErrors :: nat

definition NewSinkMetrics :: SinkMetrics where
  "NewSinkMetrics = \<lparr>totalNumUploaded = 0, totalNumDropped = 0, totalQueueDelay = 0, totalUploadDuration = 0,
     totalBytesUploaded = 0, totalTransientErrors = 0\<rparr>"

record Sink =
  sk_conf :: SinkConfig
  sk_url :: url
  sk_queue :: "SinkEntry list"
  sk_graceDeadline :: time
  sk_metrics :: SinkMetrics

definition Address :: "Sink \<Rightarrow> string" where
  "Address s = sn_address (sk_conf s)"

definition Sink_Start :: "Sink \<Rightarrow> string set \<Rightarrow> (Sink \<times> string set) go" where
  "Sink_Start s reg =
     (if Address s \<in> reg then Inl DuplicateMetrics
      else Inr (s\<lparr>sk_metrics := NewSinkMetrics\<rparr>, insert (Address s) reg))"

definition Sink_Stop :: "Sink \<Rightarrow> string set \<Rightarrow> string set" where
  "Sink_Stop s reg = reg - {Address s}"

text \<open>\<open>parse\<close> is \<open>url.Parse\<close>.\<close>

definition NewSink :: "(string \<Rightarrow> string + url) \<Rightarrow> SinkConfig \<Rightarrow> string set \<Rightarrow> ((string + Sink) \<times> string set) go" where
  "NewSink parse conf reg =
     (case parse (sn_address conf) of
        Inl err \<Rightarrow> Inr (Inl err, reg)
      | Inr u \<Rightarrow>
          if sn_queueSize conf < 0 then Inl MakeChanSize
          else go_bind (Sink_Start \<lparr>sk_conf = conf, sk_url = u, sk_queue = [], sk_graceDeadline = 0,
                           sk_metrics = NewSinkMetrics\<rparr> reg) (\<lambda>(s, reg'). Inr (Inr s, reg')))"

datatype sink_error = CannotUpdateAddress | CannotUpdateQueueSize | InvalidSinkAddress string

definition Sink_UpdateConfig :: "SinkConfig \<Rightarrow> Sink \<times> string set \<Rightarrow> (sink_error option \<times> Sink \<times> string set) go" where
  "Sink_UpdateConfig conf st =
     (case st of (s0, reg) \<Rightarrow>
        let s = s0\<lparr>sk_graceDeadline := 0\<rparr>
        in if conf = sk_conf s then Inr (None, s, reg)
           else if sn_address conf \<noteq> sn_address (sk_conf s) then Inr (Some CannotUpdateAddress, s, reg)
           else if sn_queueSize conf \<noteq> sn_queueSize (sk_conf s) then Inr (Some CannotUpdateQueueSize, s, reg)
           else go_bind (Sink_Start (s\<lparr>sk_conf := conf\<rparr>) (Sink_Stop s reg)) (\<lambda>(s', reg'). Inr (None, s', reg')))"

definition StartGracePeriod :: "time \<Rightarrow> Sink \<Rightarrow> Sink" where
  "StartGracePeriod now s = (if sk_graceDeadline s = 0 then s\<lparr>sk_graceDeadline := now + GracePeriod\<rparr> else s)"

definition IsStale :: "time \<Rightarrow> Sink \<Rightarrow> bool" where
  "IsStale now s \<longleftrightarrow> sk_graceDeadline s \<noteq> 0 \<and> now > sk_graceDeadline s"

section \<open>Joining URL paths\<close>

text \<open>\<open>shouldEscape\<close> and \<open>escape\<close> of package \<open>net/url\<close>, for paths.\<close>

definition url_unreserved :: "char \<Rightarrow> bool" where
  "url_unreserved c \<longleftrightarrow> (let n = (of_char c :: nat)
     in (97 \<le> n \<and> n \<le> 122) \<or> (65 \<le> n \<and> n \<le> 90) \<or> (48 \<le> n \<and> n \<le> 57)) \<or> c \<in> set ''-_.~''"

definition shouldEscapePath :: "char \<Rightarrow> bool" where
  "shouldEscapePath c \<longleftrightarrow> \<not> url_unreserved c \<and> c \<notin> set ''$&+,/:;=@''"

definition hexDigit :: "nat \<Rightarrow> char" where
  "hexDigit n = char_of (if n < 10 then 48 + n else 55 + n)"

definition escapePath :: "string \<Rightarrow> string" where
  "escapePath s = concat (map (\<lambda>c. if shouldEscapePath c
     then [CHR ''%'', hexDigit (of_char c div 16), hexDigit (of_char c mod 16)] else [c]) s)"

definition unhex :: "char \<Rightarrow> nat option" where
  "unhex c = (let n = of_char c in if 48 \<le> n \<and> n \<le> 57 then Some (n - 48)
     else if 97 \<le> n \<and> n \<le> 102 then Some (n - 87) else if 65 \<le> n \<and> n \<le> 70 then Some (n - 55) else None)"

fun unescapePath :: "string \<Rightarrow> string option" where
  "unescapePath [] = Some []"
| "unescapePath (c # cs) =
     (if c \<noteq> CHR ''%'' then map_option (Cons c) (unescapePath cs)
      else case cs of
             x # y # rest \<Rightarrow>
               (case (unhex x, unhex y) of
                  (Some a, Some b) \<Rightarrow> map_option (Cons (char_of (16 * a + b))) (unescapePath rest)
                | _ \<Rightarrow> None)
           | _ \<Rightarrow> None)"

definition validEncoded :: "string \<Rightarrow> bool" where
  "validEncoded s \<longleftrightarrow> list_all (\<lambda>c. c \<in> set ''!$&'()*+,;=:@[]%'' \<or> \<not> shouldEscapePath c) s"

definition EscapedPath :: "url \<Rightarrow> string" where
  "EscapedPath u =
     (if u_rawPath u \<noteq> '''' \<and> validEncoded (u_rawPath u) \<and> unescapePath (u_rawPath u) = Some (u_path u)
      then u_rawPath u
      else if u_path u = ''*'' then ''*'' else escapePath (u_path u))"

definition singleJoiningSlash :: "string \<Rightarrow> string \<Rightarrow> string" where
  "singleJoiningSlash a b =
     (let aslash = hasSuffix a ''/''; bslash = hasPrefix b ''/''
      in if aslash \<and> bslash then a @ drop 1 b
         else if \<not> aslash \<and> \<not> bslash then a @ ''/'' @ b
         else a @ b)"

text \<open>\<open>b.Path[1:]\<close> panics when the path is empty although its escaped form is not.\<close>

definition joinURLPath :: "url \<Rightarrow> url \<Rightarrow> (string \<times> string) go" where
  "joinURLPath a b =
     (if u_rawPath a = '''' \<and> u_rawPath b = '''' then Inr (singleJoiningSlash (u_path a) (u_path b), '''')
      else
        let apath = EscapedPath a; bpath = EscapedPath b;
            aslash = hasSuffix apath ''/''; bslash = hasPrefix bpath ''/''
        in if aslash \<and> bslash then
             (if u_path b = '''' then Inl IndexOutOfRange
              else Inr (u_path a @ drop 1 (u_path b), apath @ drop 1 bpath))
           else if \<not> aslash \<and> \<not> bslash then Inr (u_path a @ ''/'' @ u_path b, apath @ ''/'' @ bpath)
           else Inr (u_path a @ u_path b, apath @ bpath))"

section \<open>The queue\<close>

text \<open>The loop of \<open>handle\<close>; \<open>None\<close>: it waits for an entry of an empty queue.\<close>

fun enqueue :: "SinkEntry \<Rightarrow> int \<Rightarrow> SinkEntry list \<times> nat \<Rightarrow> (SinkEntry list \<times> nat) option" where
  "enqueue e cap (q, dropped) =
     (if int (length q) < cap then Some (q @ [e], dropped)
      else case q of
             [] \<Rightarrow> None
           | _ # rest \<Rightarrow> enqueue e cap (rest, Suc dropped))"

definition Sink_handle :: "http_request \<Rightarrow> time \<Rightarrow> time \<Rightarrow> Sink \<Rightarrow> Sink go option" where
  "Sink_handle req deadline now sink =
     (case joinURLPath (sk_url sink) (hr_url req) of
        Inl p \<Rightarrow> Some (Inl p)
      | Inr (path, rawPath) \<Rightarrow>
          let u = (hr_url req)\<lparr>u_scheme := u_scheme (sk_url sink), u_host := u_host (sk_url sink),
                               u_path := path, u_rawPath := rawPath\<rparr>;
              auth = sn_auth (sk_conf sink);
              req1 = req\<lparr>hr_url := u\<rparr>;
              req2 = (if au_authType auth = AuthTypeBasic
                      then req1\<lparr>hr_basicAuth := Some (au_username auth, au_password auth)\<rparr> else req1)
          in map_option
               (\<lambda>(q, dropped). Inr (sink\<lparr>sk_queue := q, sk_metrics := (sk_metrics sink)\<lparr>totalNumDropped := dropped\<rparr>\<rparr>))
               (enqueue \<lparr>se_request = req2, se_deadline = deadline, se_queuedAt = now\<rparr>
                  (sn_queueSize (sk_conf sink)) (sk_queue sink, totalNumDropped (sk_metrics sink))))"

section \<open>Uploading one entry\<close>

datatype client_result = DeadlineExceeded | ClientError string | Status nat

record upload_round =
  ur_checked :: time
  ur_since :: time
  ur_start :: time
  ur_result :: client_result
  ur_end :: time
  ur_queueLen :: int
  ur_cancelled :: bool

datatype upload_outcome = Uploaded | Dropped | Cancelled | Running

text \<open>One iteration of the loop: \<open>Running\<close> means it goes round again.\<close>

definition uploadRound :: "int \<Rightarrow> SinkEntry \<Rightarrow> upload_round \<Rightarrow> SinkMetrics \<Rightarrow> upload_outcome \<times> SinkMetrics" where
  "uploadRound cap entry r m =
     (let dropped = (Dropped, m\<lparr>totalNumDropped := Suc (totalNumDropped m)\<rparr>)
      in if se_deadline entry < ur_checked r then dropped
         else
           (case ur_result r of
              DeadlineExceeded \<Rightarrow> dropped
            | ClientError _ \<Rightarrow> dropped
            | Status code \<Rightarrow>
                if code < 200 \<or> code > 299 then
                  let m1 = m\<lparr>totalTransientErrors := Suc (totalTransientErrors m)\<rparr>
                  in if ur_queueLen r > cap - 2 then (Dropped, m1\<lparr>totalNumDropped := Suc (totalNumDropped m1)\<rparr>)
                     else if ur_cancelled r then (Cancelled, m1)
                     else (Running, m1)
                else
                  (Uploaded, m\<lparr>totalNumUploaded := Suc (totalNumUploaded m),
                     totalQueueDelay := totalQueueDelay m + (ur_since r - se_queuedAt entry),
                     totalUploadDuration := totalUploadDuration m + (ur_end r - ur_start r),
                     totalBytesUploaded := totalBytesUploaded m + hr_contentLength (se_request entry)\<rparr>)))"

fun upload :: "int \<Rightarrow> SinkEntry \<Rightarrow> upload_round list \<Rightarrow> SinkMetrics \<Rightarrow> upload_outcome \<times> SinkMetrics" where
  "upload cap entry [] m = (Running, m)"
| "upload cap entry (r # rs) m =
     (case uploadRound cap entry r m of
        (Running, m') \<Rightarrow> upload cap entry rs m'
      | res \<Rightarrow> res)"

section \<open>How the queue behaves\<close>

lemma enqueue_full:
  "0 < cap \<Longrightarrow> int (length q) \<le> cap \<Longrightarrow>
   enqueue e cap (q, d) = Some ((if int (length q) = cap then tl q else q) @ [e], if int (length q) = cap then Suc d else d)"
  by (cases q) auto

declare enqueue.simps [simp del]

text \<open>The queue of a sink with the capacity it was made with and the number of dropped entries.\<close>

type_synonym queue_state = "int \<times> SinkEntry list \<times> nat"

definition queue_push :: "SinkEntry \<Rightarrow> queue_state \<Rightarrow> queue_state" where
  "queue_push e st = (case st of (cap, q, d) \<Rightarrow> (case enqueue e cap (q, d) of Some (q', d') \<Rightarrow> (cap, q', d') | None \<Rightarrow> st))"

definition queue_ok :: "queue_state \<Rightarrow> bool" where
  "queue_ok st = (case st of (cap, q, d) \<Rightarrow> 0 < cap \<and> int (length q) \<le> cap)"

lemma queue_push_eq:
  "queue_ok (cap, q, d) \<Longrightarrow> queue_push e (cap, q, d) =
     (cap, (if int (length q) = cap then tl q else q) @ [e], if int (length q) = cap then Suc d else d)"
  by (simp add: queue_push_def queue_ok_def enqueue_full)

interpretation sinkq: bounded_window queue_push "\<lambda>(cap, q, d). q" "\<lambda>(cap, q, d). nat cap" queue_ok
proof (unfold_locales, goal_cases)
  case (1 st x)
  then show ?case by (cases st) (auto simp: queue_push_eq queue_ok_def)
next
  case (2 st x)
  then show ?case by (cases st) (auto simp: queue_push_eq)
next
  case (3 st x)
  obtain cap q d where st: "st = (cap, q, d)" by (metis prod_cases3)
  with 3 show ?case by (cases q) (auto simp: queue_push_eq queue_ok_def)
next
  case (4 st)
  then show ?case by (cases st) (auto simp: queue_ok_def)
qed

lemma queue_push_dropped:
  assumes "queue_ok (cap, q, d)" "queue_push e (cap, q, d) = (cap', q', d')"
  shows "cap' = cap \<and> int d' + int (length q') = int d + int (length q) + 1"
proof -
  have eq: "cap' = cap" "q' = (if int (length q) = cap then tl q else q) @ [e]" "d' = (if int (length q) = cap then Suc d else d)"
    using assms(2) unfolding queue_push_eq [OF assms(1)] prod.inject by blast+
  have "0 < cap" using assms(1) by (simp add: queue_ok_def)
  with eq show ?thesis by (cases q) simp_all
qed

lemma queue_fold_dropped:
  "queue_ok (cap, q, d) \<Longrightarrow> fold queue_push es (cap, q, d) = (cap', q', d') \<Longrightarrow>
     cap' = cap \<and> int d' + int (length q') = int d + int (length q) + int (length es)"
proof (induction es arbitrary: q d)
  case Nil
  then show ?case by simp
next
  case (Cons e es)
  obtain q1 d1 where one: "queue_push e (cap, q, d) = (cap, q1, d1)"
    using Cons.prems(1) by (simp add: queue_push_eq)
  with Cons.prems sinkq.ok_push [OF Cons.prems(1), of e] queue_push_dropped [OF Cons.prems(1) one] Cons.IH [of q1 d1]
  show ?case by simp
qed

text \<open>Enqueuing entries one after the other.\<close>

fun enqueue_all :: "SinkEntry list \<Rightarrow> int \<Rightarrow> SinkEntry list \<times> nat \<Rightarrow> (SinkEntry list \<times> nat) option" where
  "enqueue_all [] cap st = Some st"
| "enqueue_all (e # es) cap st = Option.bind (enqueue e cap st) (enqueue_all es cap)"

lemma enqueue_all_fold:
  "queue_ok (cap, q, d) \<Longrightarrow> enqueue_all es cap (q, d) = Some (snd (fold queue_push es (cap, q, d)))"
proof (induction es arbitrary: q d)
  case Nil
  then show ?case by simp
next
  case (Cons e es)
  have "enqueue e cap (q, d) = Some (snd (queue_push e (cap, q, d)))"
    using Cons.prems by (simp add: queue_push_eq queue_ok_def enqueue_full)
  moreover have "fst (queue_push e (cap, q, d)) = cap" using Cons.prems by (simp add: queue_push_eq)
  ultimately show ?case
    using Cons.IH [of "fst (snd (queue_push e (cap, q, d)))" "snd (snd (queue_push e (cap, q, d)))"]
      sinkq.ok_push [OF Cons.prems, of e]
    by (cases "queue_push e (cap, q, d)") simp
qed

section \<open>Properties\<close>

text \<open>C25. A sink's queue of positive size takes every request at once, without waiting: afterwards it
  holds the newest requests in order, at most as many as its size, and the counter of dropped requests
  has grown by exactly the number of requests that are neither queued nor were taken by the worker.\<close>

theorem sink_queue_keeps_newest:
  assumes "0 < cap" "int (length q) \<le> cap"
  shows "\<exists>q' d'. enqueue_all es cap (q, d) = Some (q', d')
    \<and> q' = drop (length (q @ es) - nat cap) (q @ es)
    \<and> d' + length q' = d + length q + length es"
proof -
  have ok: "queue_ok (cap, q, d)" using assms by (simp add: queue_ok_def)
  obtain cap' q' d' where f: "fold queue_push es (cap, q, d) = (cap', q', d')" by (metis prod_cases3)
  have "q' = drop (length (q @ es) - nat cap) (q @ es)"
    using sinkq.items_fold [OF ok, of es] f by simp
  moreover have "d' + length q' = d + length q + length es" using queue_fold_dropped [OF ok f] by linarith
  moreover have "enqueue_all es cap (q, d) = Some (q', d')" using enqueue_all_fold [OF ok, of es] f by simp
  ultimately show ?thesis by blast
qed

definition demo_entry :: "time \<Rightarrow> SinkEntry" where
  "demo_entry t = \<lparr>se_request = \<lparr>hr_method = ''PUT'', hr_url = \<lparr>u_scheme = ''http'', u_host = ''h'', u_path = ''/a'', u_rawPath = ''''\<rparr>,
       hr_basicAuth = None, hr_body = ''x'', hr_contentLength = 1\<rparr>, se_deadline = t + 6 * second, se_queuedAt = t\<rparr>"

theorem sink_queue_keeps_newest_witness:
  "\<exists>d'. enqueue_all [demo_entry 2, demo_entry 3] 2 ([demo_entry 1], 0) = Some ([demo_entry 2, demo_entry 3], d') \<and> d' = 1"
  using sink_queue_keeps_newest [of 2 "[demo_entry 1]" "[demo_entry 2, demo_entry 3]" 0] by auto

text \<open>C26. Every request the worker takes is counted once: as uploaded, with its bytes, or as dropped,
  and neither only if the worker is stopped while it waits for a retry. It counts as uploaded only if the
  sink answered one of its requests with a 2xx code.\<close>

theorem upload_counted_once:
  assumes "upload cap entry rs m = (out, m')"
  shows "totalNumUploaded m' = totalNumUploaded m + (if out = Uploaded then 1 else 0)
    \<and> totalNumDropped m' = totalNumDropped m + (if out = Dropped then 1 else 0)
    \<and> totalBytesUploaded m' = totalBytesUploaded m + (if out = Uploaded then hr_contentLength (se_request entry) else 0)
    \<and> totalTransientErrors m' \<le> totalTransientErrors m + length rs
    \<and> (out = Uploaded \<longrightarrow> (\<exists>r \<in> set rs. \<exists>code. ur_result r = Status code \<and> 200 \<le> code \<and> code \<le> 299))"
  using assms
proof (induction rs arbitrary: m)
  case Nil
  then show ?case by simp
next
  case (Cons r rs)
  obtain o1 m1 where one: "uploadRound cap entry r m = (o1, m1)" by force
  have eff: "totalNumUploaded m1 = totalNumUploaded m + (if o1 = Uploaded then 1 else 0)
    \<and> totalNumDropped m1 = totalNumDropped m + (if o1 = Dropped then 1 else 0)
    \<and> totalBytesUploaded m1 = totalBytesUploaded m + (if o1 = Uploaded then hr_contentLength (se_request entry) else 0)
    \<and> totalTransientErrors m1 \<le> totalTransientErrors m + 1
    \<and> (o1 = Uploaded \<longrightarrow> (\<exists>code. ur_result r = Status code \<and> 200 \<le> code \<and> code \<le> 299))"
    using one by (auto simp: uploadRound_def Let_def split: if_splits client_result.splits)
  show ?case
  proof (cases "o1 = Running")
    case True
    with Cons.prems one have "upload cap entry rs m1 = (out, m')" by simp
    from Cons.IH [OF this] eff True show ?thesis by auto
  next
    case False
    with Cons.prems one have "out = o1" "m' = m1" by (auto split: upload_outcome.splits)
    with eff show ?thesis by auto
  qed
qed

theorem upload_counted_once_witness:
  "\<exists>m'. upload 10 (demo_entry 0) [\<lparr>ur_checked = 1, ur_since = 1, ur_start = 1, ur_result = Status 503, ur_end = 2, ur_queueLen = 0, ur_cancelled = False\<rparr>,
       \<lparr>ur_checked = 2 * second, ur_since = 1, ur_start = 2 * second, ur_result = Status 200, ur_end = 3 * second, ur_queueLen = 0, ur_cancelled = False\<rparr>]
       NewSinkMetrics = (Uploaded, m') \<and> totalNumUploaded m' = 1 \<and> totalNumDropped m' = 0 \<and> totalBytesUploaded m' = 1"
proof -
  let ?rs = "[\<lparr>ur_checked = 1, ur_since = 1, ur_start = 1, ur_result = Status 503, ur_end = 2, ur_queueLen = 0, ur_cancelled = False\<rparr>,
       \<lparr>ur_checked = 2 * second, ur_since = 1, ur_start = 2 * second, ur_result = Status 200, ur_end = 3 * second, ur_queueLen = 0, ur_cancelled = False\<rparr>]"
  obtain m' where res: "upload 10 (demo_entry 0) ?rs NewSinkMetrics = (Uploaded, m')"
    by (simp add: uploadRound_def demo_entry_def second_def Let_def)
  from upload_counted_once [OF res] res show ?thesis
    by (simp add: NewSinkMetrics_def demo_entry_def)
qed

text \<open>C27. The retry loop ends. A retry comes at least a second after the round before it, so no entry
  is tried for longer than its deadline allows: once there have been more rounds than seconds between
  the first look at the clock and the deadline, plus one, the loop is over.\<close>

theorem upload_ends:
  assumes "\<And>i. Suc i < length rs \<Longrightarrow> ur_checked (rs ! i) + second \<le> ur_checked (rs ! Suc i)"
    and "rs \<noteq> []" "se_deadline entry < ur_checked (hd rs) + (int (length rs) - 1) * second"
  shows "fst (upload cap entry rs m) \<noteq> Running"
  using assms
proof (induction rs arbitrary: m)
  case Nil
  then show ?case by simp
next
  case (Cons r rs)
  obtain o1 m1 where one: "uploadRound cap entry r m = (o1, m1)" by force
  show ?case
  proof (cases "o1 = Running")
    case False
    then show ?thesis by (simp add: one split: upload_outcome.splits)
  next
    case True
    then have "ur_checked r \<le> se_deadline entry"
      using one by (auto simp: uploadRound_def Let_def split: if_splits)
    then have ne: "rs \<noteq> []" using Cons.prems(3) by auto
    have first: "ur_checked r + second \<le> ur_checked (hd rs)"
      using Cons.prems(1) [of 0] ne by (simp add: hd_conv_nth)
    have "\<And>i. Suc i < length rs \<Longrightarrow> ur_checked (rs ! i) + second \<le> ur_checked (rs ! Suc i)"
      using Cons.prems(1) by fastforce
    moreover have "se_deadline entry < ur_checked (hd rs) + (int (length rs) - 1) * second"
      using Cons.prems(3) first by (simp add: algebra_simps)
    ultimately have "fst (upload cap entry rs m1) \<noteq> Running" using Cons.IH ne by blast
    with one True show ?thesis by simp
  qed
qed

theorem upload_ends_witness:
  "fst (upload 10 (demo_entry 0) (map (\<lambda>i. \<lparr>ur_checked = int i * second, ur_since = 1, ur_start = 0, ur_result = Status 503, ur_end = 0,
      ur_queueLen = 0, ur_cancelled = False\<rparr>) [0..<9]) NewSinkMetrics) \<noteq> Running"
proof (rule upload_ends)
  fix i
  assume "Suc i < length (map (\<lambda>i. \<lparr>ur_checked = int i * second, ur_since = 1, ur_start = 0, ur_result = Status 503, ur_end = 0,
      ur_queueLen = 0, ur_cancelled = False\<rparr>) [0..<9])"
  then show "ur_checked (map (\<lambda>i. \<lparr>ur_checked = int i * second, ur_since = 1, ur_start = 0, ur_result = Status 503, ur_end = 0,
      ur_queueLen = 0, ur_cancelled = False\<rparr>) [0..<9] ! i) + second
    \<le> ur_checked (map (\<lambda>i. \<lparr>ur_checked = int i * second, ur_since = 1, ur_start = 0, ur_result = Status 503, ur_end = 0,
      ur_queueLen = 0, ur_cancelled = False\<rparr>) [0..<9] ! Suc i)"
    by (simp add: algebra_simps)
qed (simp_all add: hd_map demo_entry_def second_def)

end
