(* ===== verification/Proxy.thy ===== *)
theory Proxy
  imports Sink
begin

text \<open>
  \<open>src/cmd/upload-proxy/proxy.go\<close>: the proxy that copies every upload to all its sinks. The set of
  sinks follows the configuration; a sink that is no longer configured is kept for a grace period.
  \<open>clk\<close> gives the clock readings, per sink address where the code reads the clock per sink.
\<close>

record Proxy =
  pr_sinks :: "Sink list"
  pr_registered :: "string set"
  pr_numRead :: nat
  pr_readDelay :: duration

definition MaxFileSize :: nat where
  "MaxFileSize = 50 * 1024 * 1024"

definition firstErr :: "'e option \<Rightarrow> 'e option \<Rightarrow> 'e option" where
  "firstErr err errPtr = (if errPtr = None then err else errPtr)"

section \<open>Following the configuration\<close>

definition markRemoved :: "(string \<Rightarrow> time) \<Rightarrow> SinkConfig list \<Rightarrow> Sink \<Rightarrow> Sink" where
  "markRemoved clk confs s =
     (if \<exists>c \<in> set confs. Address s = sn_address c then s else StartGracePeriod (clk (Address s)) s)"

text \<open>The inner loop of the second part: the first sink with that address is updated.\<close>

fun updateFirst :: "SinkConfig \<Rightarrow> Sink list \<Rightarrow> string set \<Rightarrow> (sink_error option \<times> bool \<times> Sink list \<times> string set) go" where
  "updateFirst c [] reg = Inr (None, False, [], reg)"
| "updateFirst c (s # ss) reg =
     (if Address s \<noteq> sn_address c then
        go_bind (updateFirst c ss reg) (\<lambda>(e, upd, ss', reg'). Inr (e, upd, s # ss', reg'))
      else go_bind (Sink_UpdateConfig c (s, reg)) (\<lambda>(e, s', reg'). Inr (e, True, s' # ss, reg')))"

fun updateExisting :: "SinkConfig list \<Rightarrow> sink_error option \<times> SinkConfig list \<times> Sink list \<times> string set \<Rightarrow>
    (sink_error option \<times> SinkConfig list \<times> Sink list \<times> string set) go" where
  "updateExisting [] st = Inr st"
| "updateExisting (c # cs) (err, new, ss, reg) =
     go_bind (updateFirst c ss reg) (\<lambda>(e, upd, ss', reg').
       updateExisting cs (firstErr e err, if upd then new else new @ [c], ss', reg'))"

fun createSinks :: "(string \<Rightarrow> string + url) \<Rightarrow> SinkConfig list \<Rightarrow> sink_error option \<times> Sink list \<times> string set \<Rightarrow>
    (sink_error option \<times> Sink list \<times> string set) go" where
  "createSinks parse [] st = Inr st"
| "createSinks parse (c # cs) (err, ss, reg) =
     go_bind (NewSink parse c reg) (\<lambda>(res, reg').
       case res of
         Inl e \<Rightarrow> createSinks parse cs (firstErr (Some (InvalidSinkAddress e)) err, ss, reg')
       | Inr s \<Rightarrow> createSinks parse cs (err, ss @ [s], reg'))"

definition Proxy_UpdateConfig :: "(string \<Rightarrow> string + url) \<Rightarrow> (string \<Rightarrow> time) \<Rightarrow> SinkConfig list \<Rightarrow> Proxy \<Rightarrow>
    (sink_error option \<times> Proxy) go" where
  "Proxy_UpdateConfig parse clk confs p =
     go_bind (updateExisting confs (None, [], map (markRemoved clk confs) (pr_sinks p), pr_registered p)) (\<lambda>(err, new, ss, reg).
     go_bind (createSinks parse new (err, ss, reg)) (\<lambda>(err', ss', reg').
     Inr (err', p\<lparr>pr_sinks := ss', pr_registered := reg'\<rparr>)))"

text \<open>A tick of \<open>runTimeout\<close>.\<close>

fun dropStale :: "(string \<Rightarrow> time) \<Rightarrow> Sink list \<Rightarrow> string set \<Rightarrow> Sink list \<times> string set" where
  "dropStale clk [] reg = ([], reg)"
| "dropStale clk (s # ss) reg =
     (if IsStale (clk (Address s)) s then dropStale clk ss (Sink_Stop s reg)
      else apfst (Cons s) (dropStale clk ss reg))"

definition Proxy_timeout :: "(string \<Rightarrow> time) \<Rightarrow> Proxy \<Rightarrow> Proxy" where
  "Proxy_timeout clk p =
     (case dropStale clk (pr_sinks p) (pr_registered p) of (ss, reg) \<Rightarrow> p\<lparr>pr_sinks := ss, pr_registered := reg\<rparr>)"

section \<open>Uploads\<close>

definition getDeadline :: "string \<Rightarrow> time \<Rightarrow> time" where
  "getDeadline path now =
     (let e = ext path
      in if e = ''.m3u8'' \<or> e = ''.mpd'' then now + 6 * second
         else if e = ''.jpg'' \<or> e = ''.jpeg'' then now + 20 * second
         else now + 60 * second)"

fun handleAll :: "http_request \<Rightarrow> time \<Rightarrow> time \<Rightarrow> Sink list \<Rightarrow> Sink list go option" where
  "handleAll req deadline now [] = Some (Inr [])"
| "handleAll req deadline now (s # ss) =
     Option.bind (Sink_handle req deadline now s) (\<lambda>res.
       case res of
         Inl p \<Rightarrow> Some (Inl p)
       | Inr s' \<Rightarrow> map_option (\<lambda>r. go_bind r (\<lambda>ss'. Inr (s' # ss'))) (handleAll req deadline now ss))"

text \<open>
  \<open>HandleUpload\<close>: the body is what arrives, or the error that ended it; \<open>MaxBytesReader\<close> makes a longer
  one an error. \<open>None\<close>: it waits for a queue.
\<close>

definition Proxy_HandleUpload :: "http_request \<Rightarrow> string + string \<Rightarrow> duration \<Rightarrow> time \<Rightarrow> Proxy \<Rightarrow> (nat \<times> Proxy) go option" where
  "Proxy_HandleUpload r body readTime now p =
     (if hr_method r \<notin> {''PUT'', ''POST'', ''DELETE''} then Some (Inr (200, p))
      else
        case body of
          Inl err \<Rightarrow> Some (Inr (500, p))
        | Inr b \<Rightarrow>
            if length b > MaxFileSize then Some (Inr (500, p))
            else
              let deadline = getDeadline (u_path (hr_url r)) now;
                  req = r\<lparr>hr_contentLength := int (length b), hr_body := b\<rparr>
              in map_option
                   (\<lambda>res. go_bind res (\<lambda>ss. Inr (200, p\<lparr>pr_sinks := ss, pr_numRead := Suc (pr_numRead p),
                                                       pr_readDelay := pr_readDelay p + readTime\<rparr>)))
                   (handleAll req deadline now (pr_sinks p)))"

section \<open>The sinks after an update\<close>

text \<open>Addresses are distinct, and counters are registered for exactly the sinks there are.\<close>

definition sinks_ok :: "Sink list \<Rightarrow> string set \<Rightarrow> bool" where
  "sinks_ok ss reg \<longleftrightarrow> distinct (map Address ss) \<and> reg = Address ` set ss"

lemma Sink_UpdateConfig_ok:
  assumes "Address s \<in> reg" "sn_address c = Address s"
  shows "\<exists>e s'. Sink_UpdateConfig c (s, reg) = Inr (e, s', reg) \<and> Address s' = Address s
    \<and> sk_graceDeadline s' = 0 \<and> sk_queue s' = sk_queue s \<and> sk_url s' = sk_url s \<and> sn_queueSize (sk_conf s') = sn_queueSize (sk_conf s)"
proof -
  have "insert (sn_address (sk_conf s)) (reg - {sn_address (sk_conf s)}) = reg"
    using assms(1) by (auto simp: Address_def)
  then show ?thesis
    using assms(2) by (auto simp: Sink_UpdateConfig_def Sink_Start_def Sink_Stop_def Address_def Let_def)
qed

text \<open>How a sink of the result relates to the sinks before: configured ones are current, others untouched.\<close>

definition from_old :: "string set \<Rightarrow> Sink list \<Rightarrow> Sink \<Rightarrow> bool" where
  "from_old A ss s' \<longleftrightarrow> (\<exists>s \<in> set ss. Address s = Address s' \<and> sk_queue s' = sk_queue s \<and> sk_url s' = sk_url s \<and> sn_queueSize (sk_conf s') = sn_queueSize (sk_conf s)
     \<and> (if Address s' \<in> A then sk_graceDeadline s' = 0 else s' = s))"

lemma from_old_Cons: "from_old A ss t \<Longrightarrow> from_old A (s # ss) t"
  by (fastforce simp: from_old_def)

lemma from_old_same: "s \<in> set ss \<Longrightarrow> Address s \<notin> A \<Longrightarrow> from_old A ss s"
  by (auto simp: from_old_def)

lemma updateFirst_ok:
  assumes "distinct (map Address ss)" "Address ` set ss \<subseteq> reg"
  shows "\<exists>e ss'. updateFirst c ss reg = Inr (e, sn_address c \<in> Address ` set ss, ss', reg)
    \<and> map Address ss' = map Address ss \<and> list_all (from_old {sn_address c} ss) ss'"
  using assms
proof (induction ss)
  case Nil
  then show ?case by simp
next
  case (Cons s ss)
  show ?case
  proof (cases "Address s = sn_address c")
    case True
    have "Address s \<in> reg" using Cons.prems(2) by simp
    from Sink_UpdateConfig_ok [OF this True [symmetric]]
    obtain e s' where upd: "Sink_UpdateConfig c (s, reg) = Inr (e, s', reg)" "Address s' = Address s"
      "sk_graceDeadline s' = 0" "sk_queue s' = sk_queue s" "sk_url s' = sk_url s" "sn_queueSize (sk_conf s') = sn_queueSize (sk_conf s)"
      by blast
    have ne: "Address t \<noteq> sn_address c" if "t \<in> set ss" for t
      using Cons.prems(1) True that by (metis distinct.simps(2) imageI list.set_map list.simps(9))
    have "from_old {sn_address c} (s # ss) t" if "t \<in> set (s' # ss)" for t
      using that upd True by (auto simp: from_old_def dest: ne)
    with True upd Cons.prems show ?thesis by (simp add: list_all_iff)
  next
    case False
    obtain e ss' where IH: "updateFirst c ss reg = Inr (e, sn_address c \<in> Address ` set ss, ss', reg)"
      "map Address ss' = map Address ss" "list_all (from_old {sn_address c} ss) ss'"
      using Cons by auto
    have "from_old {sn_address c} (s # ss) t" if "t \<in> set (s # ss')" for t
      using that IH(3) False by (auto simp: list_all_iff from_old_same from_old_Cons)
    with False IH show ?thesis by (auto simp: list_all_iff)
  qed
qed

lemma from_old_trans:
  "from_old B ss' s'' \<Longrightarrow> list_all (from_old A ss) ss' \<Longrightarrow> from_old (A \<union> B) ss s''"
  by (fastforce simp: from_old_def list_all_iff split: if_splits)

lemma from_old_refl: "list_all (from_old {} ss) ss"
  by (auto simp: from_old_def list_all_iff)

lemma updateExisting_ok:
  assumes "distinct (map Address ss)" "Address ` set ss \<subseteq> reg"
  shows "\<exists>err' ss'. updateExisting cs (err, new, ss, reg) =
      Inr (err', new @ filter (\<lambda>c. sn_address c \<notin> Address ` set ss) cs, ss', reg)
    \<and> map Address ss' = map Address ss \<and> list_all (from_old (sn_address ` set cs) ss) ss'"
  using assms
proof (induction cs arbitrary: err new ss)
  case Nil
  then show ?case by (simp add: from_old_refl)
next
  case (Cons c cs)
  obtain e ss1 where one: "updateFirst c ss reg = Inr (e, sn_address c \<in> Address ` set ss, ss1, reg)"
    "map Address ss1 = map Address ss" "list_all (from_old {sn_address c} ss) ss1"
    using updateFirst_ok [OF Cons.prems] by blast
  have same: "Address ` set ss1 = Address ` set ss" using one(2) by (metis list.set_map)
  let ?new = "if sn_address c \<in> Address ` set ss then new else new @ [c]"
  obtain err' ss' where IH: "updateExisting cs (firstErr e err, ?new, ss1, reg) =
      Inr (err', ?new @ filter (\<lambda>c. sn_address c \<notin> Address ` set ss) cs, ss', reg)"
    "map Address ss' = map Address ss" "list_all (from_old (sn_address ` set cs) ss1) ss'"
    using Cons.IH [of ss1 "firstErr e err" ?new] Cons.prems one(2) same by auto
  have "list_all (from_old (sn_address ` set (c # cs)) ss) ss'"
    using IH(3) from_old_trans [OF _ one(3), of "sn_address ` set cs"] by (simp add: list_all_iff)
  with one(1) IH(1,2) show ?case by auto
qed

definition parses :: "(string \<Rightarrow> string + url) \<Rightarrow> SinkConfig \<Rightarrow> bool" where
  "parses parse c \<longleftrightarrow> (\<exists>u. parse (sn_address c) = Inr u)"

lemma createSinks_ok:
  assumes "distinct (map sn_address cs)" "sn_address ` set cs \<inter> reg = {}" "\<forall>c \<in> set cs. 0 \<le> sn_queueSize c"
  shows "\<exists>err' new. createSinks parse cs (err, ss, reg) = Inr (err', ss @ new, reg \<union> Address ` set new)
    \<and> map Address new = map sn_address (filter (parses parse) cs)
    \<and> (\<forall>s \<in> set new. sk_graceDeadline s = 0 \<and> sk_queue s = [] \<and> sk_conf s \<in> set cs \<and> parse (Address s) = Inr (sk_url s))"
  using assms
proof (induction cs arbitrary: err ss reg)
  case Nil
  then show ?case by simp
next
  case (Cons c cs)
  show ?case
  proof (cases "parse (sn_address c)")
    case (Inl e)
    then have "\<not> parses parse c" by (simp add: parses_def)
    with Inl Cons.IH [of reg "firstErr (Some (InvalidSinkAddress e)) err" ss] Cons.prems show ?thesis
      by (fastforce simp: NewSink_def)
  next
    case (Inr u)
    let ?s = "\<lparr>sk_conf = c, sk_url = u, sk_queue = [], sk_graceDeadline = 0, sk_metrics = NewSinkMetrics\<rparr>"
    have "sn_address c \<notin> reg" "0 \<le> sn_queueSize c" using Cons.prems by auto
    then have new: "NewSink parse c reg = Inr (Inr ?s, insert (sn_address c) reg)"
      using Inr by (simp add: NewSink_def Sink_Start_def Address_def)
    obtain err' new where IH: "createSinks parse cs (err, ss @ [?s], insert (sn_address c) reg) =
        Inr (err', (ss @ [?s]) @ new, insert (sn_address c) reg \<union> Address ` set new)"
      "map Address new = map sn_address (filter (parses parse) cs)"
      "\<forall>s \<in> set new. sk_graceDeadline s = 0 \<and> sk_queue s = [] \<and> sk_conf s \<in> set cs \<and> parse (Address s) = Inr (sk_url s)"
      using Cons.IH [of "insert (sn_address c) reg" err "ss @ [?s]"] Cons.prems by auto
    have "parses parse c" "Address ?s = sn_address c" using Inr by (simp_all add: parses_def Address_def)
    with IH new Inr show ?thesis
      by (intro exI [of _ err'] exI [of _ "?s # new"]) simp
  qed
qed

lemma markRemoved_simps [simp]:
  "Address (markRemoved clk cs s) = Address s" "sk_queue (markRemoved clk cs s) = sk_queue s"
  "sk_url (markRemoved clk cs s) = sk_url s" "sk_conf (markRemoved clk cs s) = sk_conf s"
  by (simp_all add: markRemoved_def StartGracePeriod_def Address_def)

definition proxy_ok :: "Proxy \<Rightarrow> bool" where
  "proxy_ok p \<longleftrightarrow> sinks_ok (pr_sinks p) (pr_registered p)"

lemma filtered_apart: "A \<inter> f ` {x \<in> {x \<in> S. f x \<notin> A}. P x} = {}"
  by blast

text \<open>What an update of the configuration has done to a sink: a configured one is not to be removed, any
  other is an old one that keeps its queue and has a grace deadline.\<close>

definition removal_state :: "(string \<Rightarrow> time) \<Rightarrow> SinkConfig list \<Rightarrow> Sink list \<Rightarrow> Sink \<Rightarrow> bool" where
  "removal_state clk confs old s' \<longleftrightarrow>
     (if Address s' \<in> sn_address ` set confs then sk_graceDeadline s' = 0
      else \<exists>s \<in> set old. Address s = Address s' \<and> sk_queue s' = sk_queue s
         \<and> sk_graceDeadline s' = (if sk_graceDeadline s = 0 then clk (Address s) + GracePeriod else sk_graceDeadline s))"

lemma from_old_removal_state:
  assumes "from_old (sn_address ` set confs) (map (markRemoved clk confs) old) s'"
  shows "removal_state clk confs old s'"
proof -
  from assms obtain s where s: "s \<in> set old" "Address s = Address s'"
    "if Address s' \<in> sn_address ` set confs then sk_graceDeadline s' = 0 else s' = markRemoved clk confs s"
    by (auto simp: from_old_def)
  show ?thesis
  proof (cases "Address s' \<in> sn_address ` set confs")
    case True
    with s(3) show ?thesis by (simp add: removal_state_def)
  next
    case False
    have "\<not> (\<exists>c \<in> set confs. Address s = sn_address c)" using False unfolding s(2) by blast
    moreover have "s' = markRemoved clk confs s" using s(3) False by (simp only: if_False)
    ultimately have "s' = StartGracePeriod (clk (Address s)) s" by (simp only: markRemoved_def if_False)
    then have "sk_queue s' = sk_queue s"
      "sk_graceDeadline s' = (if sk_graceDeadline s = 0 then clk (Address s) + GracePeriod else sk_graceDeadline s)"
      by (simp_all add: StartGracePeriod_def)
    with False s(1,2) show ?thesis by (auto simp: removal_state_def)
  qed
qed

text \<open>Where a sink comes from: an old one that keeps its queue with the size and the URL, or a new one.\<close>

definition lineage :: "(string \<Rightarrow> string + url) \<Rightarrow> SinkConfig list \<Rightarrow> Sink list \<Rightarrow> Sink \<Rightarrow> bool" where
  "lineage parse confs old s' \<longleftrightarrow> from_old UNIV old (s'\<lparr>sk_graceDeadline := 0\<rparr>)
     \<or> sk_queue s' = [] \<and> sk_conf s' \<in> set confs \<and> parse (Address s') = Inr (sk_url s')"

lemma from_old_lineage:
  "from_old A (map (markRemoved clk confs) old) s' \<Longrightarrow> lineage parse confs old s'"
  by (auto simp: from_old_def lineage_def Address_def)

text \<open>After an update of the configuration the proxy has its old sinks and those of the
  configuration whose address is a URL, each once. A configured sink is not about to be removed; a sink
  that is no longer configured keeps its queue and has a grace deadline: the one it already had, or
  else five minutes from now. Nothing panics.\<close>

lemma proxy_update_sinks:
  assumes "proxy_ok p" "distinct (map sn_address confs)" "\<forall>c \<in> set confs. 0 \<le> sn_queueSize c"
  shows "\<exists>err p'. Proxy_UpdateConfig parse clk confs p = Inr (err, p') \<and> proxy_ok p'
    \<and> Address ` set (pr_sinks p') = Address ` set (pr_sinks p) \<union> {sn_address c | c. c \<in> set confs \<and> parses parse c \<and> sn_address c \<notin> Address ` set (pr_sinks p)}
    \<and> (\<forall>s' \<in> set (pr_sinks p'). removal_state clk confs (pr_sinks p) s' \<and> lineage parse confs (pr_sinks p) s')"
proof -
  let ?old = "map (markRemoved clk confs) (pr_sinks p)" and ?reg = "pr_registered p"
  have d: "distinct (map Address ?old)" and reg: "?reg = Address ` set ?old"
    using assms(1) by (auto simp: proxy_ok_def sinks_ok_def comp_def image_image)
  obtain err1 ss1 where 1: "updateExisting confs (None, [], ?old, ?reg) =
      Inr (err1, filter (\<lambda>c. sn_address c \<notin> Address ` set ?old) confs, ss1, ?reg)"
    "map Address ss1 = map Address ?old" "list_all (from_old (sn_address ` set confs) ?old) ss1"
    using updateExisting_ok [OF d, of ?reg confs None "[]"] reg by auto
  let ?new = "filter (\<lambda>c. sn_address c \<notin> Address ` set ?old) confs"
  have same: "Address ` set ss1 = Address ` set ?old" using 1(2) by (metis list.set_map)
  have "distinct (map sn_address ?new)" using assms(2) by (simp add: distinct_map_filter)
  moreover have "sn_address ` set ?new \<inter> ?reg = {}" using reg by auto
  ultimately obtain err2 new where 2: "createSinks parse ?new (err1, ss1, ?reg) = Inr (err2, ss1 @ new, ?reg \<union> Address ` set new)"
    "map Address new = map sn_address (filter (parses parse) ?new)" "\<forall>s \<in> set new. sk_graceDeadline s = 0 \<and> sk_queue s = [] \<and> sk_conf s \<in> set ?new \<and> parse (Address s) = Inr (sk_url s)"
    using createSinks_ok [of ?new ?reg parse err1 ss1] assms(3) by auto
  have new: "Address ` set new = sn_address ` set (filter (parses parse) ?new)" using 2(2) by (metis list.set_map)
  have "Address ` set ss1 \<inter> Address ` set new = {}"
    unfolding same new by (simp only: set_filter filtered_apart)
  moreover have "distinct (map Address ss1)" "distinct (map Address new)"
    using d 1(2) 2(2) assms(2) by (simp_all add: distinct_map_filter)
  ultimately have "distinct (map Address (ss1 @ new))" by simp
  then have ok: "sinks_ok (ss1 @ new) (?reg \<union> Address ` set new)"
    unfolding sinks_ok_def reg set_append image_Un same by simp
  have addr: "Address ` set (ss1 @ new) = Address ` set (pr_sinks p)
      \<union> {sn_address c | c. c \<in> set confs \<and> parses parse c \<and> sn_address c \<notin> Address ` set (pr_sinks p)}"
    unfolding set_append image_Un same new by (auto simp: image_image)
  have "removal_state clk confs (pr_sinks p) s' \<and> lineage parse confs (pr_sinks p) s'" if "s' \<in> set (ss1 @ new)" for s'
  proof (cases "s' \<in> set new")
    case True
    then have "Address s' \<in> sn_address ` set confs" using new by auto
    with True 2(3) show ?thesis by (simp add: removal_state_def lineage_def)
  next
    case False
    then have "from_old (sn_address ` set confs) ?old s'" using that 1(3) by (auto simp: list_all_iff)
    then show ?thesis by (intro conjI from_old_removal_state from_old_lineage)
  qed
  then show ?thesis
    using 1(1) 2(1) ok addr by (simp add: Proxy_UpdateConfig_def proxy_ok_def)
qed

definition demo_conf :: "string \<Rightarrow> SinkConfig" where
  "demo_conf a = \<lparr>sn_address = a, sn_queueSize = 8, sn_auth = \<lparr>au_username = '''', au_password = '''', au_authType = ''''\<rparr>\<rparr>"

definition demo_url :: url where
  "demo_url = \<lparr>u_scheme = ''http'', u_host = ''h'', u_path = ''/up/'', u_rawPath = ''''\<rparr>"

definition demo_sink :: "string \<Rightarrow> Sink" where
  "demo_sink a = \<lparr>sk_conf = demo_conf a, sk_url = demo_url, sk_queue = [], sk_graceDeadline = 0, sk_metrics = NewSinkMetrics\<rparr>"

definition demo_proxy :: Proxy where
  "demo_proxy = \<lparr>pr_sinks = [demo_sink ''a''], pr_registered = {''a''}, pr_numRead = 0, pr_readDelay = 0\<rparr>"

section \<open>The timeout and uploads\<close>

lemma dropStale_eq:
  "dropStale clk ss reg = (filter (\<lambda>s. \<not> IsStale (clk (Address s)) s) ss, reg - Address ` {s \<in> set ss. IsStale (clk (Address s)) s})"
  by (induction ss arbitrary: reg) (auto simp: Sink_Stop_def)

text \<open>The timeout removes exactly the sinks whose grace deadline has passed, with their counters, and
  no others: a sink that left the configuration at a time \<open>t\<close> is still there, queue and all, at any
  tick up to five minutes later, and gone after the first tick beyond.\<close>

lemma proxy_timeout_exact:
  assumes "proxy_ok p"
  shows "proxy_ok (Proxy_timeout clk p)
    \<and> set (pr_sinks (Proxy_timeout clk p)) =
        {s \<in> set (pr_sinks p). sk_graceDeadline s = 0 \<or> clk (Address s) \<le> sk_graceDeadline s}"
proof -
  have "Address ` set (pr_sinks p) - Address ` {s \<in> set (pr_sinks p). Q s} = Address ` {s \<in> set (pr_sinks p). \<not> Q s}" for Q
    using assms by (auto simp: proxy_ok_def sinks_ok_def distinct_map inj_on_def)
  with assms show ?thesis
    by (auto simp: Proxy_timeout_def dropStale_eq proxy_ok_def sinks_ok_def distinct_map_filter IsStale_def)
qed

text \<open>An address that occurs twice among the new sinks of a configuration stops the proxy: the second
  sink registers the same counters again, and that panics.\<close>

lemma duplicate_sink_panics:
  assumes "pr_sinks p = []" "pr_registered p = {}" "parse a = Inr u" "0 \<le> sn_queueSize c" "sn_address c = a"
    and "sn_address c' = a" "0 \<le> sn_queueSize c'"
  shows "Proxy_UpdateConfig parse clk [c, c'] p = Inl DuplicateMetrics"
  using assms by (simp add: Proxy_UpdateConfig_def NewSink_def Sink_Start_def Address_def)

text \<open>The entry a sink gets for a request.\<close>

definition entry_for :: "http_request \<Rightarrow> string \<Rightarrow> time \<Rightarrow> Sink \<Rightarrow> SinkEntry \<Rightarrow> bool" where
  "entry_for r b now s e \<longleftrightarrow>
     hr_method (se_request e) = hr_method r \<and> hr_body (se_request e) = b \<and> hr_contentLength (se_request e) = int (length b)
     \<and> u_scheme (hr_url (se_request e)) = u_scheme (sk_url s) \<and> u_host (hr_url (se_request e)) = u_host (sk_url s)
     \<and> u_path (hr_url (se_request e)) = trimSuffix (u_path (sk_url s)) ''/'' @ ''/'' @ trimPrefix (u_path (hr_url r)) ''/''
     \<and> hr_basicAuth (se_request e) = (if au_authType (sn_auth (sk_conf s)) = AuthTypeBasic
          then Some (au_username (sn_auth (sk_conf s)), au_password (sn_auth (sk_conf s))) else hr_basicAuth r)
     \<and> se_deadline e = getDeadline (u_path (hr_url r)) now"

lemma singleJoiningSlash_eq: "singleJoiningSlash a b = trimSuffix a ''/'' @ ''/'' @ trimPrefix b ''/''"
proof -
  have a: "\<exists>x. a = x @ ''/'' \<and> trimSuffix a ''/'' = x" if "hasSuffix a ''/''"
  proof -
    from that obtain x where "a = x @ ''/''" by (auto simp: hasSuffix_iff_suffix suffix_def)
    then show ?thesis using trimSuffix_append [of x "''/''"] by blast
  qed
  have b: "\<exists>x. b = ''/'' @ x \<and> trimPrefix b ''/'' = x" if "hasPrefix b ''/''"
  proof -
    from that obtain x where "b = ''/'' @ x" by (rule hasPrefixE)
    with that show ?thesis by (simp add: trimPrefix_def)
  qed
  have "a @ drop 1 b = trimSuffix a ''/'' @ ''/'' @ trimPrefix b ''/''" if sl: "hasSuffix a ''/''" "hasPrefix b ''/''"
  proof -
    obtain x y where "a = x @ ''/''" "trimSuffix a ''/'' = x" "b = ''/'' @ y" "trimPrefix b ''/'' = y"
      using a [OF sl(1)] b [OF sl(2)] by blast
    then show ?thesis by simp
  qed
  moreover have "\<not> hasSuffix a ''/'' \<Longrightarrow> trimSuffix a ''/'' = a" "\<not> hasPrefix b ''/'' \<Longrightarrow> trimPrefix b ''/'' = b"
    by (simp_all add: trimSuffix_def trimPrefix_def)
  ultimately show ?thesis
    using a b unfolding singleJoiningSlash_def Let_def
    by (cases "hasSuffix a ''/''"; cases "hasPrefix b ''/''") auto
qed

definition sink_ready :: "Sink \<Rightarrow> bool" where
  "sink_ready s \<longleftrightarrow> 0 < sn_queueSize (sk_conf s) \<and> int (length (sk_queue s)) \<le> sn_queueSize (sk_conf s) \<and> u_rawPath (sk_url s) = ''''"

definition takes :: "http_request \<Rightarrow> string \<Rightarrow> time \<Rightarrow> Sink \<Rightarrow> Sink \<Rightarrow> bool" where
  "takes r b now s s' \<longleftrightarrow> (\<exists>e. entry_for r b now s e \<and> sk_conf s' = sk_conf s
     \<and> sk_queue s' = (if int (length (sk_queue s)) = sn_queueSize (sk_conf s) then tl (sk_queue s) else sk_queue s) @ [e])"

lemma Sink_handle_takes:
  assumes "sink_ready s" "u_rawPath (hr_url r) = ''''"
  shows "\<exists>s'. Sink_handle (r\<lparr>hr_contentLength := int (length b), hr_body := b\<rparr>) (getDeadline (u_path (hr_url r)) now) now s = Some (Inr s')
    \<and> takes r b now s s'"
  using assms
  by (auto simp: Sink_handle_def joinURLPath_def sink_ready_def singleJoiningSlash_eq enqueue_full takes_def entry_for_def Let_def)

lemma handleAll_takes:
  "list_all sink_ready ss \<Longrightarrow> u_rawPath (hr_url r) = '''' \<Longrightarrow>
   \<exists>ss'. handleAll (r\<lparr>hr_contentLength := int (length b), hr_body := b\<rparr>) (getDeadline (u_path (hr_url r)) now) now ss = Some (Inr ss')
     \<and> list_all2 (takes r b now) ss ss'"
proof (induction ss)
  case Nil
  then show ?case by simp
next
  case (Cons s ss)
  with Sink_handle_takes [of s r b now] show ?case by auto
qed

text \<open>Every upload of at most 50 MB goes to every sink: the proxy answers 200 without waiting, and the
  queue of each sink ends with one new entry that carries the whole body, the sink's host and
  credentials, the sink's path and the request's joined by exactly one slash, and the deadline for that
  kind of file.\<close>

lemma upload_fans_out:
  assumes "hr_method r \<in> {''PUT'', ''POST'', ''DELETE''}" "length b \<le> MaxFileSize"
    and "list_all sink_ready (pr_sinks p)" "u_rawPath (hr_url r) = ''''"
  shows "\<exists>p'. Proxy_HandleUpload r (Inr b) readTime now p = Some (Inr (200, p'))
    \<and> list_all2 (takes r b now) (pr_sinks p) (pr_sinks p')"
  using handleAll_takes [OF assms(3,4), of b now] assms(1,2)
  by (auto simp: Proxy_HandleUpload_def Let_def)

end
