(* ===== verification/ProxyRun.thy ===== *)
theory ProxyRun
  imports Proxy
begin

text \<open>
  The life of the upload proxy: \<open>NewProxy\<close> and \<open>Wait\<close> of \<open>src/cmd/upload-proxy/proxy.go\<close>, \<open>main\<close> and \<open>run\<close> of
  \<open>main.go\<close>. After the start the proxy meets, in any order, signals that reload the configuration, ticks of its
  timeout, uploads, and workers that take an entry from their queue; \<open>proxy_run\<close> has the states this leads to, with
  the configuration that was loaded last.

  Reading files, decoding TOML, parsing URLs and listening are parameters, gathered in \<open>proxy_env\<close>. Files may change
  between reloads, so a reload has its own reading of them.
\<close>

section \<open>Start, reload and end\<close>

record proxy_env =
  pe_parse :: "string \<Rightarrow> string + url"
  pe_unmarshalConfig :: "string \<Rightarrow> ProxyConfig \<Rightarrow> string + ProxyConfig"
  pe_unmarshalAuth :: "string \<Rightarrow> AuthParams \<Rightarrow> string + AuthParams"
  pe_configPath :: string
  pe_authConfigPath :: string

type_synonym files = "string \<Rightarrow> string + string"

definition zero_config :: ProxyConfig where
  "zero_config = \<lparr>px_listenAddress = [], px_sinks = [], px_auth = \<lparr>au_username = [], au_password = [], au_authType = []\<rparr>\<rparr>"

definition env_load :: "proxy_env \<Rightarrow> files \<Rightarrow> ProxyConfig \<Rightarrow> load_error + ProxyConfig" where
  "env_load env readFile c =
     Config_Load readFile (pe_unmarshalConfig env) (pe_unmarshalAuth env) (pe_configPath env) (pe_authConfigPath env) c"

datatype start_error = LoadFailed load_error | ListenFailed string | InitFailed sink_error

definition NewProxy :: "proxy_env \<Rightarrow> (string \<Rightarrow> string option) \<Rightarrow> (string \<Rightarrow> time) \<Rightarrow> ProxyConfig \<Rightarrow> (start_error + Proxy) go" where
  "NewProxy env listen clk conf =
     (case listen (px_listenAddress conf) of
        Some e \<Rightarrow> Inr (Inl (ListenFailed e))
      | None \<Rightarrow>
          go_bind (Proxy_UpdateConfig (pe_parse env) clk (px_sinks conf)
                     \<lparr>pr_sinks = [], pr_registered = {}, pr_numRead = 0, pr_readDelay = 0\<rparr>) (\<lambda>(err, p).
            Inr (case err of Some e \<Rightarrow> Inl (InitFailed e) | None \<Rightarrow> Inr p)))"

text \<open>\<open>main\<close> loads over the address of its flag; \<open>run\<close> loads into a new configuration at every signal, goes on with
  the old one when that fails, and ignores the error of the update.\<close>

definition proxy_main :: "proxy_env \<Rightarrow> (string \<Rightarrow> string option) \<Rightarrow> (string \<Rightarrow> time) \<Rightarrow> files \<Rightarrow> string \<Rightarrow> (start_error + ProxyConfig \<times> Proxy) go" where
  "proxy_main env listen clk readFile addr =
     (case env_load env readFile (zero_config\<lparr>px_listenAddress := addr\<rparr>) of
        Inl e \<Rightarrow> Inr (Inl (LoadFailed e))
      | Inr conf \<Rightarrow> go_bind (NewProxy env listen clk conf) (\<lambda>r.
          Inr (case r of Inl e \<Rightarrow> Inl e | Inr p \<Rightarrow> Inr (conf, p))))"

definition proxy_reload :: "proxy_env \<Rightarrow> files \<Rightarrow> (string \<Rightarrow> time) \<Rightarrow> Proxy \<Rightarrow> Proxy go" where
  "proxy_reload env readFile clk p =
     (case env_load env readFile zero_config of
        Inl e \<Rightarrow> Inr p
      | Inr conf \<Rightarrow> go_bind (Proxy_UpdateConfig (pe_parse env) clk (px_sinks conf) p) (\<lambda>(err, p'). Inr p'))"

text \<open>\<open>Wait\<close>: every sink is stopped, which removes its counters; then those of the proxy are removed.\<close>

definition Proxy_Wait :: "Proxy \<Rightarrow> Proxy" where
  "Proxy_Wait p = p\<lparr>pr_registered := fold Sink_Stop (pr_sinks p) (pr_registered p)\<rparr>"

text \<open>\<open>Collect\<close> reports the number of sinks.\<close>

definition Proxy_Collect :: "Proxy \<Rightarrow> nat" where
  "Proxy_Collect p = length (pr_sinks p)"

text \<open>A worker receives the oldest entry of its queue.\<close>

definition sink_take :: "string \<Rightarrow> Proxy \<Rightarrow> Proxy" where
  "sink_take a p = p\<lparr>pr_sinks := map (\<lambda>s. if Address s = a then s\<lparr>sk_queue := tl (sk_queue s)\<rparr> else s) (pr_sinks p)\<rparr>"

inductive proxy_run :: "proxy_env \<Rightarrow> SinkConfig list \<Rightarrow> Proxy \<Rightarrow> bool" for env where
  started: "proxy_main env listen clk readFile addr = Inr (Inr (conf, p)) \<Longrightarrow> \<forall>a. 0 < clk a \<Longrightarrow> proxy_run env (px_sinks conf) p"
| reloaded: "proxy_run env confs p \<Longrightarrow> env_load env readFile zero_config = Inr conf \<Longrightarrow> \<forall>a. 0 < clk a \<Longrightarrow>
    proxy_reload env readFile clk p = Inr p' \<Longrightarrow> proxy_run env (px_sinks conf) p'"
| not_reloaded: "proxy_run env confs p \<Longrightarrow> env_load env readFile zero_config = Inl e \<Longrightarrow>
    proxy_reload env readFile clk p = Inr p' \<Longrightarrow> proxy_run env confs p'"
| timed_out: "proxy_run env confs p \<Longrightarrow> proxy_run env confs (Proxy_timeout clk p)"
| uploaded: "proxy_run env confs p \<Longrightarrow> Proxy_HandleUpload r body readTime now p = Some (Inr (code, p')) \<Longrightarrow> proxy_run env confs p'"
| taken: "proxy_run env confs p \<Longrightarrow> proxy_run env confs (sink_take a p)"

section \<open>What uploads and workers leave alone\<close>

definition same_sink :: "Sink \<Rightarrow> Sink \<Rightarrow> bool" where
  "same_sink s s' \<longleftrightarrow> sk_conf s' = sk_conf s \<and> sk_url s' = sk_url s \<and> sk_graceDeadline s' = sk_graceDeadline s
     \<and> (int (length (sk_queue s)) \<le> sn_queueSize (sk_conf s) \<longrightarrow> int (length (sk_queue s')) \<le> sn_queueSize (sk_conf s))"

lemma enqueue_fits: "enqueue e cap (q, n) = Some (q', n') \<Longrightarrow> int (length q') \<le> cap"
  by (induction q arbitrary: n) (subst (asm) enqueue.simps, auto split: if_splits)+

lemma Sink_handle_same: "Sink_handle req deadline now s = Some (Inr s') \<Longrightarrow> same_sink s s'"
  by (auto simp: Sink_handle_def same_sink_def Let_def dest!: enqueue_fits split: sum.splits prod.splits)

lemma handleAll_same: "handleAll req deadline now ss = Some (Inr ss') \<Longrightarrow> list_all2 same_sink ss ss'"
proof (induction ss arbitrary: ss')
  case Nil
  then show ?case by simp
next
  case (Cons s ss)
  from Cons.prems obtain s1 ss1 where "Sink_handle req deadline now s = Some (Inr s1)"
    "handleAll req deadline now ss = Some (Inr ss1)" "ss' = s1 # ss1"
    by (cases "Sink_handle req deadline now s"; cases "the (Sink_handle req deadline now s)") (auto simp: go_bind_Inr_iff)
  with Cons.IH show ?case by (simp add: Sink_handle_same)
qed

lemma HandleUpload_same:
  assumes "Proxy_HandleUpload r body readTime now p = Some (Inr (code, p'))"
  shows "list_all2 same_sink (pr_sinks p) (pr_sinks p') \<and> pr_registered p' = pr_registered p"
proof -
  have refl: "list_all2 same_sink ss ss" for ss by (auto simp: same_sink_def intro: list.rel_refl)
  from assms show ?thesis
    by (auto simp: Proxy_HandleUpload_def Let_def go_bind_Inr_iff refl dest!: handleAll_same split: if_splits sum.splits)
qed

lemma sink_take_same:
  "list_all2 same_sink (pr_sinks p) (pr_sinks (sink_take a p)) \<and> pr_registered (sink_take a p) = pr_registered p"
  by (auto simp: sink_take_def same_sink_def list_all2_conv_all_nth)

section \<open>The invariant\<close>

text \<open>A configuration the proxy can follow: every address once, room in every queue, and URLs without escapes.\<close>

definition usable :: "proxy_env \<Rightarrow> SinkConfig list \<Rightarrow> bool" where
  "usable env confs \<longleftrightarrow> distinct (map sn_address confs)
     \<and> (\<forall>c \<in> set confs. 0 < sn_queueSize c \<and> (\<forall>u. pe_parse env (sn_address c) = Inr u \<longrightarrow> u_rawPath u = []))"

definition proxy_inv :: "proxy_env \<Rightarrow> SinkConfig list \<Rightarrow> Proxy \<Rightarrow> bool" where
  "proxy_inv env confs p \<longleftrightarrow> proxy_ok p
     \<and> (\<forall>s \<in> set (pr_sinks p). sink_ready s \<and> pe_parse env (Address s) = Inr (sk_url s)
          \<and> (sk_graceDeadline s = 0 \<longleftrightarrow> Address s \<in> sn_address ` set confs))
     \<and> (\<forall>c \<in> set confs. parses (pe_parse env) c \<longrightarrow> sn_address c \<in> Address ` set (pr_sinks p))"

lemma same_sink_Address: "same_sink s s' \<Longrightarrow> Address s' = Address s"
  by (simp add: same_sink_def Address_def)

lemma proxy_inv_same:
  assumes inv: "proxy_inv env confs p" and same: "list_all2 same_sink (pr_sinks p) (pr_sinks p')"
    and reg: "pr_registered p' = pr_registered p"
  shows "proxy_inv env confs p'"
proof -
  have "map Address (pr_sinks p') = map Address (pr_sinks p)"
    using same by (induction rule: list_all2_induct) (simp_all add: same_sink_Address)
  moreover have addr: "Address ` set (pr_sinks p') = Address ` set (pr_sinks p)"
    using arg_cong [OF calculation, of set] by simp
  ultimately have "proxy_ok p'" using inv reg by (simp add: proxy_inv_def proxy_ok_def sinks_ok_def)
  moreover have "sink_ready s' \<and> pe_parse env (Address s') = Inr (sk_url s') \<and> (sk_graceDeadline s' = 0 \<longleftrightarrow> Address s' \<in> sn_address ` set confs)"
    if "s' \<in> set (pr_sinks p')" for s'
  proof -
    from that obtain i where i: "i < length (pr_sinks p')" "s' = pr_sinks p' ! i" by (auto simp: in_set_conv_nth)
    let ?s = "pr_sinks p ! i"
    have s: "?s \<in> set (pr_sinks p)" "same_sink ?s s'" using same i by (simp_all add: list_all2_conv_all_nth)
    then have "sink_ready ?s \<and> pe_parse env (Address ?s) = Inr (sk_url ?s) \<and> (sk_graceDeadline ?s = 0 \<longleftrightarrow> Address ?s \<in> sn_address ` set confs)"
      using inv by (simp add: proxy_inv_def)
    then show ?thesis using s(2) unfolding same_sink_Address [OF s(2)] by (simp add: same_sink_def sink_ready_def)
  qed
  ultimately show ?thesis using inv addr by (simp add: proxy_inv_def)
qed

lemma proxy_inv_timeout:
  assumes "proxy_inv env confs p"
  shows "proxy_inv env confs (Proxy_timeout clk p)"
proof -
  have ok: "proxy_ok p" using assms by (simp add: proxy_inv_def)
  note ex = proxy_timeout_exact [OF ok, of clk]
  have sub: "set (pr_sinks (Proxy_timeout clk p)) \<subseteq> set (pr_sinks p)" using ex by blast
  have "sn_address c \<in> Address ` set (pr_sinks (Proxy_timeout clk p))" if c: "c \<in> set confs" "parses (pe_parse env) c" for c
  proof -
    obtain s where s: "s \<in> set (pr_sinks p)" "Address s = sn_address c"
      using assms c unfolding proxy_inv_def by (metis imageE)
    with assms c(1) have "sk_graceDeadline s = 0" by (auto simp: proxy_inv_def)
    with s ex have "s \<in> set (pr_sinks (Proxy_timeout clk p))" by blast
    with s(2) show ?thesis by (metis imageI)
  qed
  with assms ex sub show ?thesis by (auto simp: proxy_inv_def)
qed

lemma lineage_ready:
  assumes "lineage (pe_parse env) confs (pr_sinks p) s'" "usable env confs" "proxy_inv env old p"
  shows "sink_ready s' \<and> pe_parse env (Address s') = Inr (sk_url s')"
proof -
  consider s where "s \<in> set (pr_sinks p)" "Address s = Address s'" "sk_queue s' = sk_queue s" "sk_url s' = sk_url s"
      "sn_queueSize (sk_conf s') = sn_queueSize (sk_conf s)"
    | "sk_queue s' = []" "sk_conf s' \<in> set confs" "pe_parse env (Address s') = Inr (sk_url s')"
    using assms(1) by (auto simp: lineage_def from_old_def Address_def)
  then show ?thesis
  proof cases
    case 1
    with assms(3) show ?thesis by (auto simp: proxy_inv_def sink_ready_def)
  next
    case 2
    with assms(2) show ?thesis by (auto simp: usable_def sink_ready_def Address_def)
  qed
qed

lemma proxy_inv_update:
  assumes inv: "proxy_inv env old p" and use: "usable env confs" and clk: "\<forall>a. 0 < clk a"
  shows "\<exists>err p'. Proxy_UpdateConfig (pe_parse env) clk confs p = Inr (err, p') \<and> proxy_inv env confs p'"
proof -
  have pre: "proxy_ok p" "distinct (map sn_address confs)" "\<forall>c \<in> set confs. 0 \<le> sn_queueSize c"
    using inv use by (auto simp: proxy_inv_def usable_def)
  from proxy_update_sinks [OF pre, of "pe_parse env" clk] obtain err p' where upd:
    "Proxy_UpdateConfig (pe_parse env) clk confs p = Inr (err, p')" "proxy_ok p'"
    "Address ` set (pr_sinks p') = Address ` set (pr_sinks p)
       \<union> {sn_address c | c. c \<in> set confs \<and> parses (pe_parse env) c \<and> sn_address c \<notin> Address ` set (pr_sinks p)}"
    "\<forall>s' \<in> set (pr_sinks p'). removal_state clk confs (pr_sinks p) s' \<and> lineage (pe_parse env) confs (pr_sinks p) s'"
    by blast
  have due: "clk a + GracePeriod \<noteq> 0" for a
    using clk [rule_format, of a] by (simp add: GracePeriod_def minute_def second_def)
  have "sk_graceDeadline s' = 0 \<longleftrightarrow> Address s' \<in> sn_address ` set confs" if "s' \<in> set (pr_sinks p')" for s'
    using upd(4) that due by (force simp: removal_state_def split: if_splits)
  moreover have "sink_ready s' \<and> pe_parse env (Address s') = Inr (sk_url s')" if "s' \<in> set (pr_sinks p')" for s'
    using lineage_ready [OF _ use inv] upd(4) that by blast
  moreover have "sn_address c \<in> Address ` set (pr_sinks p')" if "c \<in> set confs" "parses (pe_parse env) c" for c
    unfolding upd(3) using that by blast
  ultimately have "proxy_inv env confs p'" using upd(2) by (simp add: proxy_inv_def)
  with upd(1) show ?thesis by blast
qed

definition loads_usable :: "proxy_env \<Rightarrow> bool" where
  "loads_usable env \<longleftrightarrow> (\<forall>readFile c conf. env_load env readFile c = Inr conf \<longrightarrow> usable env (px_sinks conf))"

lemma proxy_inv_reload:
  assumes "proxy_inv env confs p" "loads_usable env" "\<forall>a. 0 < clk a"
  shows "\<exists>p'. proxy_reload env readFile clk p = Inr p'
    \<and> proxy_inv env (case env_load env readFile zero_config of Inl e \<Rightarrow> confs | Inr conf \<Rightarrow> px_sinks conf) p'"
proof (cases "env_load env readFile zero_config")
  case (Inl e)
  with assms(1) show ?thesis by (simp add: proxy_reload_def)
next
  case (Inr conf)
  with assms(2) have "usable env (px_sinks conf)" by (simp add: loads_usable_def)
  from proxy_inv_update [OF assms(1) this assms(3)] Inr show ?thesis by (auto simp: proxy_reload_def)
qed

lemma proxy_run_inv:
  assumes "proxy_run env confs p" "loads_usable env"
  shows "proxy_inv env confs p"
  using assms
proof (induction rule: proxy_run.induct)
  case (started listen clk readFile addr conf p)
  let ?p0 = "\<lparr>pr_sinks = [], pr_registered = {}, pr_numRead = 0, pr_readDelay = 0\<rparr>"
  from started(1) have load: "env_load env readFile (zero_config\<lparr>px_listenAddress := addr\<rparr>) = Inr conf"
    and new: "NewProxy env listen clk conf = Inr (Inr p)"
    by (auto simp: proxy_main_def elim!: go_bind_Inr_E split: sum.split_asm)
  from load started(3) have use: "usable env (px_sinks conf)" by (auto simp: loads_usable_def)
  have "proxy_inv env [] ?p0" by (simp add: proxy_inv_def proxy_ok_def sinks_ok_def)
  from proxy_inv_update [OF this use started(2)] new show ?case
    by (auto simp: NewProxy_def split: option.splits)
next
  case (reloaded confs p readFile conf clk p')
  from proxy_inv_reload [OF reloaded.IH [OF reloaded.prems] reloaded.prems reloaded.hyps(3), of readFile] reloaded.hyps(2,4) show ?case by simp
next
  case (not_reloaded confs p readFile e clk p')
  then show ?case by (simp add: proxy_reload_def)
next
  case (timed_out confs p clk)
  then show ?case by (simp add: proxy_inv_timeout)
next
  case (uploaded confs p r body readTime now code p')
  then show ?case using HandleUpload_same proxy_inv_same by blast
next
  case (taken confs p a)
  then show ?case using sink_take_same proxy_inv_same by blast
qed

section \<open>Properties\<close>

lemma fold_Sink_Stop: "fold Sink_Stop ss reg = reg - Address ` set ss"
  by (induction ss arbitrary: reg) (auto simp: Sink_Stop_def)

text \<open>At the end no counter of a sink is left.\<close>

lemma Wait_unregisters: "proxy_ok p \<Longrightarrow> pr_registered (Proxy_Wait p) = {}"
  by (simp add: Proxy_Wait_def fold_Sink_Stop proxy_ok_def sinks_ok_def)


definition demo_env :: proxy_env where
  "demo_env = \<lparr>pe_parse = (\<lambda>_. Inr demo_url), pe_unmarshalConfig = (\<lambda>_ c. Inr (zero_config\<lparr>px_sinks := [demo_conf ''a'']\<rparr>)),
     pe_unmarshalAuth = (\<lambda>_ a. Inr a), pe_configPath = ''config.toml'', pe_authConfigPath = []\<rparr>"


end
