(* ===== verification/Client.thy ===== *)
theory Client
  imports GoPath
begin

text \<open>
  Package \<open>client\<close>: the keys under which the parts of the system publish (\<open>path.go\<close>), the updates a
  watch delivers (\<open>apis.go\<close>) and the Consul client (\<open>consul.go\<close>).

  Values of keys are byte strings. Consul itself is not part of the program: what its library answers to
  a request is an argument of the operations. \<open>watchHandler\<close> is the function that \<open>makeWatchHandler\<close>
  returns; its cache is passed and returned, and the order in which it ranges over the cache is a list
  of keys. The section on watches shows that the updates it sends are the difference of two snapshots
  of the store, and states, as a locale, what a consumer of updates has to do to end up with a copy of
  the store.
\<close>

section \<open>Keys\<close>

definition TranscoderPrefix :: string where "TranscoderPrefix = ''transcoders/''"

definition SourcePrefix :: string where "SourcePrefix = ''service/source/''"

definition StreamPrefix :: string where "StreamPrefix = ''stream/''"

definition StreamSettingsPrefix :: string where "StreamSettingsPrefix = ''streamSettings/''"

definition servicePrefix :: string where "servicePrefix = ''service/''"

definition ParseServiceName :: "string \<Rightarrow> string" where
  "ParseServiceName path =
     (let parts = split slash path
      in if length parts \<noteq> 3 then '''' else parts ! 2)"

definition ParseTranscoderName :: "string \<Rightarrow> string \<times> bool" where
  "ParseTranscoderName path =
     (let parts = split slash path
      in if length parts \<noteq> 2 then ('''', False) else (parts ! 1, True))"

definition ParseStreamName :: "string \<Rightarrow> string" where
  "ParseStreamName path =
     (let parts = split slash path
      in if length parts \<le> 1 then '''' else parts ! 1)"

definition ParseStreamTranscoder :: "string \<Rightarrow> string" where
  "ParseStreamTranscoder path =
     (let parts = split slash path
      in if length parts \<noteq> 3 then '''' else parts ! 2)"

definition PathIsStream :: "string \<Rightarrow> bool" where
  "PathIsStream path =
     (let parts = split slash path
      in if length parts \<noteq> 2 \<or> parts ! 0 \<noteq> ''stream'' then False else True)"

definition PathIsStreamTranscoder :: "string \<Rightarrow> bool" where
  "PathIsStreamTranscoder path =
     (let parts = split slash path
      in if length parts \<noteq> 3 \<or> parts ! 0 \<noteq> ''stream'' \<or> parts ! 2 \<noteq> ''transcoder'' then False else True)"

definition PathIsStreamSettings :: "string \<Rightarrow> bool" where
  "PathIsStreamSettings path =
     (let parts = split slash path
      in if length parts \<noteq> 3 \<or> parts ! 0 \<noteq> ''stream'' \<or> parts ! 2 \<noteq> ''settings'' then False else True)"

definition ServicePath :: "string \<Rightarrow> string \<Rightarrow> string" where
  "ServicePath serviceName clientName = joinPath [servicePrefix, serviceName, clientName]"

definition StreamPath :: "string \<Rightarrow> string" where
  "StreamPath name = joinPath [StreamPrefix, name]"

definition StreamTranscoderPath :: "string \<Rightarrow> string" where
  "StreamTranscoderPath name = joinPath [StreamPrefix, name, ''transcoder'']"

definition StreamSettingsPath :: "string \<Rightarrow> string" where
  "StreamSettingsPath name = joinPath [StreamSettingsPrefix, name]"

definition ServicePrefix :: "string \<Rightarrow> string" where
  "ServicePrefix p = joinPath [servicePrefix, p]"

section \<open>Updates of a watched prefix\<close>

datatype UpdateType = UpdateTypePut | UpdateTypeDelete

record KVPair =
  kv_Key :: string
  kv_Value :: string

record WatchUpdate =
  wu_Type :: UpdateType
  wu_KV :: "KVPair option"

definition put_update :: "KVPair \<Rightarrow> WatchUpdate" where
  "put_update kv = \<lparr>wu_Type = UpdateTypePut, wu_KV = Some kv\<rparr>"

definition del_update :: "string \<Rightarrow> WatchUpdate" where
  "del_update key = \<lparr>wu_Type = UpdateTypeDelete, wu_KV = Some \<lparr>kv_Key = key, kv_Value = ''''\<rparr>\<rparr>"

text \<open>What the watch library passes to the handler: one pair, which may be missing, all pairs below the
  prefix, or a value of another type.\<close>

datatype plan_value = OnePair "KVPair option" | AllPairs "KVPair list" | InvalidUpdate

type_synonym watch_cache = "string \<rightharpoonup> string"

text \<open>The body of the loop over the pairs: the keys still expected, the updates so far and the cache.\<close>

definition watchPair :: "KVPair \<Rightarrow> string list \<times> WatchUpdate list \<times> watch_cache \<Rightarrow> string list \<times> WatchUpdate list \<times> watch_cache" where
  "watchPair pair st =
     (case st of (expected, update, cache) \<Rightarrow>
        let expected = remove1 (kv_Key pair) expected
        in if cache (kv_Key pair) = Some (kv_Value pair) then (expected, update, cache)
           else (expected, update @ [put_update pair], cache(kv_Key pair \<mapsto> kv_Value pair)))"

definition watchMissing :: "string \<Rightarrow> WatchUpdate list \<times> watch_cache \<Rightarrow> WatchUpdate list \<times> watch_cache" where
  "watchMissing missing st = (case st of (update, cache) \<Rightarrow> (update @ [del_update missing], cache(missing := None)))"

text \<open>The handler: the updates it sends on the channel, if it sends any, and the new cache.\<close>

definition watchHandler :: "string list \<Rightarrow> plan_value \<Rightarrow> watch_cache \<Rightarrow> WatchUpdate list option \<times> watch_cache" where
  "watchHandler order val cache =
     (case val of
        OnePair None \<Rightarrow> (None, cache)
      | OnePair (Some kv) \<Rightarrow> (Some [put_update kv], cache)
      | AllPairs pairs \<Rightarrow>
          (let (expected, update, cache1) = fold watchPair pairs (order, [], cache);
               (update1, cache2) = fold watchMissing expected (update, cache1)
           in (Some update1, cache2))
      | InvalidUpdate \<Rightarrow> (None, cache))"

section \<open>Keys with a session\<close>

datatype client_error =
    AcquireFailed string
  | ErrAlreadyAquired string
  | ConsulError string
  | DeleteFailed string

text \<open>\<open>acquire\<close> and \<open>delete\<close> are the requests to Consul's key value store, \<open>'w\<close> is its state.\<close>

definition PutWithSession :: "(KVPair \<Rightarrow> string \<Rightarrow> 'w \<Rightarrow> (bool \<times> string option) \<times> 'w) \<Rightarrow> string \<Rightarrow>
    string \<Rightarrow> string \<Rightarrow> 'w \<Rightarrow> client_error option \<times> 'w" where
  "PutWithSession acquire sessionId key value w =
     (case acquire \<lparr>kv_Key = key, kv_Value = value\<rparr> sessionId w of
        ((success, err), w') \<Rightarrow>
          (if \<not> success then
             (case err of Some e \<Rightarrow> Some (AcquireFailed e) | None \<Rightarrow> Some (ErrAlreadyAquired key))
           else map_option ConsulError err, w'))"

definition Client_Delete :: "(string \<Rightarrow> 'w \<Rightarrow> string option \<times> 'w) \<Rightarrow> string \<Rightarrow> 'w \<Rightarrow> client_error option \<times> 'w" where
  "Client_Delete delete key w =
     (case delete key w of (err, w') \<Rightarrow> (map_option DeleteFailed err, w'))"

definition Client_Put :: "(KVPair \<Rightarrow> 'w \<Rightarrow> string option \<times> 'w) \<Rightarrow> string \<Rightarrow> string \<Rightarrow> 'w \<Rightarrow> client_error option \<times> 'w" where
  "Client_Put put key value w =
     (case put \<lparr>kv_Key = key, kv_Value = value\<rparr> w of (err, w') \<Rightarrow> (map_option ConsulError err, w'))"

text \<open>\<open>Get\<close> reads a field of the pair Consul answers with, which is nil for an unknown key.\<close>

definition Client_Get :: "(string \<Rightarrow> 'w \<Rightarrow> string + KVPair option) \<Rightarrow> string \<Rightarrow> 'w \<Rightarrow> (client_error + string) go" where
  "Client_Get get key w =
     (case get key w of
        Inl e \<Rightarrow> Inr (Inl (ConsulError e))
      | Inr None \<Rightarrow> Inl NilPointer
      | Inr (Some kv) \<Rightarrow> Inr (Inr (kv_Value kv)))"

definition GetWithPrefix :: "(string \<Rightarrow> 'w \<Rightarrow> string + KVPair list) \<Rightarrow> string \<Rightarrow> 'w \<Rightarrow> client_error + (string \<times> string) list" where
  "GetWithPrefix listKeys p w =
     (case listKeys p w of
        Inl e \<Rightarrow> Inl (ConsulError e)
      | Inr kvs \<Rightarrow> Inr (map (\<lambda>kv. (kv_Key kv, kv_Value kv)) kvs))"

section \<open>Keys that are written can be read\<close>

lemma clean_elems_False_plain: "plain_elem e \<Longrightarrow> clean_elems r (e # [] # es) = clean_elems r (e # es)"
  by (simp add: clean_elems_def)

lemma joinPath_prefix:
  assumes "plain_elem a" "list_all plain_elem es" "es \<noteq> []"
  shows "joinPath ((a @ [slash]) # es) = join slash (a # es)"
proof -
  have "joinPath ((a @ [slash]) # es) = clean (a @ slash # slash # join slash es)"
    using assms(3) by (simp add: joinPath_def join_Cons)
  moreover have sp: "split slash (a @ slash # slash # join slash es) = a # [] # es"
    using assms split_join [of es slash] plain_slash_free [OF assms(2)] by (simp add: split_append)
  moreover have "hd (a @ slash # slash # join slash es) \<noteq> slash" "a \<noteq> []"
    using assms(1) by (cases a; auto dest: plain_elem_slash_free)+
  moreover have "clean_elems False (a # [] # es) = a # es"
    using assms by (simp only: clean_elems_False_plain) (simp add: clean_elems_id)
  moreover have "join slash (a # es) \<noteq> ''''" using assms by (simp add: join_Cons)
  ultimately show ?thesis by (simp add: clean_def Let_def)
qed

lemma split_key: "list_all plain_elem es \<Longrightarrow> es \<noteq> [] \<Longrightarrow> split slash (join slash es) = es"
  using split_join [of es slash] plain_slash_free [of es] by blast

lemma plain_words:
  "plain_elem ''stream''" "plain_elem ''transcoder''" "plain_elem ''streamSettings''" "plain_elem ''service''"
  "plain_elem ''transcode''" "plain_elem ''settings''"
  by (simp_all add: plain_elem_def)

lemma key_prefixes:
  "StreamPrefix = ''stream'' @ [slash]" "servicePrefix = ''service'' @ [slash]"
  "StreamSettingsPrefix = ''streamSettings'' @ [slash]" "TranscoderPrefix = ''transcoders'' @ [slash]"
  by (simp_all add: StreamPrefix_def servicePrefix_def StreamSettingsPrefix_def TranscoderPrefix_def)

lemma key_forms:
  assumes "plain_elem n"
  shows "StreamPath n = join slash [''stream'', n]"
    and "StreamTranscoderPath n = join slash [''stream'', n, ''transcoder'']"
    and "StreamSettingsPath n = join slash [''streamSettings'', n]"
    and "plain_elem s \<Longrightarrow> ServicePath s n = join slash [''service'', s, n]"
    and "ServicePrefix n = join slash [''service'', n]"
  unfolding StreamPath_def StreamTranscoderPath_def StreamSettingsPath_def ServicePath_def ServicePrefix_def key_prefixes
  using assms plain_words
  by (subst joinPath_prefix; simp only: list.pred_inject simp_thms not_Cons_self2 list.distinct)+

lemma key_parts:
  assumes "plain_elem n"
  shows "split slash (StreamPath n) = [''stream'', n]"
    and "split slash (StreamTranscoderPath n) = [''stream'', n, ''transcoder'']"
    and "split slash (StreamSettingsPath n) = [''streamSettings'', n]"
    and "plain_elem s \<Longrightarrow> split slash (ServicePath s n) = [''service'', s, n]"
  using assms plain_words by (simp_all only: key_forms split_key list.pred_inject simp_thms list.distinct not_Cons_self2 not_False_eq_True)

text \<open>A key determines the name in it: the parts in which a handler splits it are the key.\<close>

lemma key_of_parts: "split slash k = es \<Longrightarrow> k = join slash es"
  using join_split [of slash k] by simp

lemma PathIsStream_iff: "PathIsStream k \<longleftrightarrow> (\<exists>n. split slash k = [''stream'', n])"
  by (auto simp: PathIsStream_def Let_def length_Suc_conv numeral_2_eq_2)

lemma PathIsStreamTranscoder_iff: "PathIsStreamTranscoder k \<longleftrightarrow> (\<exists>n. split slash k = [''stream'', n, ''transcoder''])"
  by (auto simp: PathIsStreamTranscoder_def Let_def length_Suc_conv numeral_3_eq_3 numeral_2_eq_2)

section \<open>A watch delivers the differences of snapshots\<close>

definition apply_update :: "WatchUpdate \<Rightarrow> watch_cache \<Rightarrow> watch_cache" where
  "apply_update u m =
     (case wu_KV u of
        None \<Rightarrow> m
      | Some kv \<Rightarrow> (case wu_Type u of UpdateTypePut \<Rightarrow> m(kv_Key kv \<mapsto> kv_Value kv) | UpdateTypeDelete \<Rightarrow> m(kv_Key kv := None)))"

lemma apply_update_simps [simp]:
  "apply_update (put_update kv) m = m(kv_Key kv \<mapsto> kv_Value kv)"
  "apply_update (del_update k) m = m(k := None)"
  by (simp_all add: apply_update_def put_update_def del_update_def)

definition snapshot :: "KVPair list \<Rightarrow> watch_cache" where
  "snapshot pairs = map_of (map (\<lambda>kv. (kv_Key kv, kv_Value kv)) pairs)"

lemma snapshot_simps:
  "snapshot [] = Map.empty"
  "snapshot (kv # pairs) = (snapshot pairs)(kv_Key kv \<mapsto> kv_Value kv)"
  by (simp_all add: snapshot_def)

lemma dom_snapshot: "dom (snapshot pairs) = kv_Key ` set pairs"
  by (simp add: snapshot_def dom_map_of_conv_image_fst image_image)

lemma snapshot_first:
  "kv_Key kv \<notin> kv_Key ` set pairs \<Longrightarrow> cache(kv_Key kv \<mapsto> kv_Value kv) ++ snapshot pairs = cache ++ snapshot (kv # pairs)"
  by (simp only: snapshot_simps map_add_upd map_add_upd_left dom_snapshot not_False_eq_True)

lemma snapshot_after_missing: "(cache ++ snapshot pairs) |` (- (dom cache - kv_Key ` set pairs)) = snapshot pairs"
proof
  fix k
  have "k \<in> kv_Key ` set pairs \<longleftrightarrow> (\<exists>v. snapshot pairs k = Some v)" using dom_snapshot [of pairs] by blast
  then show "((cache ++ snapshot pairs) |` (- (dom cache - kv_Key ` set pairs))) k = snapshot pairs k"
    by (cases "snapshot pairs k") (auto simp: restrict_map_def map_add_def)
qed

definition changed :: "watch_cache \<Rightarrow> KVPair \<Rightarrow> bool" where
  "changed cache kv \<longleftrightarrow> cache (kv_Key kv) \<noteq> Some (kv_Value kv)"

lemma changed_other:
  "k \<notin> kv_Key ` set pairs \<Longrightarrow> filter (changed (cache(k \<mapsto> v))) pairs = filter (changed cache) pairs"
  by (rule filter_cong) (auto simp: changed_def)

lemma watchPair_fold:
  assumes "distinct (map kv_Key pairs)" "distinct expected"
  shows "\<exists>left. fold watchPair pairs (expected, us, cache) =
      (left, us @ map put_update (filter (changed cache) pairs), cache ++ snapshot pairs)
    \<and> distinct left \<and> set left = set expected - kv_Key ` set pairs"
  using assms
proof (induction pairs arbitrary: expected us cache)
  case Nil
  then show ?case by (simp add: snapshot_simps)
next
  case (Cons kv pairs)
  let ?us = "if changed cache kv then us @ [put_update kv] else us" and ?cache = "cache(kv_Key kv \<mapsto> kv_Value kv)"
  have one: "watchPair kv (expected, us, cache) = (remove1 (kv_Key kv) expected, ?us, ?cache)"
    by (auto simp: watchPair_def changed_def fun_upd_idem)
  have tail: "distinct (map kv_Key pairs)" "distinct (remove1 (kv_Key kv) expected)" using Cons.prems by simp_all
  obtain left where left: "fold watchPair pairs (remove1 (kv_Key kv) expected, ?us, ?cache) =
      (left, ?us @ map put_update (filter (changed ?cache) pairs), ?cache ++ snapshot pairs)"
    "distinct left" "set left = set (remove1 (kv_Key kv) expected) - kv_Key ` set pairs"
    using Cons.IH [OF tail, of ?us ?cache] by (elim exE conjE) (rule that)
  have new: "kv_Key kv \<notin> kv_Key ` set pairs" using Cons.prems(1) by simp
  have "set left = set expected - kv_Key ` set (kv # pairs)" using left(3) Cons.prems(2) by auto
  with left(1,2) show ?case
    unfolding fold_Cons comp_def one changed_other [OF new] snapshot_first [OF new] by (auto split: if_splits)
qed

lemma watchMissing_fold:
  "fold watchMissing ks (us, cache) = (us @ map del_update ks, cache |` (- set ks))"
proof (induction ks arbitrary: us cache)
  case (Cons k ks)
  have one: "watchMissing k (us, cache) = (us @ [del_update k], cache(k := None))" by (simp add: watchMissing_def)
  have "cache(k := None) |` (- set ks) = cache |` (- set (k # ks))" by (auto simp: restrict_map_def fun_eq_iff)
  then show ?case unfolding fold_Cons comp_def one Cons.IH by simp
qed simp

lemma apply_dels: "fold apply_update (map del_update ks) m = m |` (- set ks)"
  by (induction ks arbitrary: m) (auto simp: restrict_map_def fun_eq_iff)

lemma apply_changed:
  "distinct (map kv_Key pairs) \<Longrightarrow> fold apply_update (map put_update (filter (changed cache) pairs)) cache = cache ++ snapshot pairs"
proof (induction pairs arbitrary: cache)
  case (Cons kv pairs)
  let ?cache = "cache(kv_Key kv \<mapsto> kv_Value kv)"
  have new: "kv_Key kv \<notin> kv_Key ` set pairs" using Cons.prems by simp
  have tail: "distinct (map kv_Key pairs)" using Cons.prems by simp
  have rest: "fold apply_update (map put_update (filter (changed cache) pairs)) ?cache = cache ++ snapshot (kv # pairs)"
    using Cons.IH [OF tail, of ?cache] unfolding changed_other [OF new] snapshot_first [OF new] .
  show ?case
  proof (cases "changed cache kv")
    case True
    then show ?thesis by (simp only: filter.simps if_True list.map fold_simps apply_update_simps rest)
  next
    case False
    then have "?cache = cache" by (simp add: changed_def fun_upd_idem)
    with rest False show ?thesis by (simp only: filter.simps if_False)
  qed
qed (simp add: snapshot_simps)

text \<open>The handler's cache is the last snapshot, and what it sends turns the snapshot before into it: a
  put for each new or changed pair and a delete for each key that has gone, and nothing else.\<close>

lemma watchHandler_diff:
  assumes "range_order cache order" "distinct (map kv_Key pairs)"
  shows "\<exists>left. watchHandler order (AllPairs pairs) cache =
      (Some (map put_update (filter (changed cache) pairs) @ map del_update left), snapshot pairs)
    \<and> distinct left \<and> set left = dom cache - kv_Key ` set pairs"
proof -
  from watchPair_fold [OF assms(2), of order "[]" cache] assms(1) obtain left where
    left: "fold watchPair pairs (order, [], cache) = (left, map put_update (filter (changed cache) pairs), cache ++ snapshot pairs)"
    "distinct left" "set left = dom cache - kv_Key ` set pairs" by (auto simp: range_order_def)
  have "(cache ++ snapshot pairs) |` (- set left) = snapshot pairs"
    unfolding left(3) by (rule snapshot_after_missing)
  with left(1) have "watchHandler order (AllPairs pairs) cache =
      (Some (map put_update (filter (changed cache) pairs) @ map del_update left), snapshot pairs)"
    by (simp add: watchHandler_def watchMissing_fold)
  with left(2,3) show ?thesis by blast
qed

lemma watchHandler_sends_diff:
  assumes "range_order cache order" "distinct (map kv_Key pairs)" "watchHandler order (AllPairs pairs) cache = (Some us, cache')"
  shows "cache' = snapshot pairs" "fold apply_update us cache = snapshot pairs"
    "set us \<subseteq> put_update ` set pairs \<union> del_update ` dom cache"
proof -
  from watchHandler_diff [OF assms(1,2)] assms(3) obtain left where
    us: "us = map put_update (filter (changed cache) pairs) @ map del_update left" "cache' = snapshot pairs"
    "set left = dom cache - kv_Key ` set pairs" by auto
  show "cache' = snapshot pairs" by (rule us(2))
  have "(cache ++ snapshot pairs) |` (- set left) = snapshot pairs"
    unfolding us(3) by (rule snapshot_after_missing)
  then show "fold apply_update us cache = snapshot pairs" by (simp add: us(1) apply_changed [OF assms(2)] apply_dels)
  show "set us \<subseteq> put_update ` set pairs \<union> del_update ` dom cache" using us by auto
qed

section \<open>Consumers of a watch\<close>

text \<open>The updates a watch sends for a sequence of snapshots, each with an order in which the handler
  ranges over its cache.\<close>

fun watch_all :: "(string list \<times> KVPair list) list \<Rightarrow> watch_cache \<Rightarrow> WatchUpdate list \<times> watch_cache" where
  "watch_all [] cache = ([], cache)"
| "watch_all ((order, pairs) # rest) cache =
     (case watchHandler order (AllPairs pairs) cache of
        (us, cache') \<Rightarrow> (case watch_all rest cache' of (us', cache'') \<Rightarrow> (concat (map (case_option [] id) [us]) @ us', cache'')))"

fun watch_ok :: "(KVPair \<Rightarrow> bool) \<Rightarrow> (string list \<times> KVPair list) list \<Rightarrow> watch_cache \<Rightarrow> bool" where
  "watch_ok good [] cache \<longleftrightarrow> True"
| "watch_ok good ((order, pairs) # rest) cache \<longleftrightarrow>
     range_order cache order \<and> distinct (map kv_Key pairs) \<and> list_all good pairs \<and> watch_ok good rest (snapshot pairs)"

lemma watch_ok_mono: "(\<And>kv. good kv \<Longrightarrow> good' kv) \<Longrightarrow> watch_ok good snaps cache \<Longrightarrow> watch_ok good' snaps cache"
  by (induction snaps arbitrary: cache) (auto simp: list_all_iff)

lemma watch_ok_last: "watch_ok good (snaps @ [(order, pairs)]) cache \<Longrightarrow> distinct (map kv_Key pairs) \<and> list_all good pairs"
  by (induction snaps arbitrary: cache) auto

lemma snapshot_Some_iff:
  "distinct (map kv_Key pairs) \<Longrightarrow> snapshot pairs k = Some v \<longleftrightarrow> (\<exists>kv \<in> set pairs. kv_Key kv = k \<and> kv_Value kv = v)"
  by (auto simp: snapshot_def comp_def map_of_eq_Some_iff)

text \<open>What a decoder that may fail gives.\<close>

definition decoded :: "('a \<Rightarrow> 'e + 'b) \<Rightarrow> 'a \<Rightarrow> 'b option" where
  "decoded unmarshal v = (case unmarshal v of Inl _ \<Rightarrow> None | Inr x \<Rightarrow> Some x)"

lemma decoded_Some_iff [simp]: "decoded unmarshal v = Some x \<longleftrightarrow> unmarshal v = Inr x"
  by (auto simp: decoded_def split: sum.splits)

lemma snapshot_decoded_iff:
  assumes "distinct (map kv_Key pairs)"
  shows "Option.bind (snapshot pairs k) (decoded unmarshal) = Some x \<longleftrightarrow>
    (\<exists>kv \<in> set pairs. kv_Key kv = k \<and> unmarshal (kv_Value kv) = Inr x)"
  unfolding bind_eq_Some_conv snapshot_Some_iff [OF assms] by auto

text \<open>A way a handler can go through a list of updates.\<close>

fun handles_all :: "(WatchUpdate \<Rightarrow> 's \<Rightarrow> 's \<Rightarrow> bool) \<Rightarrow> WatchUpdate list \<Rightarrow> 's \<Rightarrow> 's \<Rightarrow> bool" where
  "handles_all step [] s s' \<longleftrightarrow> s' = s"
| "handles_all step (u # us) s s' \<longleftrightarrow> (\<exists>t. step u s t \<and> handles_all step us t s')"

lemma handles_all_append: "handles_all step (us @ vs) s s' \<longleftrightarrow> (\<exists>t. handles_all step us s t \<and> handles_all step vs t s')"
  by (induction us arbitrary: s) auto

text \<open>
  A consumer keeps one entry per name: \<open>name\<close> says which keys it follows and under which name, \<open>decode\<close>
  reads a value, \<open>view\<close> is what it has stored. \<open>known\<close> are the keys that occur in the store: among them
  a name belongs to one key. The laws: a put that can be decoded sets the entry, a delete removes it,
  and other keys change nothing.
\<close>

locale watch_consumer =
  fixes step :: "WatchUpdate \<Rightarrow> 's \<Rightarrow> 's \<Rightarrow> bool"
    and view :: "'s \<Rightarrow> string \<rightharpoonup> 'v"
    and name :: "string \<Rightarrow> string option"
    and decode :: "string \<Rightarrow> 'v option"
    and known :: "string \<Rightarrow> bool"
  assumes put_law: "step (put_update kv) s s' \<Longrightarrow> name (kv_Key kv) = Some n \<Longrightarrow> decode (kv_Value kv) = Some x \<Longrightarrow>
      view s' = (view s)(n \<mapsto> x)"
    and del_law: "step (del_update k) s s' \<Longrightarrow> name k = Some n \<Longrightarrow> view s' = (view s)(n := None)"
    and put_other: "step (put_update kv) s s' \<Longrightarrow> name (kv_Key kv) = None \<Longrightarrow> view s' = view s"
    and del_other: "step (del_update k) s s' \<Longrightarrow> name k = None \<Longrightarrow> view s' = view s"
    and name_unique: "known k \<Longrightarrow> known k' \<Longrightarrow> name k = Some n \<Longrightarrow> name k' = Some n \<Longrightarrow> k = k'"
begin

definition readable :: "KVPair \<Rightarrow> bool" where
  "readable kv \<longleftrightarrow> known (kv_Key kv) \<and> (name (kv_Key kv) \<noteq> None \<longrightarrow> decode (kv_Value kv) \<noteq> None)"

text \<open>The consumer's entries are the decoded values of the store \<open>m\<close>.\<close>

definition copy_of :: "watch_cache \<Rightarrow> 's \<Rightarrow> bool" where
  "copy_of m s \<longleftrightarrow> (\<forall>k n. known k \<longrightarrow> name k = Some n \<longrightarrow> view s n = Option.bind (m k) decode)
     \<and> (\<forall>n. (\<nexists>k. known k \<and> name k = Some n) \<longrightarrow> view s n = None)"

lemma copy_of_other: "copy_of m s \<Longrightarrow> view s' = view s \<Longrightarrow> (\<And>l. name l \<noteq> None \<Longrightarrow> m' l = m l) \<Longrightarrow> copy_of m' s'"
  unfolding copy_of_def by simp

lemma copy_of_entry:
  assumes "copy_of m s" "known k" "name k = Some n" "view s' = (view s)(n := Option.bind e decode)"
  shows "copy_of (m(k := e)) s'"
proof -
  have "view s' l = Option.bind ((m(k := e)) j) decode" if "known j" "name j = Some l" for j l
  proof (cases "j = k")
    case True
    with that assms(3,4) show ?thesis by simp
  next
    case False
    then have "l \<noteq> n" using name_unique [OF that(1) assms(2) that(2)] assms(3) by blast
    with False that assms(1,4) show ?thesis by (simp add: copy_of_def)
  qed
  moreover have "view s' l = None" if "\<nexists>j. known j \<and> name j = Some l" for l
  proof -
    have "l \<noteq> n" using that assms(2,3) by blast
    with that assms(1,4) show ?thesis by (simp add: copy_of_def)
  qed
  ultimately show ?thesis unfolding copy_of_def by blast
qed

lemma copy_of_put:
  assumes "copy_of m s" "step (put_update kv) s s'" "readable kv"
  shows "copy_of (m(kv_Key kv \<mapsto> kv_Value kv)) s'"
proof (cases "name (kv_Key kv)")
  case None
  show ?thesis
    by (rule copy_of_other [OF assms(1) put_other [OF assms(2) None]]) (use None in auto)
next
  case (Some n)
  with assms(3) obtain x where x: "decode (kv_Value kv) = Some x" by (auto simp: readable_def)
  have "view s' = (view s)(n \<mapsto> x)" by (rule put_law [OF assms(2) Some x])
  with x have "view s' = (view s)(n := Option.bind (Some (kv_Value kv)) decode)" by simp
  moreover have "known (kv_Key kv)" using assms(3) by (simp add: readable_def)
  ultimately show ?thesis using copy_of_entry [OF assms(1) _ Some] by blast
qed

lemma copy_of_del:
  assumes "copy_of m s" "step (del_update k) s s'" "known k"
  shows "copy_of (m(k := None)) s'"
proof (cases "name k")
  case None
  show ?thesis
    by (rule copy_of_other [OF assms(1) del_other [OF assms(2) None]]) (use None in auto)
next
  case (Some n)
  have "view s' = (view s)(n := Option.bind None decode)" using del_law [OF assms(2) Some] by simp
  then show ?thesis by (rule copy_of_entry [OF assms(1,3) Some])
qed

lemma copy_of_updates:
  assumes "copy_of m s" "handles_all step us s s'"
    and "list_all (\<lambda>u. (\<exists>kv. u = put_update kv \<and> readable kv) \<or> (\<exists>k. u = del_update k \<and> known k)) us"
  shows "copy_of (fold apply_update us m) s'"
  using assms
proof (induction us arbitrary: m s)
  case (Cons u us)
  then obtain t where t: "step u s t" "handles_all step us t s'" by auto
  from Cons.prems(3) consider kv where "u = put_update kv" "readable kv" | k where "u = del_update k" "known k" by auto
  then have "copy_of (apply_update u m) t"
    using copy_of_put [OF Cons.prems(1)] copy_of_del [OF Cons.prems(1)] t(1) by cases simp_all
  then show ?case using Cons.IH [OF _ t(2)] Cons.prems(3) by simp
qed simp

text \<open>After any sequence of snapshots the consumer holds the last one.\<close>

lemma copy_of_watch:
  assumes "copy_of cache s" "\<forall>k \<in> dom cache. known k" "watch_ok readable snaps cache"
    and "handles_all step (fst (watch_all snaps cache)) s s'"
  shows "copy_of (fold (\<lambda>(order, pairs) _. snapshot pairs) snaps cache) s'"
  using assms
proof (induction snaps arbitrary: cache s)
  case (Cons op snaps)
  obtain order pairs where op: "op = (order, pairs)" by fastforce
  have ok: "range_order cache order" "distinct (map kv_Key pairs)" "list_all readable pairs" "watch_ok readable snaps (snapshot pairs)"
    using Cons.prems(3) op by auto
  obtain us where us: "watchHandler order (AllPairs pairs) cache = (Some us, snapshot pairs)"
    using watchHandler_diff [OF ok(1,2)] by auto
  note diff = watchHandler_sends_diff [OF ok(1,2) us]
  have "handles_all step (us @ fst (watch_all snaps (snapshot pairs))) s s'"
    using Cons.prems(4) op us by (simp split: prod.splits)
  then obtain t where t: "handles_all step us s t" "handles_all step (fst (watch_all snaps (snapshot pairs))) t s'"
    unfolding handles_all_append by blast
  have "list_all (\<lambda>u. (\<exists>kv. u = put_update kv \<and> readable kv) \<or> (\<exists>k. u = del_update k \<and> known k)) us"
    using diff(3) ok(3) Cons.prems(2) unfolding list_all_iff by blast
  from copy_of_updates [OF Cons.prems(1) t(1) this] have "copy_of (snapshot pairs) t" by (simp add: diff(2))
  moreover have "\<forall>k \<in> dom (snapshot pairs). known k" using ok(3) by (auto simp: dom_snapshot list_all_iff readable_def)
  ultimately show ?case using Cons.IH [OF _ _ ok(4) t(2)] op by simp
qed simp

text \<open>What a copy of a snapshot holds, read off the pairs.\<close>

lemma copy_of_snapshot_iff:
  assumes "copy_of (snapshot pairs) s" "distinct (map kv_Key pairs)" "\<forall>kv \<in> set pairs. known (kv_Key kv)"
  shows "view s n = Some x \<longleftrightarrow> (\<exists>kv \<in> set pairs. name (kv_Key kv) = Some n \<and> decode (kv_Value kv) = Some x)"
proof
  assume v: "view s n = Some x"
  then obtain k where k: "known k" "name k = Some n" using assms(1) unfolding copy_of_def by fastforce
  then have "Option.bind (snapshot pairs k) decode = Some x" using assms(1) v by (simp add: copy_of_def)
  then show "\<exists>kv \<in> set pairs. name (kv_Key kv) = Some n \<and> decode (kv_Value kv) = Some x"
    using k(2) unfolding bind_eq_Some_conv snapshot_Some_iff [OF assms(2)] by blast
next
  assume "\<exists>kv \<in> set pairs. name (kv_Key kv) = Some n \<and> decode (kv_Value kv) = Some x"
  then obtain kv where kv: "kv \<in> set pairs" "name (kv_Key kv) = Some n" "decode (kv_Value kv) = Some x" by blast
  then have "snapshot pairs (kv_Key kv) = Some (kv_Value kv)" using snapshot_Some_iff [OF assms(2)] by blast
  moreover have "view s n = Option.bind (snapshot pairs (kv_Key kv)) decode"
    using assms(1,3) kv(1,2) by (simp add: copy_of_def)
  ultimately show "view s n = Some x" by (simp add: kv(3))
qed

text \<open>The copy after a watch from the beginning.\<close>

lemma watched_iff:
  assumes "watch_ok readable (snaps @ [(order, pairs)]) Map.empty" "view s = Map.empty"
    and "handles_all step (fst (watch_all (snaps @ [(order, pairs)]) Map.empty)) s s'"
  shows "view s' n = Some x \<longleftrightarrow> (\<exists>kv \<in> set pairs. name (kv_Key kv) = Some n \<and> decode (kv_Value kv) = Some x)"
proof (rule copy_of_snapshot_iff)
  have "copy_of Map.empty s" using assms(2) by (simp add: copy_of_def)
  from copy_of_watch [OF this _ assms(1,3)] show "copy_of (snapshot pairs) s'" by simp
  show "distinct (map kv_Key pairs)" "\<forall>kv \<in> set pairs. known (kv_Key kv)"
    using watch_ok_last [OF assms(1)] by (auto simp: list_all_iff readable_def)
qed

end

end
