(* ===== verification/StreamAuth.thy ===== *)
theory StreamAuth
  imports Client
begin

text \<open>
  Package \<open>stream\<close> (\<open>stream.go\<close>): the data the parts of the system exchange through the store; and
  package \<open>auth\<close> (\<open>watcher.go\<close>, \<open>auth.go\<close>): the service that answers whether a publisher may send a
  stream. Decoding JSON is a parameter \<open>unmarshal\<close>, which gives an error or the decoded value.

  The watcher is a consumer of the watch on \<open>streamSettings/\<close>: the interpretation of
  \<open>watch_consumer\<close> gives that its settings are a copy of the store; theory \<open>Loops\<close> has the watcher's loop and what
  follows for the decisions of the service.
\<close>

section \<open>Streams and their settings\<close>

record stream_Stream =
  st_Format :: string
  st_Source :: string
  st_Slug :: string
  st_PublishedAt :: int

record StreamOptions =
  so_Passthrough :: bool

record Settings =
  se_Slug :: string
  se_IngestType :: string
  se_Secret :: string
  se_Public :: bool
  se_Options :: StreamOptions

section \<open>The settings watcher\<close>

record auth_watcher =
  aw_settings :: "string \<rightharpoonup> Settings"

definition newWatcher :: auth_watcher where
  "newWatcher = \<lparr>aw_settings = Map.empty\<rparr>"

definition handleStreamSettings :: "(string \<Rightarrow> string + Settings) \<Rightarrow> WatchUpdate \<Rightarrow> auth_watcher \<Rightarrow> auth_watcher" where
  "handleStreamSettings unmarshal update w =
     (case wu_KV update of
        None \<Rightarrow> w
      | Some kv \<Rightarrow>
          let name = ParseStreamName (kv_Key kv)
          in if name = '''' then w
             else
               (case wu_Type update of
                  UpdateTypePut \<Rightarrow>
                    (case unmarshal (kv_Value kv) of
                       Inl _ \<Rightarrow> w
                     | Inr s \<Rightarrow> w\<lparr>aw_settings := (aw_settings w)(name \<mapsto> s)\<rparr>)
                | UpdateTypeDelete \<Rightarrow> w\<lparr>aw_settings := (aw_settings w)(name := None)\<rparr>))"

definition watcher_Auth :: "auth_watcher \<Rightarrow> string \<Rightarrow> string \<Rightarrow> string \<Rightarrow> bool" where
  "watcher_Auth w app slug secret =
     (case aw_settings w slug of
        None \<Rightarrow> False
      | Some settings \<Rightarrow>
          if app \<noteq> se_IngestType settings \<or> secret \<noteq> se_Secret settings then False else True)"

text \<open>The body of the loop that receives the updates of the watch.\<close>

definition handleSettingsUpdates :: "(string \<Rightarrow> string + Settings) \<Rightarrow> WatchUpdate list \<Rightarrow> auth_watcher \<Rightarrow> auth_watcher" where
  "handleSettingsUpdates unmarshal updates w = fold (handleStreamSettings unmarshal) updates w"

section \<open>The request handler\<close>

type_synonym form = "string \<rightharpoonup> string list"

text \<open>\<open>Values.Get\<close> of package \<open>net/url\<close>: the first value, or the empty string.\<close>

definition form_get :: "form \<Rightarrow> string \<Rightarrow> string" where
  "form_get f k = (case f k of Some (v # _) \<Rightarrow> v | _ \<Rightarrow> '''')"

definition StatusUnauthorized :: nat where "StatusUnauthorized = 401"

text \<open>The status code; \<open>parsed\<close> is the outcome of \<open>ParseForm\<close>.\<close>

definition authHandler :: "auth_watcher \<Rightarrow> string + form \<Rightarrow> nat" where
  "authHandler w parsed =
     (case parsed of
        Inl _ \<Rightarrow> StatusUnauthorized
      | Inr postForm \<Rightarrow>
          let app = form_get postForm ''app'';
              name = form_get postForm ''name'';
              auth = form_get postForm ''auth'';
              success = watcher_Auth w app name auth
          in if \<not> success then StatusUnauthorized else 200)"

section \<open>The watcher copies the settings of the store\<close>

definition settings_name :: "string \<Rightarrow> string option" where
  "settings_name k = (let n = ParseStreamName k in if n = '''' then None else Some n)"

text \<open>The keys below the watched prefix that stand for settings.\<close>

definition settings_key :: "string \<Rightarrow> bool" where
  "settings_key k \<longleftrightarrow> (\<exists>n. n \<noteq> '''' \<and> split slash k = [''streamSettings'', n])"

lemma settings_key_name: "settings_key k \<Longrightarrow> settings_name k = Some n \<Longrightarrow> split slash k = [''streamSettings'', n]"
  by (auto simp: settings_key_def settings_name_def ParseStreamName_def Let_def split: if_splits)

interpretation aw: watch_consumer "\<lambda>u w w'. w' = handleStreamSettings unmarshal u w" aw_settings settings_name
  "decoded unmarshal" settings_key for unmarshal
proof
  show "k = k'" if "settings_key k" "settings_key k'" "settings_name k = Some n" "settings_name k' = Some n" for k k' n
    using settings_key_name [OF that(1,3)] settings_key_name [OF that(2,4)] by (metis join_split)
qed (auto simp: handleStreamSettings_def put_update_def del_update_def settings_name_def decoded_def Let_def
      split: if_splits sum.splits)

lemma aw_handles: "handles_all (\<lambda>u w w'. w' = handleStreamSettings unmarshal u w) us w (fold (handleStreamSettings unmarshal) us w)"
  by (induction us arbitrary: w) simp_all

definition settings_pair :: "(string \<Rightarrow> string + Settings) \<Rightarrow> KVPair \<Rightarrow> bool" where
  "settings_pair unmarshal kv \<longleftrightarrow> settings_key (kv_Key kv) \<and> decoded unmarshal (kv_Value kv) \<noteq> None"

lemma settings_key_iff: "settings_key k \<and> settings_name k = Some n \<longleftrightarrow> n \<noteq> '''' \<and> slash \<notin> set n \<and> k = ''streamSettings/'' @ n"
proof
  assume "settings_key k \<and> settings_name k = Some n"
  then have "split slash k = [''streamSettings'', n]" "n \<noteq> ''''"
    using settings_key_name by (auto simp: settings_name_def Let_def split: if_splits)
  then show "n \<noteq> '''' \<and> slash \<notin> set n \<and> k = ''streamSettings/'' @ n"
    using split_elem_free [of n slash k] key_of_parts [of k] by auto
next
  assume "n \<noteq> '''' \<and> slash \<notin> set n \<and> k = ''streamSettings/'' @ n"
  moreover from this have "split slash k = [''streamSettings'', n]"
    using split_append [of slash "''streamSettings''" n] by simp
  ultimately show "settings_key k \<and> settings_name k = Some n"
    by (auto simp: settings_key_def settings_name_def ParseStreamName_def)
qed

lemma settings_name_iff:
  assumes "settings_key k"
  shows "settings_name k = Some n \<longleftrightarrow> k = ''streamSettings/'' @ n"
proof -
  from assms obtain m where m: "m \<noteq> ''''" "split slash k = [''streamSettings'', m]" by (auto simp: settings_key_def)
  then have "settings_name k = Some m" by (simp add: settings_name_def ParseStreamName_def)
  moreover have "k = ''streamSettings/'' @ m" using key_of_parts [OF m(2)] by simp
  ultimately show ?thesis by auto
qed

lemma authHandler_form:
  "authHandler w (Inr f) =
     (if \<exists>s. aw_settings w (form_get f ''name'') = Some s \<and> se_IngestType s = form_get f ''app'' \<and> se_Secret s = form_get f ''auth''
      then 200 else StatusUnauthorized)"
  by (auto simp: authHandler_def watcher_Auth_def Let_def split: option.splits)

text \<open>Settings of one stream, for examples.\<close>

definition demo_settings :: "string \<Rightarrow> string + Settings" where
  "demo_settings v = Inr \<lparr>se_Slug = ''s1'', se_IngestType = ''stream'', se_Secret = v, se_Public = True,
      se_Options = \<lparr>so_Passthrough = False\<rparr>\<rparr>"

end
