(* ===== verification/Systemd.thy ===== *)
theory Systemd
  imports Prelude
begin

text \<open>
  Package \<open>systemd\<close>: the calls to systemd over D-Bus (\<open>systemd.go\<close>) and a service, which keeps one unit
  alive (\<open>service.go\<close>).

  \<open>host\<close> is what a service acts on: the files, the calls sent to systemd in order, and the state \<open>'k\<close> that
  its clean-up function changes. systemd is not part of the program: the outcome of a call is an argument
  where the program looks at it, and elsewhere the program only logs an error. The life of a service is
  the step relation \<open>service_step\<close>: the goroutine \<open>Run\<close> (start, ticks, end), the calls \<open>Stop\<close> and
  \<open>Restart\<close> of the owner, which run beside it, and anything that happens to other units and files. The
  mutex makes \<open>start\<close>, \<open>stop\<close> and \<open>syncUnitState\<close> one step each; \<open>Restart\<close> is two steps, since it looks
  whether the service is stopping before it takes the mutex.
\<close>

section \<open>Calls to systemd\<close>

datatype conn_call =
    StartUnit string
  | RestartUnit string
  | ReloadUnit string
  | StopUnit string
  | EnableUnit string
  | DisableUnit string
  | ListUnits

datatype dbus_arg = ArgString string | ArgStrings "string list" | ArgBool bool

fun call_message :: "conn_call \<Rightarrow> string \<times> dbus_arg list" where
  "call_message (StartUnit u) = (''org.freedesktop.systemd1.Manager.StartUnit'', [ArgString u, ArgString ''replace''])"
| "call_message (RestartUnit u) = (''org.freedesktop.systemd1.Manager.RestartUnit'', [ArgString u, ArgString ''replace''])"
| "call_message (ReloadUnit u) = (''org.freedesktop.systemd1.Manager.ReloadUnit'', [ArgString u, ArgString ''replace''])"
| "call_message (StopUnit u) = (''org.freedesktop.systemd1.Manager.StopUnit'', [ArgString u, ArgString ''replace''])"
| "call_message (EnableUnit u) = (''org.freedesktop.systemd1.Manager.EnableUnitFiles'', [ArgStrings [u], ArgBool False, ArgBool False])"
| "call_message (DisableUnit u) = (''org.freedesktop.systemd1.Manager.DisableUnitFiles'', [ArgStrings [u], ArgBool False])"
| "call_message ListUnits = (''org.freedesktop.systemd1.Manager.ListUnits'', [])"

text \<open>\<open>call\<close> waits for the end of its context or for the answer, whichever it sees first.\<close>

datatype 'a call_race = CtxDone string | Replied "string + 'a"

definition Conn_call :: "'a call_race \<Rightarrow> string + 'a" where
  "Conn_call race =
     (case race of
        CtxDone e \<Rightarrow> Inl e
      | Replied (Inl e) \<Rightarrow> Inl e
      | Replied (Inr call) \<Rightarrow> Inr call)"

record Unit =
  un_Name :: string
  un_Description :: string
  un_LoadState :: string
  un_ActiveState :: string

record listresult =
  lr_Name :: string
  lr_Description :: string
  lr_LoadState :: string
  lr_ActiveState :: string
  lr_SubState :: string
  lr_Following :: string
  lr_ObjectPath :: string
  lr_JobId :: nat
  lr_Jobtype :: string
  lr_JobPath :: string

definition Conn_ListUnits :: "('a \<Rightarrow> string + listresult list) \<Rightarrow> 'a call_race \<Rightarrow> string + Unit list" where
  "Conn_ListUnits store race =
     (case Conn_call race of
        Inl e \<Rightarrow> Inl e
      | Inr call \<Rightarrow>
          (case store call of
             Inl e \<Rightarrow> Inl e
           | Inr out \<Rightarrow> Inr (map (\<lambda>r. \<lparr>un_Name = lr_Name r, un_Description = lr_Description r,
                              un_LoadState = lr_LoadState r, un_ActiveState = lr_ActiveState r\<rparr>) out)))"

section \<open>Services\<close>

record 'k host =
  hs_files :: "string \<rightharpoonup> string"
  hs_calls :: "conn_call list"
  hs_store :: 'k

definition send_call :: "conn_call \<Rightarrow> 'k host \<Rightarrow> 'k host" where
  "send_call c h = h\<lparr>hs_calls := hs_calls h @ [c]\<rparr>"

record 'k ServiceConfig =
  sc_Config :: string
  sc_ConfigPath :: string
  sc_UnitName :: string
  sc_Cleanup :: "('k \<Rightarrow> 'k) option"

text \<open>Where the goroutine \<open>Run\<close> is.\<close>

datatype run_phase = Created | KeepingAlive | Finished

record 'k Service =
  sv_conf :: "'k ServiceConfig"
  sv_stopped :: bool
  sv_cancelled :: bool
  sv_phase :: run_phase

definition NewService :: "string option \<Rightarrow> 'k ServiceConfig \<Rightarrow> string + 'k Service" where
  "NewService connErr conf =
     (case connErr of
        Some e \<Rightarrow> Inl e
      | None \<Rightarrow> Inr \<lparr>sv_conf = conf, sv_stopped = False, sv_cancelled = False, sv_phase = Created\<rparr>)"

text \<open>What writing a file does: it succeeds, or it fails and leaves something or nothing.\<close>

datatype write_outcome = Written | WriteError "string option"

definition deployConfig :: "write_outcome \<Rightarrow> 'k Service \<Rightarrow> 'k host \<Rightarrow> bool \<times> 'k host" where
  "deployConfig wr s h =
     (let newConf = sc_Config (sv_conf s);
          path = sc_ConfigPath (sv_conf s)
      in if hs_files h path = Some newConf then (False, h)
         else (True, h\<lparr>hs_files := (hs_files h)(path := (case wr of Written \<Rightarrow> Some newConf | WriteError left \<Rightarrow> left))\<rparr>))"

definition Service_start :: "write_outcome \<Rightarrow> 'k Service \<Rightarrow> 'k host \<Rightarrow> 'k host" where
  "Service_start wr s h =
     (case deployConfig wr s h of
        (restart, h1) \<Rightarrow>
          let unit = sc_UnitName (sv_conf s);
              h2 = (if restart then send_call (RestartUnit unit) h1 else send_call (StartUnit unit) h1)
          in send_call (EnableUnit unit) h2)"

definition removeConfig :: "bool \<Rightarrow> 'k Service \<Rightarrow> 'k host \<Rightarrow> 'k host" where
  "removeConfig ok s h = (if ok then h\<lparr>hs_files := (hs_files h)(sc_ConfigPath (sv_conf s) := None)\<rparr> else h)"

definition Service_stop :: "bool \<Rightarrow> 'k Service \<Rightarrow> 'k host \<Rightarrow> 'k host" where
  "Service_stop ok s h =
     (let unit = sc_UnitName (sv_conf s);
          h1 = send_call (DisableUnit unit) h;
          h2 = send_call (StopUnit unit) h1;
          h3 = removeConfig ok s h2
      in case sc_Cleanup (sv_conf s) of
           None \<Rightarrow> h3
         | Some cleanup \<Rightarrow> h3\<lparr>hs_store := cleanup (hs_store h3)\<rparr>)"

text \<open>After an error the list of units is nil and the loop does nothing.\<close>

definition restartFailed :: "'k Service \<Rightarrow> Unit \<Rightarrow> 'k host \<Rightarrow> 'k host" where
  "restartFailed s unit h =
     (if un_Name unit \<noteq> sc_UnitName (sv_conf s) then h
      else if un_ActiveState unit = ''failed'' then send_call (RestartUnit (sc_UnitName (sv_conf s))) h
      else h)"

definition syncUnitState :: "string + Unit list \<Rightarrow> 'k Service \<Rightarrow> 'k host \<Rightarrow> 'k host" where
  "syncUnitState listed s h =
     (let units = (case listed of Inl _ \<Rightarrow> [] | Inr us \<Rightarrow> us)
      in fold (restartFailed s) units (send_call ListUnits h))"

definition Service_Stop :: "'k Service \<Rightarrow> 'k Service" where
  "Service_Stop s = s\<lparr>sv_cancelled := True\<rparr>"

definition Stopped :: "'k Service \<Rightarrow> bool" where
  "Stopped s = sv_stopped s"

definition Stopping :: "'k Service \<Rightarrow> bool" where
  "Stopping s = sv_cancelled s"

definition Restart :: "write_outcome \<Rightarrow> string \<Rightarrow> 'k Service \<Rightarrow> 'k host \<Rightarrow> 'k Service \<times> 'k host" where
  "Restart wr newConfig s h =
     (if Stopping s then (s, h)
      else let s1 = s\<lparr>sv_conf := (sv_conf s)\<lparr>sc_Config := newConfig\<rparr>\<rparr>
           in (s1, Service_start wr s1 h))"

text \<open>The stages of the goroutine: start, then after the end of the context, in the order in which the
  deferred calls run: stop, cancel, and the mark that it has stopped.\<close>

definition Run_start :: "write_outcome \<Rightarrow> 'k Service \<Rightarrow> 'k host \<Rightarrow> 'k Service \<times> 'k host" where
  "Run_start wr s h = (s\<lparr>sv_phase := KeepingAlive\<rparr>, Service_start wr s h)"

definition Run_end :: "bool \<Rightarrow> 'k Service \<Rightarrow> 'k host \<Rightarrow> 'k Service \<times> 'k host" where
  "Run_end ok s h = (s\<lparr>sv_cancelled := True, sv_stopped := True, sv_phase := Finished\<rparr>, Service_stop ok s h)"

section \<open>The life of a service\<close>

text \<open>A service, a call of \<open>Restart\<close> that has found it not stopping, and the host. Two marks say whether an
  operation on a file has failed so far, and whether a \<open>Restart\<close> went on after the service had ended.\<close>

record 'k service_run =
  rn_service :: "'k Service"
  rn_restart :: "string option"
  rn_host :: "'k host"
  rn_fault :: bool
  rn_late :: bool

fun call_unit :: "conn_call \<Rightarrow> string option" where
  "call_unit (StartUnit u) = Some u"
| "call_unit (RestartUnit u) = Some u"
| "call_unit (ReloadUnit u) = Some u"
| "call_unit (StopUnit u) = Some u"
| "call_unit (EnableUnit u) = Some u"
| "call_unit (DisableUnit u) = Some u"
| "call_unit ListUnits = None"

text \<open>What others may do: anything that does not concern the unit and the file of the service.\<close>

definition elsewhere :: "'k ServiceConfig \<Rightarrow> 'k host \<Rightarrow> 'k host \<Rightarrow> bool" where
  "elsewhere conf h h' \<longleftrightarrow> hs_files h' (sc_ConfigPath conf) = hs_files h (sc_ConfigPath conf)
     \<and> (\<exists>cs. hs_calls h' = hs_calls h @ cs \<and> (\<forall>c \<in> set cs. call_unit c \<noteq> Some (sc_UnitName conf)))"

inductive service_step :: "'k service_run \<Rightarrow> 'k service_run \<Rightarrow> bool" where
  run_start: "sv_phase (rn_service r) = Created \<Longrightarrow> Run_start wr (rn_service r) (rn_host r) = (s', h') \<Longrightarrow>
    service_step r (r\<lparr>rn_service := s', rn_host := h', rn_fault := rn_fault r \<or> wr \<noteq> Written\<rparr>)"
| run_tick: "sv_phase (rn_service r) = KeepingAlive \<Longrightarrow>
    service_step r (r\<lparr>rn_host := syncUnitState listed (rn_service r) (rn_host r)\<rparr>)"
| run_end: "sv_phase (rn_service r) = KeepingAlive \<Longrightarrow> sv_cancelled (rn_service r) \<Longrightarrow> Run_end ok (rn_service r) (rn_host r) = (s', h') \<Longrightarrow>
    service_step r (r\<lparr>rn_service := s', rn_host := h', rn_fault := rn_fault r \<or> \<not> ok\<rparr>)"
| stop: "service_step r (r\<lparr>rn_service := Service_Stop (rn_service r)\<rparr>)"
| restart_check: "\<not> Stopping (rn_service r) \<Longrightarrow> service_step r (r\<lparr>rn_restart := Some newConfig\<rparr>)"
| restart_run: "rn_restart r = Some newConfig \<Longrightarrow> s' = (rn_service r)\<lparr>sv_conf := (sv_conf (rn_service r))\<lparr>sc_Config := newConfig\<rparr>\<rparr> \<Longrightarrow>
    service_step r (r\<lparr>rn_service := s', rn_restart := None, rn_host := Service_start wr s' (rn_host r),
      rn_fault := rn_fault r \<or> wr \<noteq> Written, rn_late := rn_late r \<or> sv_phase (rn_service r) = Finished\<rparr>)"
| others: "elsewhere (sv_conf (rn_service r)) (rn_host r) h' \<Longrightarrow> service_step r (r\<lparr>rn_host := h'\<rparr>)"

inductive_cases service_stepE: "service_step r r'"

inductive service_reach :: "'k service_run \<Rightarrow> 'k service_run \<Rightarrow> bool" for first where
  here: "service_reach first first"
| step: "service_reach first r \<Longrightarrow> service_step r r' \<Longrightarrow> service_reach first r'"

definition service_begin :: "'k Service \<Rightarrow> 'k host \<Rightarrow> 'k service_run" where
  "service_begin s h = \<lparr>rn_service = s, rn_restart = None, rn_host = h, rn_fault = False, rn_late = False\<rparr>"

text \<open>What systemd does with the calls about one unit: whether it is active and whether it is enabled.\<close>

fun unit_after :: "string \<Rightarrow> conn_call \<Rightarrow> bool \<times> bool \<Rightarrow> bool \<times> bool" where
  "unit_after u (StartUnit v) (active, enabled) = (active \<or> u = v, enabled)"
| "unit_after u (RestartUnit v) (active, enabled) = (active \<or> u = v, enabled)"
| "unit_after u (ReloadUnit v) st = st"
| "unit_after u (StopUnit v) (active, enabled) = (active \<and> u \<noteq> v, enabled)"
| "unit_after u (EnableUnit v) (active, enabled) = (active, enabled \<or> u = v)"
| "unit_after u (DisableUnit v) (active, enabled) = (active, enabled \<and> u \<noteq> v)"
| "unit_after u ListUnits st = st"

definition unit_state :: "string \<Rightarrow> conn_call list \<Rightarrow> bool \<times> bool" where
  "unit_state u cs = fold (unit_after u) cs (False, False)"

text \<open>The abstract view: a unit is off, or on with a configuration; \<open>None\<close> when it is neither.\<close>

datatype unit_view = UnitOff | UnitOn string

definition observe :: "'k ServiceConfig \<Rightarrow> 'k host \<Rightarrow> unit_view option" where
  "observe conf h =
     (case (unit_state (sc_UnitName conf) (hs_calls h), hs_files h (sc_ConfigPath conf)) of
        ((True, True), Some c) \<Rightarrow> Some (UnitOn c)
      | ((False, False), None) \<Rightarrow> Some UnitOff
      | _ \<Rightarrow> None)"

lemma unit_state_append [simp]: "unit_state u (cs @ ds) = fold (unit_after u) ds (unit_state u cs)"
  by (simp add: unit_state_def)

lemma unit_after_other: "call_unit c \<noteq> Some u \<Longrightarrow> unit_after u c st = st"
  by (cases c; cases st) auto

lemma unit_state_others: "\<forall>c \<in> set cs. call_unit c \<noteq> Some u \<Longrightarrow> fold (unit_after u) cs st = st"
  by (induction cs arbitrary: st) (simp_all add: unit_after_other)

lemma observe_elsewhere: "elsewhere conf h h' \<Longrightarrow> observe conf h' = observe conf h"
  by (auto simp: elsewhere_def observe_def unit_state_others)

lemma observe_start: "observe (sv_conf s) (Service_start Written s h) = Some (UnitOn (sc_Config (sv_conf s)))"
  by (cases "unit_state (sc_UnitName (sv_conf s)) (hs_calls h)"; cases "hs_files h (sc_ConfigPath (sv_conf s)) = Some (sc_Config (sv_conf s))")
     (simp_all add: Service_start_def deployConfig_def send_call_def observe_def Let_def)

lemma observe_stop: "observe (sv_conf s) (Service_stop True s h) = Some UnitOff"
  by (cases "unit_state (sc_UnitName (sv_conf s)) (hs_calls h)")
     (simp add: Service_stop_def removeConfig_def send_call_def observe_def Let_def split: option.splits)

lemma observe_failed: "observe (sv_conf s) h = Some (UnitOn c) \<Longrightarrow> observe (sv_conf s) (restartFailed s u h) = Some (UnitOn c)"
  by (auto simp: restartFailed_def send_call_def observe_def split: prod.splits bool.splits option.splits)

lemma observe_sync:
  assumes "observe (sv_conf s) h = Some (UnitOn c)"
  shows "observe (sv_conf s) (syncUnitState listed s h) = Some (UnitOn c)"
proof -
  have "observe (sv_conf s) (fold (restartFailed s) us h') = Some (UnitOn c)" if "observe (sv_conf s) h' = Some (UnitOn c)" for us h'
    using that by (induction us arbitrary: h') (simp_all add: observe_failed)
  moreover have "observe (sv_conf s) (send_call ListUnits h) = Some (UnitOn c)"
    using assms by (simp add: observe_def send_call_def)
  ultimately show ?thesis by (simp add: syncUnitState_def)
qed

text \<open>The invariant of a service.\<close>

definition service_inv :: "'k service_run \<Rightarrow> bool" where
  "service_inv r \<longleftrightarrow> (let s = rn_service r in
     (sv_stopped s \<longleftrightarrow> sv_phase s = Finished) \<and> (sv_stopped s \<longrightarrow> sv_cancelled s)
     \<and> (\<not> rn_fault r \<longrightarrow> sv_phase s = KeepingAlive \<longrightarrow> observe (sv_conf s) (rn_host r) = Some (UnitOn (sc_Config (sv_conf s))))
     \<and> (\<not> rn_fault r \<longrightarrow> \<not> rn_late r \<longrightarrow> sv_phase s = Finished \<longrightarrow> observe (sv_conf s) (rn_host r) = Some UnitOff))"

lemma service_step_inv: "service_step r r' \<Longrightarrow> service_inv r \<Longrightarrow> service_inv r'"
proof (induction rule: service_step.induct)
  case (run_start r wr s' h')
  then show ?case by (cases wr) (auto simp: service_inv_def Run_start_def Let_def observe_start)
next
  case (run_tick r listed)
  then show ?case by (auto simp: service_inv_def Let_def observe_sync)
next
  case (run_end r ok s' h')
  then show ?case by (cases ok) (auto simp: service_inv_def Run_end_def Let_def observe_stop)
next
  case (stop r)
  then show ?case by (auto simp: service_inv_def Let_def Service_Stop_def)
next
  case (restart_check r newConfig)
  then show ?case by (auto simp: service_inv_def Let_def)
next
  case (restart_run r newConfig s' wr)
  then show ?case
    using observe_start [of s' "rn_host r"] by (cases wr) (auto simp: service_inv_def Let_def)
next
  case (others r h')
  then show ?case by (auto simp: service_inv_def Let_def observe_elsewhere)
qed

section \<open>Properties\<close>


definition demo_service_conf :: "string list ServiceConfig" where
  "demo_service_conf = \<lparr>sc_Config = ''a=1'', sc_ConfigPath = ''/etc/t/x'', sc_UnitName = ''t@x.target'', sc_Cleanup = Some tl\<rparr>"

definition demo_service :: "string list Service" where
  "demo_service = \<lparr>sv_conf = demo_service_conf, sv_stopped = False, sv_cancelled = False, sv_phase = Created\<rparr>"

definition demo_host :: "string list host" where
  "demo_host = \<lparr>hs_files = Map.empty, hs_calls = [], hs_store = [''claim'']\<rparr>"

text \<open>A run that starts the service, stops it, and lets it end.\<close>

definition demo_started :: "string list service_run" where
  "demo_started = (let (s, h) = Run_start Written demo_service demo_host in
     (service_begin demo_service demo_host)\<lparr>rn_service := s, rn_host := h\<rparr>)"

definition demo_stopping :: "string list service_run" where
  "demo_stopping = demo_started\<lparr>rn_service := Service_Stop (rn_service demo_started)\<rparr>"

definition demo_ended :: "string list service_run" where
  "demo_ended = (let (s, h) = Run_end True (rn_service demo_stopping) (rn_host demo_stopping) in
     demo_stopping\<lparr>rn_service := s, rn_host := h\<rparr>)"

lemmas demo_run_defs = demo_service_conf_def demo_service_def demo_host_def demo_started_def demo_stopping_def demo_ended_def
  service_begin_def Run_start_def Run_end_def Service_Stop_def

lemma demo_started_step: "service_step (service_begin demo_service demo_host) demo_started"
  using service_step.run_start [of "service_begin demo_service demo_host" Written] by (simp add: demo_run_defs)

lemma demo_ended_reach:
  assumes "service_reach first r" "sv_phase (rn_service r) = KeepingAlive"
    "r' = r\<lparr>rn_service := Service_Stop (rn_service r)\<rparr>" "Run_end True (rn_service r') (rn_host r') = (s, h)"
  shows "service_reach first (r'\<lparr>rn_service := s, rn_host := h\<rparr>)"
proof -
  have "service_reach first r'" using service_reach.step [OF assms(1) service_step.stop] assms(3) by simp
  moreover have "service_step r' (r'\<lparr>rn_service := s, rn_host := h\<rparr>)"
    using service_step.run_end [of r' True s h] assms(2,3,4) by (simp add: Service_Stop_def)
  ultimately show ?thesis by (rule service_reach.step)
qed


text \<open>Without the condition on \<open>Restart\<close> this fails: a call that looked whether the service is stopping
  before the service was cancelled, and takes the mutex after the service has ended, writes the
  configuration again and starts the unit, and no goroutine is left to stop it.\<close>

lemma late_restart_revives_unit:
  "\<exists>r. service_reach (service_begin demo_service demo_host) r \<and> Stopped (rn_service r) \<and> \<not> rn_fault r
    \<and> observe (sv_conf (rn_service r)) (rn_host r) = Some (UnitOn ''a=2'')"
proof -
  let ?checked = "demo_started\<lparr>rn_restart := Some ''a=2''\<rparr>"
  let ?stopping = "?checked\<lparr>rn_service := Service_Stop (rn_service ?checked)\<rparr>"
  obtain s h where e: "Run_end True (rn_service ?stopping) (rn_host ?stopping) = (s, h)" by fastforce
  let ?ended = "?stopping\<lparr>rn_service := s, rn_host := h\<rparr>"
  let ?s = "s\<lparr>sv_conf := (sv_conf s)\<lparr>sc_Config := ''a=2''\<rparr>\<rparr>"
  let ?r = "?ended\<lparr>rn_service := ?s, rn_restart := None, rn_host := Service_start Written ?s h, rn_fault := rn_fault ?ended \<or> Written \<noteq> Written,
      rn_late := rn_late ?ended \<or> sv_phase (rn_service ?ended) = Finished\<rparr>"
  have "service_reach (service_begin demo_service demo_host) demo_started"
    by (rule service_reach.step [OF service_reach.here demo_started_step])
  moreover have "service_step demo_started ?checked"
    by (rule service_step.restart_check) (simp add: Stopping_def demo_run_defs)
  ultimately have "service_reach (service_begin demo_service demo_host) ?checked" by (rule service_reach.step)
  then have "service_reach (service_begin demo_service demo_host) ?ended"
    using demo_ended_reach [of _ ?checked ?stopping s h] e by (simp add: demo_run_defs)
  moreover have "service_step ?ended ?r" using service_step.restart_run [of ?ended "''a=2''" ?s Written] by simp
  ultimately have reach: "service_reach (service_begin demo_service demo_host) ?r" by (rule service_reach.step)
  show ?thesis
  proof (intro exI conjI)
    show "service_reach (service_begin demo_service demo_host) ?r" by (rule reach)
    show "Stopped (rn_service ?r)" "\<not> rn_fault ?r" using e by (auto simp: Run_end_def demo_run_defs Stopped_def)
    show "observe (sv_conf (rn_service ?r)) (rn_host ?r) = Some (UnitOn ''a=2'')" using observe_start [of ?s h] by simp
  qed
qed

end
