(* ===== verification/Transcode.thy ===== *)
theory Transcode
  imports StreamAuth Systemd "HOL-Library.Multiset" Complex_Main
begin

text \<open>
  Package \<open>transcode\<close> (\<open>transcoder.go\<close>, \<open>status.go\<close>): a transcoder watches the streams and the other
  transcoders in the store, claims streams when it is the least loaded one, and runs a service for each.

  The store is the parameter \<open>'k\<close> with the operations of \<open>kv_api\<close> (the interface \<open>client.ServiceAPI\<close>);
  encoding and decoding JSON are parameters too. A pointer to a service is an option: a failed
  \<open>createService\<close> leaves a nil pointer in the map. What the language leaves open is an argument: the
  order of a \<open>range\<close> over a map, and the slice that \<open>sort.Sort\<close> leaves, of which \<open>sort_outcome\<close> says that
  it is a permutation, ordered if \<open>Less\<close> is a strict weak order. The load of a transcoder is a rational
  number; the source compares quotients of \<open>float64\<close>, which order in the same way as long as the
  numbers are below \<open>2 ^ 26\<close>.
\<close>

section \<open>Statuses and their order\<close>

record TranscoderStatus =
  ts_Name :: string
  ts_Capacity :: int
  ts_NumStreams :: int

definition ByLoad_Less :: "TranscoderStatus \<Rightarrow> TranscoderStatus \<Rightarrow> bool" where
  "ByLoad_Less a b =
     (if ts_Capacity a \<le> 0 \<or> ts_Capacity b \<le> 0 then ts_NumStreams a < ts_NumStreams b
      else (of_int (ts_NumStreams a) / of_int (ts_Capacity a) :: rat)
             < of_int (ts_NumStreams b) / of_int (ts_Capacity b))"

definition strict_weak :: "('a \<Rightarrow> 'a \<Rightarrow> bool) \<Rightarrow> 'a set \<Rightarrow> bool" where
  "strict_weak lt A \<longleftrightarrow> (\<forall>x \<in> A. \<not> lt x x)
     \<and> (\<forall>x \<in> A. \<forall>y \<in> A. \<forall>z \<in> A. lt x y \<longrightarrow> lt y z \<longrightarrow> lt x z)
     \<and> (\<forall>x \<in> A. \<forall>y \<in> A. \<forall>z \<in> A. lt x z \<longrightarrow> lt x y \<or> lt y z)"

definition sort_outcome :: "('a \<Rightarrow> 'a \<Rightarrow> bool) \<Rightarrow> 'a list \<Rightarrow> 'a list \<Rightarrow> bool" where
  "sort_outcome lt xs ys \<longleftrightarrow> mset ys = mset xs \<and> (strict_weak lt (set xs) \<longrightarrow> sorted_wrt (\<lambda>x y. \<not> lt y x) ys)"

section \<open>The transcoder\<close>

record 'k kv_api =
  api_PutWithSession :: "string \<Rightarrow> string \<Rightarrow> 'k \<Rightarrow> client_error option \<times> 'k"
  api_Delete :: "string \<Rightarrow> 'k \<Rightarrow> client_error option \<times> 'k"

record codec =
  marshal_status :: "TranscoderStatus \<Rightarrow> string + string"
  unmarshal_status :: "string \<Rightarrow> string + TranscoderStatus"
  unmarshal_stream :: "string \<Rightarrow> string + stream_Stream"

record 'k Transcoder =
  tc_name :: string
  tc_capacity :: int
  tc_configPath :: string
  tc_sink :: string
  tc_services :: "string \<rightharpoonup> 'k Service option"
  tc_transcoders :: "string \<rightharpoonup> TranscoderStatus"
  tc_streams :: "string \<rightharpoonup> stream_Stream"
  tc_streamTranscoders :: "string \<rightharpoonup> string"

record TranscodeConfig =
  tf_Enable :: bool
  tf_Capacity :: int
  tf_ConfigPath :: string
  tf_Sink :: string

definition Transcoder_New :: "TranscodeConfig \<Rightarrow> string \<Rightarrow> 'k Transcoder" where
  "Transcoder_New conf name =
     \<lparr>tc_name = name, tc_capacity = tf_Capacity conf, tc_configPath = tf_ConfigPath conf, tc_sink = tf_Sink conf,
      tc_services = Map.empty, tc_transcoders = Map.empty, tc_streams = Map.empty, tc_streamTranscoders = Map.empty\<rparr>"

text \<open>\<open>len(t.services)\<close>\<close>

definition num_services :: "'k Transcoder \<Rightarrow> int" where
  "num_services t = int (card (dom (tc_services t)))"

datatype publish_error = MarshalError string | PutError client_error

definition publishStatus :: "'k kv_api \<Rightarrow> codec \<Rightarrow> 'k Transcoder \<Rightarrow> 'k host \<Rightarrow> publish_error option \<times> 'k host" where
  "publishStatus api js t h =
     (case marshal_status js \<lparr>ts_Name = tc_name t, ts_Capacity = tc_capacity t, ts_NumStreams = num_services t\<rparr> of
        Inl e \<Rightarrow> (Some (MarshalError e), h)
      | Inr data \<Rightarrow>
          (case api_PutWithSession api (ServicePath ''transcode'' (tc_name t)) data (hs_store h) of
             (err, k) \<Rightarrow> (map_option PutError err, h\<lparr>hs_store := k\<rparr>)))"

text \<open>The loop at the start of \<open>run\<close>, over the readings of the clock; \<open>StillWaiting\<close> when they are used up.\<close>

datatype publish_loop = PublishedStatus | PublishFatal publish_error | StillWaiting

fun publishLoop :: "'k kv_api \<Rightarrow> codec \<Rightarrow> time \<Rightarrow> time list \<Rightarrow> 'k Transcoder \<Rightarrow> 'k host \<Rightarrow> publish_loop \<times> 'k host" where
  "publishLoop api js deadline [] t h = (StillWaiting, h)"
| "publishLoop api js deadline (now # nows) t h =
     (case publishStatus api js t h of
        (None, h1) \<Rightarrow> (PublishedStatus, h1)
      | (Some e, h1) \<Rightarrow>
          (case e of
             PutError (ErrAlreadyAquired _) \<Rightarrow>
               if now < deadline then publishLoop api js deadline nows t h1 else (PublishFatal e, h1)
           | _ \<Rightarrow> (PublishFatal e, h1)))"

definition handleTranscoder :: "codec \<Rightarrow> WatchUpdate \<Rightarrow> 'k Transcoder \<Rightarrow> 'k Transcoder" where
  "handleTranscoder js update t =
     (case wu_KV update of
        None \<Rightarrow> t
      | Some kv \<Rightarrow>
          (case ParseTranscoderName (kv_Key kv) of
             (name, ok) \<Rightarrow>
               if \<not> ok then t
               else
                 (case wu_Type update of
                    UpdateTypePut \<Rightarrow>
                      (case unmarshal_status js (kv_Value kv) of
                         Inl _ \<Rightarrow> t
                       | Inr status \<Rightarrow> t\<lparr>tc_transcoders := (tc_transcoders t)(name \<mapsto> status)\<rparr>)
                  | UpdateTypeDelete \<Rightarrow> t\<lparr>tc_transcoders := (tc_transcoders t)(name := None)\<rparr>)))"

text \<open>\<open>shouldClaim\<close>, on the sorted slice of the known transcoders.\<close>

definition shouldClaim :: "TranscoderStatus list \<Rightarrow> 'k Transcoder \<Rightarrow> bool" where
  "shouldClaim transcoders t =
     (if tc_capacity t - num_services t \<le> 0 then False
      else if length transcoders < 1 then False
      else if ts_Name (transcoders ! 0) \<noteq> tc_name t then False
      else True)"

definition sorted_transcoders :: "'k Transcoder \<Rightarrow> TranscoderStatus list \<Rightarrow> bool" where
  "sorted_transcoders t ys \<longleftrightarrow>
     (\<exists>ks. range_order (tc_transcoders t) ks \<and> sort_outcome ByLoad_Less (map (the \<circ> tc_transcoders t) ks) ys)"

definition newline :: string where "newline = [CHR 0x0A]"

definition templateConfig :: "'k Transcoder \<Rightarrow> stream_Stream \<Rightarrow> string" where
  "templateConfig t s =
     newline @ ''stream_key='' @ st_Slug s @ newline @
     ''format='' @ st_Format s @ newline @
     ''output='' @ ''direct'' @ newline @
     ''type='' @ ''h264-only'' @ newline @
     ''transcoding_source='' @ st_Source s @ newline @
     ''transcoding_sink='' @ tc_sink t @ newline"

definition createService :: "'k kv_api \<Rightarrow> string option \<Rightarrow> 'k Transcoder \<Rightarrow> stream_Stream \<Rightarrow> string + 'k Service" where
  "createService api connErr t s =
     NewService connErr
       \<lparr>sc_Config = templateConfig t s,
        sc_ConfigPath = joinPath [tc_configPath t, st_Slug s],
        sc_UnitName = ''transcode@'' @ st_Slug s @ ''.target'',
        sc_Cleanup = Some (\<lambda>k. snd (api_Delete api (StreamTranscoderPath (st_Slug s)) k))\<rparr>"

definition startService :: "'k kv_api \<Rightarrow> codec \<Rightarrow> string option \<Rightarrow> stream_Stream \<Rightarrow> 'k Transcoder \<Rightarrow> 'k host \<Rightarrow> 'k Transcoder \<times> 'k host" where
  "startService api js connErr s t h =
     (let service = (case createService api connErr t s of Inl _ \<Rightarrow> None | Inr sv \<Rightarrow> Some sv);
          t1 = t\<lparr>tc_services := (tc_services t)(st_Slug s \<mapsto> service)\<rparr>
      in (t1, snd (publishStatus api js t1 h)))"

text \<open>What the language, the file system and systemd leave open in one call of \<open>claimStream\<close>.\<close>

record claim_choice =
  cc_transcoders :: "TranscoderStatus list"
  cc_write :: write_outcome
  cc_connErr :: "string option"

definition claimStream :: "'k kv_api \<Rightarrow> codec \<Rightarrow> claim_choice \<Rightarrow> stream_Stream \<Rightarrow> 'k Transcoder \<times> 'k host \<Rightarrow> ('k Transcoder \<times> 'k host) go" where
  "claimStream api js ch s th =
     (case th of (t, h) \<Rightarrow>
        if \<not> shouldClaim (cc_transcoders ch) t then Inr (t, h)
        else
          (case tc_services t (st_Slug s) of
             Some None \<Rightarrow> Inl NilPointer
           | found \<Rightarrow>
               if (case found of Some (Some service) \<Rightarrow> Stopping service | _ \<Rightarrow> False) then Inr (t, h)
               else
                 (case api_PutWithSession api (StreamTranscoderPath (st_Slug s)) (tc_name t) (hs_store h) of
                    (err, k) \<Rightarrow>
                      let h1 = h\<lparr>hs_store := k\<rparr>
                      in if err \<noteq> None then Inr (t, h1)
                         else
                           (case found of
                              Some (Some service) \<Rightarrow>
                                (case Restart (cc_write ch) (templateConfig t s) service h1 of
                                   (service', h2) \<Rightarrow> Inr (t\<lparr>tc_services := (tc_services t)(st_Slug s \<mapsto> Some service')\<rparr>, h2))
                            | _ \<Rightarrow> Inr (startService api js (cc_connErr ch) s t h1)))))"

definition Transcoder_handleStreamUpdate :: "'k kv_api \<Rightarrow> codec \<Rightarrow> claim_choice \<Rightarrow> string \<Rightarrow> UpdateType \<Rightarrow> string \<Rightarrow>
    'k Transcoder \<times> 'k host \<Rightarrow> ('k Transcoder \<times> 'k host) go" where
  "Transcoder_handleStreamUpdate api js ch key ty val th =
     (case th of (t, h) \<Rightarrow>
        (case ty of
           UpdateTypePut \<Rightarrow>
             (case unmarshal_stream js val of
                Inl _ \<Rightarrow> Inr (t, h)
              | Inr str \<Rightarrow> claimStream api js ch str (t\<lparr>tc_streams := (tc_streams t)(key \<mapsto> str)\<rparr>, h))
         | UpdateTypeDelete \<Rightarrow> Inr (t\<lparr>tc_streams := (tc_streams t)(key := None)\<rparr>, h)))"

definition Transcoder_handleStreamTranscoder :: "'k kv_api \<Rightarrow> codec \<Rightarrow> claim_choice \<Rightarrow> string \<Rightarrow> UpdateType \<Rightarrow> string \<Rightarrow>
    'k Transcoder \<times> 'k host \<Rightarrow> ('k Transcoder \<times> 'k host) go" where
  "Transcoder_handleStreamTranscoder api js ch key ty val th =
     (case th of (t, h) \<Rightarrow>
        (case ty of
           UpdateTypePut \<Rightarrow> Inr (t\<lparr>tc_streamTranscoders := (tc_streamTranscoders t)(key \<mapsto> val)\<rparr>, h)
         | UpdateTypeDelete \<Rightarrow>
             let t1 = t\<lparr>tc_streamTranscoders := (tc_streamTranscoders t)(key := None)\<rparr>
             in case tc_streams t1 key of
                  None \<Rightarrow> Inr (t1, h)
                | Some stream \<Rightarrow> claimStream api js ch stream (t1, h)))"

definition Transcoder_handleStream :: "'k kv_api \<Rightarrow> codec \<Rightarrow> claim_choice \<Rightarrow> WatchUpdate \<Rightarrow>
    'k Transcoder \<times> 'k host \<Rightarrow> ('k Transcoder \<times> 'k host) go" where
  "Transcoder_handleStream api js ch update th =
     (case wu_KV update of
        None \<Rightarrow> Inr th
      | Some kv \<Rightarrow>
          let path = kv_Key kv;
              name = ParseStreamName path
          in if name = '''' then Inr th
             else if PathIsStream path then Transcoder_handleStreamUpdate api js ch name (wu_Type update) (kv_Value kv) th
             else if PathIsStreamTranscoder path then Transcoder_handleStreamTranscoder api js ch name (wu_Type update) (kv_Value kv) th
             else Inr th)"

text \<open>The periodic updates: first the services, in the order \<open>ks\<close>, then, if there is capacity, the
  streams without transcoder, in the order \<open>ss\<close>.\<close>

definition tickService :: "'k kv_api \<Rightarrow> codec \<Rightarrow> string \<Rightarrow> 'k Transcoder \<times> 'k host \<Rightarrow> ('k Transcoder \<times> 'k host) go" where
  "tickService api js key th =
     (case th of (t, h) \<Rightarrow>
        (case tc_services t key of
           None \<Rightarrow> Inr (t, h)
         | Some None \<Rightarrow> Inl NilPointer
         | Some (Some service) \<Rightarrow>
             let (t1, h1) = (if Stopped service
                             then let t' = t\<lparr>tc_services := (tc_services t)(key := None)\<rparr>
                                  in (t', snd (publishStatus api js t' h))
                             else (t, h));
                 stopped = (if key \<in> dom (tc_services t1) then Some (Some (Service_Stop service)) else None)
             in if tc_streams t1 key = None then Inr (t1\<lparr>tc_services := (tc_services t1)(key := stopped)\<rparr>, h1)
                else Inr (t1, h1)))"

definition tickStream :: "'k kv_api \<Rightarrow> codec \<Rightarrow> (string \<Rightarrow> claim_choice) \<Rightarrow> string \<Rightarrow> 'k Transcoder \<times> 'k host \<Rightarrow> ('k Transcoder \<times> 'k host) go" where
  "tickStream api js chs key th =
     (case tc_streams (fst th) key of
        None \<Rightarrow> Inr th
      | Some stream \<Rightarrow>
          if tc_streamTranscoders (fst th) key \<noteq> None then Inr th
          else claimStream api js (chs key) stream th)"

definition Transcoder_tick :: "'k kv_api \<Rightarrow> codec \<Rightarrow> string list \<Rightarrow> TranscoderStatus list \<Rightarrow> string list \<Rightarrow> (string \<Rightarrow> claim_choice) \<Rightarrow>
    'k Transcoder \<times> 'k host \<Rightarrow> ('k Transcoder \<times> 'k host) go" where
  "Transcoder_tick api js ks transcoders ss chs th =
     go_bind (go_fold (tickService api js) ks th)
       (\<lambda>th1. if \<not> shouldClaim transcoders (fst th1) then Inr th1
              else go_fold (tickStream api js chs) ss th1)"

end
