(* ===== verification/Publish.thy ===== *)
theory Publish
  imports Transcode Interfaces "HOL-Library.Signed_Division"
begin

text \<open>
  Package \<open>publish\<close> (\<open>publisher.go\<close>) and its sources (\<open>source/icecast.go\<close>, \<open>source/srtrelay.go\<close>): a
  publisher asks its sources at every tick for the streams they have, writes each into the store, and
  deletes a stream that no source has named for some ticks.

  The store is the parameter \<open>'k\<close> with the operations of \<open>kv_api\<close>; encoding and decoding JSON and the
  answers of the sources to HTTP requests are arguments. A tick takes the results of the scrapers in
  order and the order in which it ranges over the stored streams. The loop of a publisher is an
  interpretation of \<open>ttl_store\<close>.
\<close>

section \<open>Sources\<close>

record SourceConfig =
  sr_Type :: string
  sr_URL :: string

record PublisherConfig =
  pf_Enable :: bool
  pf_Sources :: "SourceConfig list"
  pf_Interval :: duration
  pf_Timeout :: duration

record IcecastStream =
  ic_Listeners :: int
  ic_ListenerPeak :: int
  ic_ServerType :: string
  ic_StreamStart :: time
  ic_URL :: string

record srtStream =
  sr_Name :: string
  sr_Clients :: int
  sr_Created :: time
  sr_StreamURL :: string

text \<open>The outcome of a request to a URL: it could not be made, was not answered, its answer could not be
  read, or the body. In an array of objects JSON may have \<open>null\<close>, which decodes to a nil pointer: \<open>None\<close>.\<close>

datatype http_answer = RequestError string | DoError string | ReadError string | Body string

text \<open>\<open>js_stats\<close> reads the field \<open>icestats.source\<close>, which may be missing; \<open>js_slice\<close> and \<open>js_single\<close> decode
  it, and \<open>js_srt\<close> decodes the streams of srtrelay.\<close>

record source_json =
  js_stats :: "string \<Rightarrow> string + string option"
  js_slice :: "string \<Rightarrow> string + IcecastStream option list"
  js_single :: "string \<Rightarrow> string + IcecastStream"
  js_srt :: "string \<Rightarrow> string + srtStream option list"

definition icecast_parse :: "source_json \<Rightarrow> string \<Rightarrow> string + IcecastStream option list" where
  "icecast_parse js data =
     (case js_stats js data of
        Inl e \<Rightarrow> Inl (''unmarshal stats: '' @ e)
      | Inr None \<Rightarrow> Inr []
      | Inr (Some source) \<Rightarrow>
          (case js_slice js source of
             Inr iceStreams \<Rightarrow> Inr iceStreams
           | Inl _ \<Rightarrow>
               (case js_single js source of
                  Inl e \<Rightarrow> Inl (''unmarshal stream: '' @ e)
                | Inr iceStream \<Rightarrow> Inr [Some iceStream])))"

fun mapStreams :: "IcecastStream option list \<Rightarrow> stream_Stream list go" where
  "mapStreams [] = Inr []"
| "mapStreams (None # iceStreams) = Inl NilPointer"
| "mapStreams (Some source # iceStreams) =
     go_bind (mapStreams iceStreams) (\<lambda>streams.
       Inr (\<lparr>st_Format = ''matroska'', st_Source = ic_URL source, st_Slug = base (ic_URL source), st_PublishedAt = 0\<rparr> # streams))"

definition icecast_Scrape :: "(string \<Rightarrow> http_answer) \<Rightarrow> source_json \<Rightarrow> SourceConfig \<Rightarrow> (string + stream_Stream list) go" where
  "icecast_Scrape get js conf =
     (case get (sr_URL conf @ ''/status-json.xsl'') of
        RequestError e \<Rightarrow> Inr (Inl e)
      | DoError e \<Rightarrow> Inr (Inl (''get: '' @ e))
      | ReadError e \<Rightarrow> Inr (Inl (''read: '' @ e))
      | Body data \<Rightarrow>
          (case icecast_parse js data of
             Inl e \<Rightarrow> Inr (Inl (''parse: '' @ e))
           | Inr streams \<Rightarrow> go_bind (mapStreams streams) (\<lambda>r. Inr (Inr r))))"

definition srt_getStats :: "(string \<Rightarrow> http_answer) \<Rightarrow> source_json \<Rightarrow> string \<Rightarrow> string + srtStream option list" where
  "srt_getStats get js url =
     (case get (url @ ''/streams'') of
        RequestError e \<Rightarrow> Inl e
      | DoError e \<Rightarrow> Inl e
      | ReadError e \<Rightarrow> Inl e
      | Body data \<Rightarrow> js_srt js data)"

fun mapSources :: "srtStream option list \<Rightarrow> stream_Stream list go" where
  "mapSources [] = Inr []"
| "mapSources (None # srtStreams) = Inl NilPointer"
| "mapSources (Some s # srtStreams) =
     go_bind (mapSources srtStreams) (\<lambda>streams.
       Inr (\<lparr>st_Format = ''mpegts'', st_Source = sr_StreamURL s, st_Slug = sr_Name s, st_PublishedAt = 0\<rparr> # streams))"

definition srt_Scrape :: "(string \<Rightarrow> http_answer) \<Rightarrow> source_json \<Rightarrow> SourceConfig \<Rightarrow> (string + stream_Stream list) go" where
  "srt_Scrape get js conf =
     (case srt_getStats get js (sr_URL conf) of
        Inl e \<Rightarrow> Inr (Inl e)
      | Inr streams \<Rightarrow> go_bind (mapSources streams) (\<lambda>r. Inr (Inr r)))"

section \<open>The publisher\<close>

record storedStream =
  ss_st :: stream_Stream
  ss_ttl :: int

record Publisher =
  pb_ttl :: int
  pb_streams :: "string \<rightharpoonup> storedStream"

datatype scraper = IcecastScraper SourceConfig | SrtrelayScraper SourceConfig

definition makeScrapers :: "SourceConfig list \<Rightarrow> scraper list" where
  "makeScrapers sources =
     concat (map (\<lambda>c. if sr_Type c = ''icecast'' then [IcecastScraper c]
                      else if sr_Type c = ''srtrelay'' then [SrtrelayScraper c]
                      else []) sources)"

definition Scrape :: "(string \<Rightarrow> http_answer) \<Rightarrow> source_json \<Rightarrow> scraper \<Rightarrow> (string + stream_Stream list) go" where
  "Scrape get js sc = (case sc of IcecastScraper c \<Rightarrow> icecast_Scrape get js c | SrtrelayScraper c \<Rightarrow> srt_Scrape get js c)"

text \<open>Go divides integers towards zero, and panics on a zero divisor.\<close>

definition Publisher_New :: "PublisherConfig \<Rightarrow> (scraper list \<times> Publisher) go" where
  "Publisher_New conf =
     (if pf_Interval conf = 0 then Inl DivideByZero
      else Inr (makeScrapers (pf_Sources conf),
                \<lparr>pb_ttl = pf_Timeout conf sdiv pf_Interval conf, pb_streams = Map.empty\<rparr>))"

definition publishStream :: "'k kv_api \<Rightarrow> (stream_Stream \<Rightarrow> string + string) \<Rightarrow> stream_Stream \<Rightarrow> 'k \<Rightarrow> publish_error option \<times> 'k" where
  "publishStream api marshal stream k =
     (case marshal stream of
        Inl e \<Rightarrow> (Some (MarshalError e), k)
      | Inr val \<Rightarrow>
          (case api_PutWithSession api (StreamPath (st_Slug stream)) val k of
             (err, k') \<Rightarrow> (map_option PutError err, k')))"

definition unpublishStream :: "'k kv_api \<Rightarrow> storedStream \<Rightarrow> 'k \<Rightarrow> client_error option \<times> 'k" where
  "unpublishStream api stream k = api_Delete api (StreamPath (st_Slug (ss_st stream))) k"

text \<open>One round of the loop in \<open>processUpdate\<close>: the publisher, the new streams so far and the store.\<close>

definition processStream :: "'k kv_api \<Rightarrow> (stream_Stream \<Rightarrow> string + string) \<Rightarrow> stream_Stream \<Rightarrow>
    Publisher \<times> storedStream list \<times> 'k \<Rightarrow> Publisher \<times> storedStream list \<times> 'k" where
  "processStream api marshal stream st =
     (case st of (p, newStreams, k) \<Rightarrow>
        let p1 = (case pb_streams p (st_Slug stream) of
                    None \<Rightarrow> p
                  | Some stored \<Rightarrow> p\<lparr>pb_streams := (pb_streams p)(st_Slug stream \<mapsto> stored\<lparr>ss_ttl := pb_ttl p\<rparr>)\<rparr>);
            (err, k1) = publishStream api marshal stream k
        in if err \<noteq> None then (p1, newStreams, k1)
           else if pb_streams p (st_Slug stream) = None
             then (p1, newStreams @ [\<lparr>ss_st = stream, ss_ttl = pb_ttl p\<rparr>], k1)
           else (p1, newStreams, k1))"

definition addStream :: "storedStream \<Rightarrow> Publisher \<Rightarrow> Publisher" where
  "addStream s p = p\<lparr>pb_streams := (pb_streams p)(st_Slug (ss_st s) \<mapsto> s)\<rparr>"

definition processUpdate :: "'k kv_api \<Rightarrow> (stream_Stream \<Rightarrow> string + string) \<Rightarrow> stream_Stream list \<Rightarrow> Publisher \<times> 'k \<Rightarrow> Publisher \<times> 'k" where
  "processUpdate api marshal streams pk =
     (case pk of (p, k) \<Rightarrow>
        (case fold (processStream api marshal) streams (p, [], k) of
           (p1, newStreams, k1) \<Rightarrow> (fold addStream newStreams p1, k1)))"

definition expireStream :: "'k kv_api \<Rightarrow> string \<Rightarrow> Publisher \<times> 'k \<Rightarrow> Publisher \<times> 'k" where
  "expireStream api key pk =
     (case pk of (p, k) \<Rightarrow>
        (case pb_streams p key of
           None \<Rightarrow> (p, k)
         | Some stream \<Rightarrow>
             let stream1 = stream\<lparr>ss_ttl := ss_ttl stream - 1\<rparr>;
                 p1 = p\<lparr>pb_streams := (pb_streams p)(key \<mapsto> stream1)\<rparr>
             in if ss_ttl stream1 > 0 then (p1, k)
                else
                  (case unpublishStream api stream1 k of
                     (err, k1) \<Rightarrow>
                       if err \<noteq> None then (p1, k1)
                       else (p1\<lparr>pb_streams := (pb_streams p1)(key := None)\<rparr>, k1))))"

text \<open>A tick: the results of the scrapers, and an order on the stored streams.\<close>

definition scrapeResult :: "'k kv_api \<Rightarrow> (stream_Stream \<Rightarrow> string + string) \<Rightarrow> string + stream_Stream list \<Rightarrow> Publisher \<times> 'k \<Rightarrow> Publisher \<times> 'k" where
  "scrapeResult api marshal res pk = (case res of Inl _ \<Rightarrow> pk | Inr streams \<Rightarrow> processUpdate api marshal streams pk)"

definition Publisher_tick :: "'k kv_api \<Rightarrow> (stream_Stream \<Rightarrow> string + string) \<Rightarrow> (string + stream_Stream list) list \<Rightarrow> string list \<Rightarrow>
    Publisher \<times> 'k \<Rightarrow> Publisher \<times> 'k" where
  "Publisher_tick api marshal results order pk =
     fold (expireStream api) order (fold (scrapeResult api marshal) results pk)"

text \<open>The scrapers of a tick run one after the other between the updates, and the answers they get may
  change on the way: \<open>scrapes gets js scrapers\<close> takes one view of the network for each.\<close>

fun scrapes :: "(string \<Rightarrow> http_answer) list \<Rightarrow> source_json \<Rightarrow> scraper list \<Rightarrow> (string + stream_Stream list) list go" where
  "scrapes (get # gets) js (sc # scs) =
     go_bind (Scrape get js sc) (\<lambda>res. go_bind (scrapes gets js scs) (\<lambda>rest. Inr (res # rest)))"
| "scrapes gets js scs = Inr []"

section \<open>What the sources name\<close>

lemma mapStreams_eq:
  "mapStreams xs = (if None \<in> set xs then Inl NilPointer
     else Inr (map (\<lambda>x. let u = ic_URL (the x) in \<lparr>st_Format = ''matroska'', st_Source = u, st_Slug = base u, st_PublishedAt = 0\<rparr>) xs))"
  by (induction xs rule: mapStreams.induct) (auto simp: Let_def)

lemma mapSources_eq:
  "mapSources xs = (if None \<in> set xs then Inl NilPointer
     else Inr (map (\<lambda>x. \<lparr>st_Format = ''mpegts'', st_Source = sr_StreamURL (the x), st_Slug = sr_Name (the x), st_PublishedAt = 0\<rparr>) xs))"
  by (induction xs rule: mapSources.induct) auto

text \<open>A scrape panics exactly if the array that a source sends has a \<open>null\<close>.\<close>

lemma Scrape_panics_iff:
  "(\<exists>p. Scrape get js sc = Inl p) \<longleftrightarrow>
   (case sc of
      IcecastScraper c \<Rightarrow> (\<exists>data streams. get (sr_URL c @ ''/status-json.xsl'') = Body data
        \<and> icecast_parse js data = Inr streams \<and> None \<in> set streams)
    | SrtrelayScraper c \<Rightarrow> (\<exists>data streams. get (sr_URL c @ ''/streams'') = Body data
        \<and> js_srt js data = Inr streams \<and> None \<in> set streams))"
  by (cases sc) (auto simp: Scrape_def icecast_Scrape_def srt_Scrape_def srt_getStats_def mapStreams_eq mapSources_eq
      split: http_answer.splits sum.splits)

section \<open>What a scrape does to the stored streams\<close>

definition slugs :: "stream_Stream list \<Rightarrow> string set" where
  "slugs streams = st_Slug ` set streams"

definition renewed :: "int \<Rightarrow> string set \<Rightarrow> string \<Rightarrow> storedStream option \<Rightarrow> storedStream option" where
  "renewed ttl A key e = map_option (\<lambda>s. if key \<in> A then s\<lparr>ss_ttl := ttl\<rparr> else s) e"

lemma renewed_other [simp]: "key \<notin> A \<Longrightarrow> renewed ttl A key e = e"
  by (cases e) (simp_all add: renewed_def)

lemma processStream_fields:
  assumes "processStream api marshal s (p, news, k) = (p', news', k')"
  shows "pb_ttl p' = pb_ttl p" "pb_streams p' key = renewed (pb_ttl p) {st_Slug s} key (pb_streams p key)"
    "\<exists>err. publishStream api marshal s k = (err, k') \<and>
      news' = news @ (if err = None \<and> pb_streams p (st_Slug s) = None then [\<lparr>ss_st = s, ss_ttl = pb_ttl p\<rparr>] else [])"
proof -
  let ?p1 = "case pb_streams p (st_Slug s) of None \<Rightarrow> p
      | Some stored \<Rightarrow> p\<lparr>pb_streams := (pb_streams p)(st_Slug s \<mapsto> stored\<lparr>ss_ttl := pb_ttl p\<rparr>)\<rparr>"
  obtain err k1 where pub: "publishStream api marshal s k = (err, k1)" by fastforce
  have p': "p' = ?p1" and "k' = k1"
    and news: "news' = news @ (if err = None \<and> pb_streams p (st_Slug s) = None then [\<lparr>ss_st = s, ss_ttl = pb_ttl p\<rparr>] else [])"
    using assms pub by (auto simp: processStream_def Let_def split: if_splits)
  then show "pb_ttl p' = pb_ttl p" "\<exists>err. publishStream api marshal s k = (err, k') \<and>
      news' = news @ (if err = None \<and> pb_streams p (st_Slug s) = None then [\<lparr>ss_st = s, ss_ttl = pb_ttl p\<rparr>] else [])"
    using pub by (auto split: option.splits)
  show "pb_streams p' key = renewed (pb_ttl p) {st_Slug s} key (pb_streams p key)"
    unfolding p' by (cases "key = st_Slug s"; cases "pb_streams p (st_Slug s)") (simp_all add: renewed_def option.map_ident)
qed

lemma renewed_renewed: "renewed t B key (renewed t A key e) = renewed t (A \<union> B) key e"
  by (cases e) (auto simp: renewed_def)

lemma process_fold:
  assumes "fold (processStream api marshal) streams (p, news, k) = (p', news', k')"
  shows "pb_ttl p' = pb_ttl p \<and> (\<forall>key. pb_streams p' key = renewed (pb_ttl p) (slugs streams) key (pb_streams p key))
    \<and> (\<exists>ns. news' = news @ ns \<and> (\<forall>n \<in> set ns. st_Slug (ss_st n) \<in> slugs streams \<and> pb_streams p (st_Slug (ss_st n)) = None \<and> ss_ttl n = pb_ttl p))"
  using assms
proof (induction streams arbitrary: p news k)
  case Nil
  then show ?case by (simp add: slugs_def)
next
  case (Cons s streams)
  obtain p1 news1 k1 where one: "processStream api marshal s (p, news, k) = (p1, news1, k1)" by (metis prod_cases3)
  note f = processStream_fields [OF one]
  from Cons.prems one have "fold (processStream api marshal) streams (p1, news1, k1) = (p', news', k')" by simp
  from Cons.IH [OF this] obtain ns where rest: "pb_ttl p' = pb_ttl p1"
    "\<forall>key. pb_streams p' key = renewed (pb_ttl p1) (slugs streams) key (pb_streams p1 key)" "news' = news1 @ ns"
    "\<forall>n \<in> set ns. st_Slug (ss_st n) \<in> slugs streams \<and> pb_streams p1 (st_Slug (ss_st n)) = None \<and> ss_ttl n = pb_ttl p1" by blast
  have un: "{st_Slug s} \<union> slugs streams = slugs (s # streams)" by (simp add: slugs_def)
  have none: "pb_streams p1 key = None \<longleftrightarrow> pb_streams p key = None" for key by (simp add: f(2) renewed_def)
  have "pb_streams p' key = renewed (pb_ttl p) (slugs (s # streams)) key (pb_streams p key)" for key
    using rest(2) by (simp only: f(1,2) renewed_renewed un)
  moreover have "\<exists>ns. news' = news @ ns \<and> (\<forall>n \<in> set ns. st_Slug (ss_st n) \<in> slugs (s # streams)
      \<and> pb_streams p (st_Slug (ss_st n)) = None \<and> ss_ttl n = pb_ttl p)"
    using f(3) rest(3,4) f(1) un none by (auto simp: slugs_def)
  ultimately show ?case using rest(1) f(1) by simp
qed

lemma add_fold:
  "pb_ttl (fold addStream ns p) = pb_ttl p"
  "(\<forall>n \<in> set ns. st_Slug (ss_st n) \<noteq> key) \<Longrightarrow> pb_streams (fold addStream ns p) key = pb_streams p key"
  by (induction ns arbitrary: p) (auto simp: addStream_def)

lemma add_fold_in:
  "pb_streams (fold addStream ns p) key = pb_streams p key \<or>
   (\<exists>n \<in> set ns. st_Slug (ss_st n) = key \<and> pb_streams (fold addStream ns p) key = Some n)"
proof (induction ns arbitrary: p)
  case (Cons a ns)
  from Cons [of "addStream a p"] show ?case by (auto simp: addStream_def split: if_splits)
qed simp

lemma add_fold_present: "n \<in> set ns \<Longrightarrow> st_Slug (ss_st n) = key \<Longrightarrow> pb_streams (fold addStream ns p) key \<noteq> None"
proof (induction ns arbitrary: p)
  case (Cons a ns)
  show ?case
  proof (cases "n \<in> set ns")
    case True
    with Cons show ?thesis by simp
  next
    case False
    with Cons.prems have "pb_streams (addStream a p) key = Some a" by (auto simp: addStream_def)
    with add_fold_in [of ns "addStream a p" key] show ?thesis by auto
  qed
qed simp

text \<open>Every stream is stored under its slug.\<close>

definition stored_ok :: "Publisher \<Rightarrow> bool" where
  "stored_ok p \<longleftrightarrow> (\<forall>key s. pb_streams p key = Some s \<longrightarrow> st_Slug (ss_st s) = key)"

lemma processUpdate_ok:
  assumes "stored_ok p" "processUpdate api marshal streams (p, k) = (p', k')"
  shows "stored_ok p'" "pb_ttl p' = pb_ttl p" "key \<notin> slugs streams \<Longrightarrow> pb_streams p' key = pb_streams p key"
proof -
  obtain p1 ns k1 where f: "fold (processStream api marshal) streams (p, [], k) = (p1, ns, k1)" by (metis prod_cases3)
  then have p': "p' = fold addStream ns p1" using assms(2) by (simp add: processUpdate_def)
  note pf = process_fold [OF f]
  have "stored_ok p1" using assms(1) pf by (auto simp: stored_ok_def renewed_def)
  then show "stored_ok p'" unfolding p' stored_ok_def using add_fold_in by (metis option.inject)
  show "pb_ttl p' = pb_ttl p" using pf by (simp add: p' add_fold)
  show "pb_streams p' key = pb_streams p key" if "key \<notin> slugs streams"
    using that pf add_fold(2) [of ns key p1] unfolding p' by (cases "pb_streams p key") (auto simp: renewed_def)
qed

lemma scrapes_ok:
  assumes "stored_ok p" "fold (scrapeResult api marshal) results (p, k) = (p', k')"
  shows "stored_ok p' \<and> pb_ttl p' = pb_ttl p
    \<and> ((\<forall>streams. Inr streams \<in> set results \<longrightarrow> key \<notin> slugs streams) \<longrightarrow> pb_streams p' key = pb_streams p key)"
  using assms
proof (induction results arbitrary: p k)
  case (Cons r results)
  obtain p1 k1 where one: "scrapeResult api marshal r (p, k) = (p1, k1)" by fastforce
  have 1: "stored_ok p1" "pb_ttl p1 = pb_ttl p"
    "(\<forall>streams. r = Inr streams \<longrightarrow> key \<notin> slugs streams) \<longrightarrow> pb_streams p1 key = pb_streams p key"
    using one processUpdate_ok [OF Cons.prems(1)] Cons.prems(1) by (auto simp: scrapeResult_def split: sum.splits)
  from Cons.IH [OF 1(1)] Cons.prems(2) one 1(2,3) show ?case by auto
qed simp

section \<open>What the expiry does\<close>

definition deletes_work :: "'k kv_api \<Rightarrow> bool" where
  "deletes_work api \<longleftrightarrow> (\<forall>key k. fst (api_Delete api key k) = None)"

definition aged_stream :: "storedStream option \<Rightarrow> storedStream option" where
  "aged_stream e = Option.bind e (\<lambda>s. if ss_ttl s - 1 > 0 then Some (s\<lparr>ss_ttl := ss_ttl s - 1\<rparr>) else None)"

lemma expireStream_entry:
  assumes "deletes_work api" "expireStream api key (p, k) = (p', k')"
  shows "p' = p\<lparr>pb_streams := (pb_streams p)(key := aged_stream (pb_streams p key))\<rparr>"
  using assms
  by (auto simp: expireStream_def aged_stream_def deletes_work_def unpublishStream_def Let_def fun_upd_idem split: option.splits prod.splits if_splits)
     (metis fst_conv option.distinct(1))+

lemma expire_fold:
  assumes "deletes_work api" "distinct order" "fold (expireStream api) order (p, k) = (p', k')"
  shows "pb_ttl p' = pb_ttl p \<and> pb_streams p' key = (if key \<in> set order then aged_stream (pb_streams p key) else pb_streams p key)"
  using assms(2,3)
proof (induction order arbitrary: p k)
  case (Cons o1 order)
  obtain p1 k1 where one: "expireStream api o1 (p, k) = (p1, k1)" by fastforce
  with Cons expireStream_entry [OF assms(1) one] show ?case by auto
qed simp

section \<open>The store\<close>

text \<open>What the publisher relies on: a put that succeeds sets the key, a delete that succeeds removes it, and
  a failed one changes nothing. \<open>lookup\<close> reads the store.\<close>

definition kv_laws :: "'k kv_api \<Rightarrow> ('k \<Rightarrow> string \<rightharpoonup> string) \<Rightarrow> bool" where
  "kv_laws api lookup \<longleftrightarrow>
     (\<forall>key v k. lookup (snd (api_PutWithSession api key v k)) =
        (if fst (api_PutWithSession api key v k) = None then (lookup k)(key \<mapsto> v) else lookup k))
     \<and> (\<forall>key k. lookup (snd (api_Delete api key k)) =
        (if fst (api_Delete api key k) = None then (lookup k)(key := None) else lookup k))"

lemma expireStream_lookup:
  assumes "kv_laws api lookup" "expireStream api key (p, k) = (p', k')"
  shows "lookup k' = lookup k \<or> (\<exists>s. pb_streams p key = Some s \<and> lookup k' = (lookup k)(StreamPath (st_Slug (ss_st s)) := None))"
proof (cases "pb_streams p key")
  case (Some s)
  let ?d = "api_Delete api (StreamPath (st_Slug (ss_st s))) k"
  have "lookup (snd ?d) = lookup k \<or> lookup (snd ?d) = (lookup k)(StreamPath (st_Slug (ss_st s)) := None)"
    using assms(1) by (simp add: kv_laws_def)
  moreover have "k' = k \<or> k' = snd ?d"
    using assms(2) Some by (auto simp: expireStream_def unpublishStream_def Let_def split: prod.splits if_splits)
  ultimately show ?thesis using Some by auto
qed (use assms(2) in \<open>simp add: expireStream_def\<close>)

lemma expireStream_deletes:
  assumes "kv_laws api lookup" "deletes_work api" "pb_streams p key = Some s" "ss_ttl s \<le> 1"
    and "expireStream api key (p, k) = (p', k')"
  shows "lookup k' (StreamPath (st_Slug (ss_st s))) = None"
proof -
  have "k' = snd (api_Delete api (StreamPath (st_Slug (ss_st s))) k)"
    using assms(3-5) by (auto simp: expireStream_def unpublishStream_def Let_def split: prod.splits if_splits)
  with assms(1,2) show ?thesis by (simp add: kv_laws_def deletes_work_def)
qed

lemma expire_fold_lookup:
  assumes "kv_laws api lookup" "fold (expireStream api) order (p, k) = (p', k')" "lookup k key = None"
  shows "lookup k' key = None"
  using assms(2,3)
proof (induction order arbitrary: p k)
  case (Cons o1 order)
  obtain p1 k1 where one: "expireStream api o1 (p, k) = (p1, k1)" by fastforce
  have "lookup k1 key = None" using expireStream_lookup [OF assms(1) one] Cons.prems(2) by auto
  with Cons one show ?case by simp
qed simp

lemma expire_fold_deletes:
  assumes "kv_laws api lookup" "deletes_work api" "distinct order" "slug \<in> set order"
    and "pb_streams p slug = Some s" "ss_ttl s \<le> 1" "st_Slug (ss_st s) = slug" "fold (expireStream api) order (p, k) = (p', k')"
  shows "lookup k' (StreamPath slug) = None"
  using assms(3-5,8)
proof (induction order arbitrary: p k)
  case (Cons o1 order)
  obtain p1 k1 where one: "expireStream api o1 (p, k) = (p1, k1)" by fastforce
  show ?case
  proof (cases "o1 = slug")
    case True
    then have "lookup k1 (StreamPath slug) = None"
      using expireStream_deletes [OF assms(1,2) _ assms(6), of p o1 k p1 k1] one Cons.prems(3) assms(7) by simp
    with expire_fold_lookup [OF assms(1)] Cons.prems(4) one show ?thesis by simp
  next
    case False
    with expireStream_entry [OF assms(2) one] Cons.prems one show ?thesis by (intro Cons.IH [of p1 k1]) auto
  qed
qed simp

section \<open>A stream that no source names runs down\<close>

type_synonym pub_tick = "(string + stream_Stream list) list \<times> string list"

definition silent :: "'k kv_api \<Rightarrow> (stream_Stream \<Rightarrow> string + string) \<Rightarrow> string \<Rightarrow> pub_tick \<Rightarrow> Publisher \<times> 'k \<Rightarrow> bool" where
  "silent api marshal slug t s \<longleftrightarrow> deletes_work api
     \<and> (\<forall>streams. Inr streams \<in> set (fst t) \<longrightarrow> slug \<notin> slugs streams)
     \<and> range_order (pb_streams (fst (fold (scrapeResult api marshal) (fst t) s))) (snd t)"

lemma silent_tick_parts:
  assumes "silent api marshal slug t s" "stored_ok (fst s)"
  obtains p1 k1 p2 k2 where "Publisher_tick api marshal (fst t) (snd t) s = (p2, k2)" "fold (expireStream api) (snd t) (p1, k1) = (p2, k2)"
    "stored_ok p1" "pb_streams p1 slug = pb_streams (fst s) slug" "range_order (pb_streams p1) (snd t)"
proof -
  obtain p1 k1 where 1: "fold (scrapeResult api marshal) (fst t) (fst s, snd s) = (p1, k1)" by fastforce
  obtain p2 k2 where 2: "fold (expireStream api) (snd t) (p1, k1) = (p2, k2)" by fastforce
  have "stored_ok p1" "pb_streams p1 slug = pb_streams (fst s) slug"
    using scrapes_ok [OF _ 1, of slug] assms by (auto simp: silent_def)
  with that 1 2 assms show thesis by (auto simp: Publisher_tick_def silent_def)
qed

lemma silent_tick_entry:
  assumes "silent api marshal slug t s" "stored_ok (fst s)"
  shows "pb_streams (fst (Publisher_tick api marshal (fst t) (snd t) s)) slug = aged_stream (pb_streams (fst s) slug)"
proof -
  from assms obtain p1 k1 p2 k2 where t: "Publisher_tick api marshal (fst t) (snd t) s = (p2, k2)"
    "fold (expireStream api) (snd t) (p1, k1) = (p2, k2)" "pb_streams p1 slug = pb_streams (fst s) slug" "range_order (pb_streams p1) (snd t)"
    by (rule silent_tick_parts) blast
  have "pb_streams p2 slug = (if slug \<in> set (snd t) then aged_stream (pb_streams p1 slug) else pb_streams p1 slug)"
    using expire_fold [OF _ _ t(2)] assms t(4) by (auto simp: silent_def range_order_def)
  with t show ?thesis by (auto simp: range_order_def aged_stream_def dom_def split: if_splits)
qed

interpretation pub_ttl: ttl_store "\<lambda>s (u :: unit). map_option ss_ttl (pb_streams (fst s) slug)"
  "\<lambda>t s. Publisher_tick api marshal (fst t) (snd t) s" "\<lambda>t s. silent api marshal slug t s \<and> stored_ok (fst s)" "\<lambda>_. 1" for api marshal slug
  by unfold_locales (auto simp: silent_tick_entry aged_stream_def split: option.splits)

fun Publisher_ticks :: "'k kv_api \<Rightarrow> (stream_Stream \<Rightarrow> string + string) \<Rightarrow> pub_tick list \<Rightarrow> Publisher \<times> 'k \<Rightarrow> Publisher \<times> 'k" where
  "Publisher_ticks api marshal [] s = s"
| "Publisher_ticks api marshal (t # ts) s = Publisher_ticks api marshal ts (Publisher_tick api marshal (fst t) (snd t) s)"

fun silent_ticks :: "'k kv_api \<Rightarrow> (stream_Stream \<Rightarrow> string + string) \<Rightarrow> string \<Rightarrow> pub_tick list \<Rightarrow> Publisher \<times> 'k \<Rightarrow> bool" where
  "silent_ticks api marshal slug [] s \<longleftrightarrow> True"
| "silent_ticks api marshal slug (t # ts) s \<longleftrightarrow>
     silent api marshal slug t s \<and> silent_ticks api marshal slug ts (Publisher_tick api marshal (fst t) (snd t) s)"

lemma expireStream_ok: "stored_ok p \<Longrightarrow> expireStream api key (p, k) = (p', k') \<Longrightarrow> stored_ok p'"
  by (auto simp: expireStream_def stored_ok_def Let_def split: option.splits prod.splits if_splits)

lemma tick_stored_ok:
  assumes "stored_ok (fst s)"
  shows "stored_ok (fst (Publisher_tick api marshal results order s)) \<and> pb_ttl (fst (Publisher_tick api marshal results order s)) = pb_ttl (fst s)"
proof -
  have ttl: "pb_ttl p' = pb_ttl p" if "expireStream api key (p, k) = (p', k')" for p k p' k' key
    using that by (auto simp: expireStream_def Let_def split: option.splits prod.splits if_splits)
  have expire: "stored_ok (fst (fold (expireStream api) order pk)) \<and> pb_ttl (fst (fold (expireStream api) order pk)) = pb_ttl (fst pk)"
    if "stored_ok (fst pk)" for pk
    using that
  proof (induction order arbitrary: pk)
    case (Cons o1 order)
    obtain p k p1 k1 where one: "pk = (p, k)" "expireStream api o1 (p, k) = (p1, k1)" by (metis surj_pair)
    with Cons expireStream_ok [OF _ one(2)] ttl [OF one(2)] show ?case by simp
  qed simp
  obtain p1 k1 where "fold (scrapeResult api marshal) results (fst s, snd s) = (p1, k1)" by fastforce
  with scrapes_ok [OF assms this] expire [of "(p1, k1)"] show ?thesis by (simp add: Publisher_tick_def)
qed

lemma ticks_stored_ok:
  "stored_ok (fst s) \<Longrightarrow> stored_ok (fst (Publisher_ticks api marshal ts s)) \<and> pb_ttl (fst (Publisher_ticks api marshal ts s)) = pb_ttl (fst s)"
  by (induction ts arbitrary: s) (simp_all add: tick_stored_ok)

lemma pub_ttl_ticks:
  "pub_ttl.ticks api marshal ts s = Publisher_ticks api marshal ts s"
  "stored_ok (fst s) \<Longrightarrow> silent_ticks api marshal slug ts s \<Longrightarrow> pub_ttl.ticks_ok api marshal slug ts s"
  by (induction ts arbitrary: s) (simp_all add: tick_stored_ok)

lemma Publisher_ticks_snoc:
  "Publisher_ticks api marshal (ts @ [t]) s = Publisher_tick api marshal (fst t) (snd t) (Publisher_ticks api marshal ts s)"
  "silent_ticks api marshal slug (ts @ [t]) s \<longleftrightarrow> silent_ticks api marshal slug ts s \<and> silent api marshal slug t (Publisher_ticks api marshal ts s)"
  by (induction ts arbitrary: s) simp_all

lemma silent_tick_deletes:
  assumes "kv_laws api lookup" "silent api marshal slug t s" "stored_ok (fst s)" "map_option ss_ttl (pb_streams (fst s) slug) = Some n" "n \<le> 1"
  shows "lookup (snd (Publisher_tick api marshal (fst t) (snd t) s)) (StreamPath slug) = None"
proof -
  from assms(2,3) obtain p1 k1 p2 k2 where t: "Publisher_tick api marshal (fst t) (snd t) s = (p2, k2)"
    "fold (expireStream api) (snd t) (p1, k1) = (p2, k2)" "stored_ok p1" "pb_streams p1 slug = pb_streams (fst s) slug"
    "range_order (pb_streams p1) (snd t)" by (rule silent_tick_parts)
  from assms(4) t(4) obtain st where st: "pb_streams p1 slug = Some st" "ss_ttl st = n" by auto
  have d: "distinct (snd t)" "slug \<in> set (snd t)" using t(5) st(1) by (auto simp: range_order_def)
  have "st_Slug (ss_st st) = slug" using t(3) st(1) by (simp add: stored_ok_def)
  then have "lookup k2 (StreamPath slug) = None"
    using expire_fold_deletes [OF assms(1) _ d st(1) _ _ t(2)] assms(2,5) st(2) by (simp add: silent_def)
  with t(1) show ?thesis by simp
qed

section \<open>A stream that a source names is published\<close>

definition puts_work :: "'k kv_api \<Rightarrow> bool" where
  "puts_work api \<longleftrightarrow> (\<forall>key v k. fst (api_PutWithSession api key v k) = None)"

lemma StreamPath_inj: "plain_elem a \<Longrightarrow> plain_elem b \<Longrightarrow> StreamPath a = StreamPath b \<longleftrightarrow> a = b"
  using key_parts(1) by (metis list.inject)

lemma publishStream_lookup:
  assumes "kv_laws api lookup" "puts_work api" "marshal s = Inr v" "publishStream api marshal s k = (err, k')"
  shows "err = None" "lookup k' = (lookup k)(StreamPath (st_Slug s) \<mapsto> v)"
  using assms by (auto simp: publishStream_def kv_laws_def puts_work_def split: prod.splits) (metis fst_conv snd_conv)+

lemma process_fold_publishes:
  assumes "kv_laws api lookup" "puts_work api" "list_all (\<lambda>s. plain_elem (st_Slug s) \<and> (\<exists>v. marshal s = Inr v)) streams"
    and "fold (processStream api marshal) streams (p, news, k) = (p', news', k')"
  shows "(\<forall>key. key \<notin> StreamPath ` slugs streams \<longrightarrow> lookup k' key = lookup k key)
    \<and> (\<forall>slug \<in> slugs streams. (\<exists>s \<in> set streams. \<exists>v. st_Slug s = slug \<and> marshal s = Inr v \<and> lookup k' (StreamPath slug) = Some v)
         \<and> (pb_streams p slug = None \<longrightarrow> (\<exists>n \<in> set news'. st_Slug (ss_st n) = slug)))
    \<and> set news \<subseteq> set news'"
  using assms(3,4)
proof (induction streams arbitrary: p news k)
  case Nil
  then show ?case by (simp add: slugs_def)
next
  case (Cons s streams)
  obtain p1 news1 k1 where one: "processStream api marshal s (p, news, k) = (p1, news1, k1)" by (metis prod_cases3)
  obtain v where v: "marshal s = Inr v" "plain_elem (st_Slug s)" using Cons.prems(1) by auto
  obtain err where pub: "publishStream api marshal s k = (err, k1)"
    and news1: "news1 = news @ (if err = None \<and> pb_streams p (st_Slug s) = None then [\<lparr>ss_st = s, ss_ttl = pb_ttl p\<rparr>] else [])"
    using processStream_fields(3) [OF one] by blast
  note l = publishStream_lookup [OF assms(1,2) v(1) pub]
  have none: "pb_streams p1 key = None \<longleftrightarrow> pb_streams p key = None" for key by (simp add: processStream_fields(2) [OF one] renewed_def)
  have "fold (processStream api marshal) streams (p1, news1, k1) = (p', news', k')" using Cons.prems(2) one by simp
  moreover have all: "list_all (\<lambda>s. plain_elem (st_Slug s) \<and> (\<exists>v. marshal s = Inr v)) streams" using Cons.prems(1) by simp
  ultimately have IH: "\<And>key. key \<notin> StreamPath ` slugs streams \<Longrightarrow> lookup k' key = lookup k1 key"
    "\<And>slug. slug \<in> slugs streams \<Longrightarrow> \<exists>s \<in> set streams. \<exists>v. st_Slug s = slug \<and> marshal s = Inr v \<and> lookup k' (StreamPath slug) = Some v"
    "\<And>slug. slug \<in> slugs streams \<Longrightarrow> pb_streams p1 slug = None \<Longrightarrow> \<exists>n \<in> set news'. st_Slug (ss_st n) = slug"
    "set news1 \<subseteq> set news'"
    using Cons.IH by blast+
  have sl: "slugs (s # streams) = insert (st_Slug s) (slugs streams)" by (simp add: slugs_def)
  have first: "\<exists>x \<in> set (s # streams). \<exists>v. st_Slug x = st_Slug s \<and> marshal x = Inr v \<and> lookup k' (StreamPath (st_Slug s)) = Some v"
  proof (cases "st_Slug s \<in> slugs streams")
    case True
    from IH(2) [OF this] show ?thesis by auto
  next
    case False
    have "StreamPath (st_Slug s) \<noteq> StreamPath slug" if "slug \<in> slugs streams" for slug
    proof -
      have "plain_elem slug" using that all by (auto simp: slugs_def list_all_iff)
      moreover have "slug \<noteq> st_Slug s" using that False by blast
      ultimately show ?thesis using StreamPath_inj [OF v(2)] by blast
    qed
    then have "lookup k' (StreamPath (st_Slug s)) = Some v" using IH(1) [of "StreamPath (st_Slug s)"] l(2) by auto
    with v(1) show ?thesis by auto
  qed
  have named: "\<exists>x \<in> set (s # streams). \<exists>v. st_Slug x = slug \<and> marshal x = Inr v \<and> lookup k' (StreamPath slug) = Some v"
    if "slug \<in> slugs (s # streams)" for slug
    using that first IH(2) [of slug] unfolding sl by auto
  have kept: "lookup k' key = lookup k key" if "key \<notin> StreamPath ` slugs (s # streams)" for key
    using IH(1) [of key] that l(2) unfolding sl by auto
  have new: "\<exists>n \<in> set news'. st_Slug (ss_st n) = slug" if "slug \<in> slugs (s # streams)" "pb_streams p slug = None" for slug
  proof (cases "slug \<in> slugs streams")
    case True
    with IH(3) none that(2) show ?thesis by blast
  next
    case False
    then have "slug = st_Slug s" using that(1) sl by simp
    then have "\<lparr>ss_st = s, ss_ttl = pb_ttl p\<rparr> \<in> set news'" using that(2) news1 l(1) IH(4) by auto
    with \<open>slug = st_Slug s\<close> show ?thesis by force
  qed
  have "set news \<subseteq> set news'" using news1 IH(4) by auto
  with named kept new show ?case by blast
qed

lemma processUpdate_stored:
  assumes "kv_laws api lookup" "puts_work api" "list_all (\<lambda>s. plain_elem (st_Slug s) \<and> (\<exists>v. marshal s = Inr v)) streams"
    and "processUpdate api marshal streams (p, k) = (p', k')" "slug \<in> slugs streams"
  shows "\<exists>e. pb_streams p' slug = Some e \<and> ss_ttl e = pb_ttl p"
proof -
  obtain p1 ns k1 where f: "fold (processStream api marshal) streams (p, [], k) = (p1, ns, k1)" by (metis prod_cases3)
  then have p': "p' = fold addStream ns p1" using assms(4) by (simp add: processUpdate_def)
  have ns: "\<forall>n \<in> set ns. pb_streams p (st_Slug (ss_st n)) = None \<and> ss_ttl n = pb_ttl p"
    and p1: "pb_streams p1 slug = renewed (pb_ttl p) (slugs streams) slug (pb_streams p slug)" using process_fold [OF f] by auto
  show ?thesis
  proof (cases "pb_streams p slug")
    case None
    then obtain n where n: "n \<in> set ns" "st_Slug (ss_st n) = slug"
      using process_fold_publishes [OF assms(1-3) f] assms(5) by blast
    have "pb_streams p' slug \<noteq> None" unfolding p' using n by (rule add_fold_present)
    moreover have "pb_streams p1 slug = None" using p1 None by (simp add: renewed_def)
    ultimately show ?thesis using add_fold_in [of ns p1 slug] ns unfolding p' by auto
  next
    case (Some e)
    then have "\<forall>n \<in> set ns. st_Slug (ss_st n) \<noteq> slug" using ns by auto
    then show ?thesis using add_fold(2) [of ns slug p1] p1 Some assms(5) unfolding p' by (simp add: renewed_def)
  qed
qed

lemma processUpdate_lookup:
  assumes "kv_laws api lookup" "puts_work api" "list_all (\<lambda>s. plain_elem (st_Slug s) \<and> (\<exists>v. marshal s = Inr v)) streams"
    and "processUpdate api marshal streams (p, k) = (p', k')"
  shows "(\<forall>slug \<in> slugs streams. \<exists>s \<in> set streams. \<exists>v. st_Slug s = slug \<and> marshal s = Inr v \<and> lookup k' (StreamPath slug) = Some v)
    \<and> (\<forall>key. key \<notin> StreamPath ` slugs streams \<longrightarrow> lookup k' key = lookup k key)"
proof -
  obtain p1 ns k1 where f: "fold (processStream api marshal) streams (p, [], k) = (p1, ns, k1)" by (metis prod_cases3)
  then have "k' = k1" using assms(4) by (simp add: processUpdate_def)
  with process_fold_publishes [OF assms(1-3) f] show ?thesis by blast
qed

section \<open>A whole tick\<close>

definition named :: "(string + stream_Stream list) list \<Rightarrow> stream_Stream set" where
  "named results = {s. \<exists>streams. Inr streams \<in> set results \<and> s \<in> set streams}"

lemma named_simps [simp]:
  "named [] = {}" "named (Inl e # results) = named results" "named (Inr streams # results) = set streams \<union> named results"
  by (auto simp: named_def)

definition encodable :: "(stream_Stream \<Rightarrow> string + string) \<Rightarrow> stream_Stream \<Rightarrow> bool" where
  "encodable marshal s \<longleftrightarrow> plain_elem (st_Slug s) \<and> (\<exists>v. marshal s = Inr v)"

definition plain_stored :: "Publisher \<Rightarrow> bool" where
  "plain_stored p \<longleftrightarrow> (\<forall>key. pb_streams p key \<noteq> None \<longrightarrow> plain_elem key)"

lemma scrapes_lookup_other:
  assumes "kv_laws api lookup" "puts_work api" "\<forall>s \<in> named results. encodable marshal s"
    and "fold (scrapeResult api marshal) results (p, k) = (p', k')" "plain_elem slug" "slug \<notin> st_Slug ` named results"
  shows "lookup k' (StreamPath slug) = lookup k (StreamPath slug)"
  using assms(3,4,6)
proof (induction results arbitrary: p k)
  case (Cons r results)
  show ?case
  proof (cases r)
    case (Inr streams)
    obtain p1 k1 where one: "processUpdate api marshal streams (p, k) = (p1, k1)" by fastforce
    have good: "list_all (\<lambda>s. plain_elem (st_Slug s) \<and> (\<exists>v. marshal s = Inr v)) streams"
      using Cons.prems(1) Inr by (auto simp: list_all_iff encodable_def)
    have "StreamPath slug \<notin> StreamPath ` slugs streams"
      using Cons.prems(3) Inr good StreamPath_inj [OF assms(5)] by (auto simp: slugs_def list_all_iff)
    with processUpdate_lookup [OF assms(1,2) good one] have "lookup k1 (StreamPath slug) = lookup k (StreamPath slug)" by blast
    moreover have "slug \<notin> st_Slug ` named results" using Cons.prems(3) Inr by auto
    ultimately show ?thesis using Cons.IH [of p1 k1] Cons.prems(1,2) Inr one by (simp add: scrapeResult_def)
  qed (use Cons in \<open>simp add: scrapeResult_def\<close>)
qed simp

lemma scrapes_publish:
  assumes "kv_laws api lookup" "puts_work api" "\<forall>s \<in> named results. encodable marshal s"
    and "fold (scrapeResult api marshal) results (p, k) = (p', k')" "slug \<in> st_Slug ` named results" "stored_ok p"
  shows "(\<exists>s \<in> named results. \<exists>v. st_Slug s = slug \<and> marshal s = Inr v \<and> lookup k' (StreamPath slug) = Some v)
    \<and> (\<exists>e. pb_streams p' slug = Some e \<and> ss_ttl e = pb_ttl p)"
  using assms(3-6)
proof (induction results arbitrary: p k)
  case (Cons r results)
  obtain p1 k1 where one: "scrapeResult api marshal r (p, k) = (p1, k1)" by fastforce
  have rest: "fold (scrapeResult api marshal) results (p1, k1) = (p', k')" using Cons.prems(2) one by simp
  have good: "\<forall>s \<in> named results. encodable marshal s" using Cons.prems(1) by (cases r) auto
  have p1: "stored_ok p1" "pb_ttl p1 = pb_ttl p"
    using one processUpdate_ok [OF Cons.prems(4)] Cons.prems(4) by (auto simp: scrapeResult_def split: sum.splits)
  show ?case
  proof (cases "slug \<in> st_Slug ` named results")
    case True
    from Cons.IH [OF good rest this p1(1)] p1(2) show ?thesis by (cases r) auto
  next
    case False
    then obtain streams where r: "r = Inr streams" "slug \<in> slugs streams" using Cons.prems(3) by (cases r) (auto simp: slugs_def)
    have all: "list_all (\<lambda>s. plain_elem (st_Slug s) \<and> (\<exists>v. marshal s = Inr v)) streams"
      using Cons.prems(1) r(1) by (auto simp: list_all_iff encodable_def)
    have up: "processUpdate api marshal streams (p, k) = (p1, k1)" using one r(1) by (simp add: scrapeResult_def)
    have "plain_elem slug" using all r(2) by (auto simp: list_all_iff slugs_def)
    from scrapes_lookup_other [OF assms(1,2) good rest this False]
    have lk: "lookup k' (StreamPath slug) = lookup k1 (StreamPath slug)" .
    have "\<forall>streams. Inr streams \<in> set results \<longrightarrow> slug \<notin> slugs streams" using False by (auto simp: named_def slugs_def)
    with scrapes_ok [OF p1(1) rest, of slug] have "pb_streams p' slug = pb_streams p1 slug" by blast
    moreover have "\<exists>s \<in> set streams. \<exists>v. st_Slug s = slug \<and> marshal s = Inr v \<and> lookup k1 (StreamPath slug) = Some v"
      using processUpdate_lookup [OF assms(1,2) all up] r(2) by blast
    ultimately show ?thesis using lk processUpdate_stored [OF assms(1,2) all up r(2)] r(1) by auto
  qed
qed simp

lemma expireStream_other:
  assumes "kv_laws api lookup" "expireStream api key (p, k) = (p', k')" "stored_ok p" "plain_stored p" "plain_elem slug"
    and "key = slug \<longrightarrow> (\<exists>e. pb_streams p slug = Some e \<and> 1 < ss_ttl e)"
  shows "lookup k' (StreamPath slug) = lookup k (StreamPath slug)" "stored_ok p'" "plain_stored p'"
    and "key \<noteq> slug \<Longrightarrow> pb_streams p' slug = pb_streams p slug"
proof -
  show "stored_ok p'" using expireStream_ok [OF assms(3,2)] .
  show "plain_stored p'" "key \<noteq> slug \<Longrightarrow> pb_streams p' slug = pb_streams p slug"
    using assms(2,4) by (auto simp: plain_stored_def expireStream_def Let_def split: option.splits prod.splits if_splits)
  show "lookup k' (StreamPath slug) = lookup k (StreamPath slug)"
  proof (cases "key = slug")
    case True
    with assms(2,6) show ?thesis by (auto simp: expireStream_def Let_def)
  next
    case False
    from expireStream_lookup [OF assms(1,2)] show ?thesis
    proof
      assume "\<exists>s. pb_streams p key = Some s \<and> lookup k' = (lookup k)(StreamPath (st_Slug (ss_st s)) := None)"
      then obtain s where s: "pb_streams p key = Some s" "lookup k' = (lookup k)(StreamPath (st_Slug (ss_st s)) := None)" by blast
      have "plain_elem key" "st_Slug (ss_st s) = key" using s(1) assms(3,4) by (simp_all add: plain_stored_def stored_ok_def)
      with False s(2) StreamPath_inj [OF assms(5)] show ?thesis by fastforce
    qed simp
  qed
qed

lemma expire_fold_alive:
  assumes "kv_laws api lookup" "fold (expireStream api) order (p, k) = (p', k')" "stored_ok p" "plain_stored p"
    and "plain_elem slug" "distinct order" "slug \<in> set order \<longrightarrow> (\<exists>e. pb_streams p slug = Some e \<and> 1 < ss_ttl e)"
  shows "lookup k' (StreamPath slug) = lookup k (StreamPath slug) \<and> plain_stored p'"
  using assms(2-4,6,7)
proof (induction order arbitrary: p k)
  case (Cons o1 order)
  obtain p1 k1 where one: "expireStream api o1 (p, k) = (p1, k1)" by fastforce
  have "o1 = slug \<longrightarrow> (\<exists>e. pb_streams p slug = Some e \<and> 1 < ss_ttl e)" using Cons.prems(5) by auto
  note o = expireStream_other [OF assms(1) one Cons.prems(2,3) assms(5) this]
  have "slug \<in> set order \<longrightarrow> (\<exists>e. pb_streams p1 slug = Some e \<and> 1 < ss_ttl e)"
    using Cons.prems(4,5) o(4) by (cases "o1 = slug") auto
  with Cons.IH [OF _ o(2,3)] Cons.prems one o(1) show ?case by simp
qed simp

text \<open>The ticks of a publisher: the streams named are encodable, and a tick ranges over the stored streams.\<close>

fun good_ticks :: "'k kv_api \<Rightarrow> (stream_Stream \<Rightarrow> string + string) \<Rightarrow> pub_tick list \<Rightarrow> Publisher \<times> 'k \<Rightarrow> bool" where
  "good_ticks api marshal [] s \<longleftrightarrow> True"
| "good_ticks api marshal (t # ts) s \<longleftrightarrow>
     (\<forall>x \<in> named (fst t). encodable marshal x)
     \<and> range_order (pb_streams (fst (fold (scrapeResult api marshal) (fst t) s))) (snd t)
     \<and> good_ticks api marshal ts (Publisher_tick api marshal (fst t) (snd t) s)"

lemma scrapes_plain:
  assumes "plain_stored p" "\<forall>s \<in> named results. encodable marshal s" "fold (scrapeResult api marshal) results (p, k) = (p', k')"
    and "stored_ok p"
  shows "plain_stored p'"
  unfolding plain_stored_def
proof (intro allI impI)
  fix key
  assume some: "pb_streams p' key \<noteq> None"
  show "plain_elem key"
  proof (cases "key \<in> st_Slug ` named results")
    case True
    with assms(2) show ?thesis by (auto simp: encodable_def)
  next
    case False
    then have "pb_streams p' key = pb_streams p key" using scrapes_ok [OF assms(4,3), of key] by (auto simp: named_def slugs_def)
    with some assms(1) show ?thesis by (simp add: plain_stored_def)
  qed
qed

lemma good_tick:
  assumes "kv_laws api lookup" "puts_work api" "good_ticks api marshal [t] s" "stored_ok (fst s)" "plain_stored (fst s)"
  shows "plain_stored (fst (Publisher_tick api marshal (fst t) (snd t) s))"
    and "slug \<in> st_Slug ` named (fst t) \<Longrightarrow> 1 < pb_ttl (fst s) \<Longrightarrow>
      \<exists>x \<in> named (fst t). \<exists>v. st_Slug x = slug \<and> marshal x = Inr v
        \<and> lookup (snd (Publisher_tick api marshal (fst t) (snd t) s)) (StreamPath slug) = Some v"
proof -
  obtain p1 k1 where 1: "fold (scrapeResult api marshal) (fst t) (fst s, snd s) = (p1, k1)" by fastforce
  obtain p2 k2 where 2: "fold (expireStream api) (snd t) (p1, k1) = (p2, k2)" by fastforce
  have tick: "Publisher_tick api marshal (fst t) (snd t) s = (p2, k2)" using 1 2 by (simp add: Publisher_tick_def)
  have enc: "\<forall>x \<in> named (fst t). encodable marshal x" and ord: "distinct (snd t)" "set (snd t) = dom (pb_streams p1)"
    using assms(3) 1 by (simp_all add: range_order_def)
  have p1: "stored_ok p1" "plain_stored p1" using scrapes_ok [OF assms(4) 1] scrapes_plain [OF assms(5) enc 1 assms(4)] by auto
  have sub: "pb_streams p' key \<noteq> None \<Longrightarrow> pb_streams p key \<noteq> None" if "fold (expireStream api) os (p, k) = (p', k')" for os p k p' k' key
    using that
  proof (induction os arbitrary: p k)
    case (Cons o1 os)
    obtain q l where one: "expireStream api o1 (p, k) = (q, l)" by fastforce
    then have "pb_streams q key \<noteq> None \<Longrightarrow> pb_streams p key \<noteq> None"
      by (auto simp: expireStream_def Let_def split: option.splits prod.splits if_splits)
    with Cons one show ?case by auto
  qed simp
  show "plain_stored (fst (Publisher_tick api marshal (fst t) (snd t) s))"
    using p1(2) sub [OF 2] tick by (simp add: plain_stored_def)
  assume slug: "slug \<in> st_Slug ` named (fst t)" "1 < pb_ttl (fst s)"
  from scrapes_publish [OF assms(1,2) enc 1 slug(1) assms(4)] obtain x v e
    where x: "x \<in> named (fst t)" "st_Slug x = slug" "marshal x = Inr v" "lookup k1 (StreamPath slug) = Some v"
      "pb_streams p1 slug = Some e" "ss_ttl e = pb_ttl (fst s)" by blast
  have "plain_elem slug" using x(1,2) enc by (auto simp: encodable_def)
  with expire_fold_alive [OF assms(1) 2 p1 _ ord(1)] x(5,6) slug(2) have "lookup k2 (StreamPath slug) = Some v" using x(4) by simp
  with x(1-3) tick show "\<exists>x \<in> named (fst t). \<exists>v. st_Slug x = slug \<and> marshal x = Inr v
      \<and> lookup (snd (Publisher_tick api marshal (fst t) (snd t) s)) (StreamPath slug) = Some v" by auto
qed

lemma good_ticks_named: "good_ticks api marshal (ts @ [t]) s \<Longrightarrow> x \<in> named (fst t) \<Longrightarrow> plain_elem (st_Slug x)"
proof (induction ts arbitrary: s)
  case (Cons u ts)
  then show ?case by (metis append_Cons good_ticks.simps(2))
qed (auto simp: encodable_def)

text \<open>After any ticks that begin with a new publisher, a stream that the last one named is in the store.\<close>

lemma good_ticks_publish:
  assumes "kv_laws api lookup" "puts_work api" "stored_ok (fst s)" "plain_stored (fst s)" "1 < pb_ttl (fst s)"
    and "good_ticks api marshal (ts @ [t]) s" "slug \<in> st_Slug ` named (fst t)"
  shows "\<exists>x \<in> named (fst t). \<exists>v. st_Slug x = slug \<and> marshal x = Inr v
    \<and> lookup (snd (Publisher_ticks api marshal (ts @ [t]) s)) (StreamPath slug) = Some v"
  using assms(3-6)
proof (induction ts arbitrary: s)
  case Nil
  then show ?case using good_tick(2) [OF assms(1,2) _ Nil(1,2) assms(7) Nil(3)] by simp
next
  case (Cons u ts)
  let ?s = "Publisher_tick api marshal (fst u) (snd u) s"
  have "stored_ok (fst ?s)" "pb_ttl (fst ?s) = pb_ttl (fst s)" using tick_stored_ok [OF Cons.prems(1)] by simp_all
  moreover have "plain_stored (fst ?s)" using good_tick(1) [OF assms(1,2) _ Cons.prems(1,2)] Cons.prems(4) by simp
  ultimately show ?case using Cons.IH [of ?s] Cons.prems(3,4) by simp
qed

section \<open>Properties\<close>

text \<open>What a source names is in the store afterwards: if the streams of a scrape have plain names and can
  be encoded, then each name is stored with one of these streams, its lifetime starts afresh, and no
  other key of the store changes.\<close>

lemma named_streams_published:
  assumes "kv_laws api lookup" "puts_work api" "list_all (\<lambda>s. plain_elem (st_Slug s) \<and> (\<exists>v. marshal s = Inr v)) streams"
    and "processUpdate api marshal streams (p, k) = (p', k')"
  shows "(\<forall>slug \<in> slugs streams. (\<exists>s \<in> set streams. \<exists>v. st_Slug s = slug \<and> marshal s = Inr v \<and> lookup k' (StreamPath slug) = Some v)
        \<and> (\<exists>e. pb_streams p' slug = Some e \<and> ss_ttl e = pb_ttl p))
    \<and> (\<forall>key. key \<notin> StreamPath ` slugs streams \<longrightarrow> lookup k' key = lookup k key)"
  using processUpdate_lookup [OF assms] processUpdate_stored [OF assms] by blast

definition demo_kv :: "(string \<rightharpoonup> string) kv_api" where
  "demo_kv = \<lparr>api_PutWithSession = \<lambda>key val k. (None, k(key \<mapsto> val)), api_Delete = \<lambda>key k. (None, k(key := None))\<rparr>"

definition demo_stream :: "string \<Rightarrow> stream_Stream" where
  "demo_stream slug = \<lparr>st_Format = ''matroska'', st_Source = ''src'', st_Slug = slug, st_PublishedAt = 0\<rparr>"

lemma demo_kv_laws: "kv_laws demo_kv (\<lambda>k. k)" "puts_work demo_kv" "deletes_work demo_kv"
  by (simp_all add: kv_laws_def puts_work_def deletes_work_def demo_kv_def)

text \<open>C34. A stream that no source names any more runs down: it stays published as long as its lifetime,
  counted in ticks, is not used up, is gone from then on, and the tick that forgets it has deleted its
  key from the store.\<close>

theorem unnamed_stream_expires:
  assumes "Publisher_New conf = Inr (scrapers, first)" "s = Publisher_ticks api marshal before (first, k)"
    and "silent_ticks api marshal slug ts s" "pb_streams (fst s) slug = Some st" "kv_laws api lookup"
  shows "(int (length ts) < ss_ttl st \<longrightarrow>
        map_option ss_ttl (pb_streams (fst (Publisher_ticks api marshal ts s)) slug) = Some (ss_ttl st - int (length ts)))
    \<and> (ts \<noteq> [] \<and> ss_ttl st \<le> int (length ts) \<longrightarrow> pb_streams (fst (Publisher_ticks api marshal ts s)) slug = None)
    \<and> (ts \<noteq> [] \<and> ss_ttl st = int (length ts) \<longrightarrow> lookup (snd (Publisher_ticks api marshal ts s)) (StreamPath slug) = None)"
proof -
  have "stored_ok first" using assms(1) by (auto simp: Publisher_New_def stored_ok_def split: if_splits)
  then have ok: "stored_ok (fst s)" using assms(2) ticks_stored_ok [of "(first, k)"] by simp
  note ticks = pub_ttl_ticks(2) [OF ok]
  have alive: "map_option ss_ttl (pb_streams (fst (Publisher_ticks api marshal ts s)) slug) = Some (ss_ttl st - int (length ts))"
    if "silent_ticks api marshal slug ts s" "int (length ts) < ss_ttl st" for ts
    using pub_ttl.survives [of s slug "ss_ttl st" api marshal ts] ticks that assms(4) by (simp add: pub_ttl_ticks)
  have "pb_streams (fst (Publisher_ticks api marshal ts s)) slug = None" if "ts \<noteq> []" "ss_ttl st \<le> int (length ts)"
    using pub_ttl.expires [of s slug "ss_ttl st" api marshal ts] ticks [OF assms(3)] that assms(4) by (simp add: pub_ttl_ticks)
  moreover have "lookup (snd (Publisher_ticks api marshal ts s)) (StreamPath slug) = None" if "ts \<noteq> []" "ss_ttl st = int (length ts)"
  proof -
    from that(1) obtain us u where ts: "ts = us @ [u]" by (metis rev_exhaust)
    then have "silent_ticks api marshal slug us s" "silent api marshal slug u (Publisher_ticks api marshal us s)"
      using assms(3) by (simp_all add: Publisher_ticks_snoc)
    with silent_tick_deletes [OF assms(5) this(2) _ alive [OF this(1)]] ts that(2) ticks_stored_ok [OF ok] show ?thesis
      by (simp add: Publisher_ticks_snoc)
  qed
  ultimately show ?thesis using alive [OF assms(3)] by blast
qed

theorem unnamed_stream_expires_witness:
  "let s = Publisher_ticks demo_kv (\<lambda>s. Inr (st_Slug s)) [([Inr [demo_stream ''q1'']], [''q1''])] (\<lparr>pb_ttl = 2, pb_streams = Map.empty\<rparr>, Map.empty)
   in snd s (StreamPath ''q1'') = Some ''q1'' \<and> snd (Publisher_ticks demo_kv (\<lambda>s. Inr (st_Slug s)) [([Inl ''timeout''], [''q1''])] s) (StreamPath ''q1'') = None"
proof -
  let ?s = "Publisher_ticks demo_kv (\<lambda>s. Inr (st_Slug s)) [([Inr [demo_stream ''q1'']], [''q1''])] (\<lparr>pb_ttl = 2, pb_streams = Map.empty\<rparr>, Map.empty)"
  have new: "Publisher_New \<lparr>pf_Enable = True, pf_Sources = [], pf_Interval = 3, pf_Timeout = 6\<rparr> = Inr ([], \<lparr>pb_ttl = 2, pb_streams = Map.empty\<rparr>)"
    by (simp add: Publisher_New_def makeScrapers_def signed_divide_int_def)
  have "pb_streams (fst ?s) = [''q1'' \<mapsto> \<lparr>ss_st = demo_stream ''q1'', ss_ttl = 1\<rparr>]" and pub: "snd ?s (StreamPath ''q1'') = Some ''q1''"
    by (simp_all add: Publisher_tick_def scrapeResult_def processUpdate_def processStream_def publishStream_def addStream_def expireStream_def
        demo_kv_def demo_stream_def)
  then have "silent_ticks demo_kv (\<lambda>s. Inr (st_Slug s)) ''q1'' [([Inl ''timeout''], [''q1''])] ?s" "pb_streams (fst ?s) ''q1'' = Some \<lparr>ss_st = demo_stream ''q1'', ss_ttl = 1\<rparr>"
    by (simp_all add: silent_def demo_kv_laws scrapeResult_def range_order_def)
  from unnamed_stream_expires [OF new refl this demo_kv_laws(1)] pub show ?thesis by (simp add: Let_def)
qed

end
