(* ===== verification/WatchLoop.thy ===== *)
theory WatchLoop
  imports Client
begin

text \<open>
  A watch of the store and the loop of a service that waits for it.

  \<open>ConsulClient.Watch\<close> starts a goroutine in which Consul's library runs the plan and calls the handler for
  every snapshot; the handler sends on a channel without buffer, so it waits until the service has
  received. A second goroutine stops the plan when the context ends. Nobody ever closes the channel: a
  service whose plan has stopped waits for ever and is not told.

  A \<open>process\<close> is a watch together with the loop of a service. \<open>process_step\<close> has all that can happen to it:
  a snapshot is delivered, the loop receives, something else happens in the loop, the plan stops by
  itself, the context ends, and the loop notices that. The locale \<open>watch_loop\<close> shows for every service
  whose handler is a consumer of updates in the sense of theory \<open>Client\<close> that its loop keeps a copy of the store.
\<close>

section \<open>The goroutines of a watch\<close>

record watch =
  wt_cache :: watch_cache
  wt_sending :: "WatchUpdate list option"
  wt_running :: bool

text \<open>\<open>parseErr\<close> is what the library's \<open>watch.Parse\<close> returns.\<close>

definition Consul_Watch :: "string option \<Rightarrow> string + watch" where
  "Consul_Watch parseErr =
     (case parseErr of
        Some err \<Rightarrow> Inl err
      | None \<Rightarrow> Inr \<lparr>wt_cache = Map.empty, wt_sending = None, wt_running = True\<rparr>)"

definition plan_delivers :: "string list \<Rightarrow> plan_value \<Rightarrow> watch \<Rightarrow> watch" where
  "plan_delivers order val w =
     (case watchHandler order val (wt_cache w) of (us, cache) \<Rightarrow> w\<lparr>wt_cache := cache, wt_sending := us\<rparr>)"

definition plan_Stop :: "watch \<Rightarrow> watch" where
  "plan_Stop w = w\<lparr>wt_running := False\<rparr>"

section \<open>Processes\<close>

text \<open>A loop goes on, has returned, or has ended the program with a message.\<close>

datatype 's loop = Looping 's | Returned 's | Exited string

record 's process =
  pr_watch :: watch
  pr_loop :: "'s loop"
  pr_done :: bool
  pr_last :: "KVPair list"

text \<open>\<open>round msg s l\<close>: the loop in state \<open>s\<close> has received \<open>msg\<close>, nothing if the channel is closed, and goes
  on as \<open>l\<close>. \<open>other\<close> is what the loop does for other reasons, \<open>snaps\<close> are the snapshots the store can have.
  \<open>pr_last\<close> records the last snapshot delivered.\<close>

inductive process_step :: "(WatchUpdate list option \<Rightarrow> 's \<Rightarrow> 's loop \<Rightarrow> bool) \<Rightarrow> ('s \<Rightarrow> 's \<Rightarrow> bool) \<Rightarrow> (KVPair list \<Rightarrow> bool) \<Rightarrow>
    's process \<Rightarrow> 's process \<Rightarrow> bool" for round other snaps where
  deliver: "wt_running (pr_watch p) \<Longrightarrow> wt_sending (pr_watch p) = None \<Longrightarrow> range_order (wt_cache (pr_watch p)) order \<Longrightarrow> snaps pairs \<Longrightarrow>
    process_step round other snaps p (p\<lparr>pr_watch := plan_delivers order (AllPairs pairs) (pr_watch p), pr_last := pairs\<rparr>)"
| receive: "pr_loop p = Looping s \<Longrightarrow> wt_sending (pr_watch p) = Some us \<Longrightarrow> round (Some us) s l \<Longrightarrow>
    process_step round other snaps p (p\<lparr>pr_watch := (pr_watch p)\<lparr>wt_sending := None\<rparr>, pr_loop := l\<rparr>)"
| otherwise: "pr_loop p = Looping s \<Longrightarrow> other s s' \<Longrightarrow> process_step round other snaps p (p\<lparr>pr_loop := Looping s'\<rparr>)"
| plan_fails: "process_step round other snaps p (p\<lparr>pr_watch := plan_Stop (pr_watch p)\<rparr>)"
| context_ends: "process_step round other snaps p (p\<lparr>pr_done := True\<rparr>)"
| loop_ends: "pr_loop p = Looping s \<Longrightarrow> pr_done p \<Longrightarrow> process_step round other snaps p (p\<lparr>pr_loop := Returned s\<rparr>)"

inductive process_reach :: "(WatchUpdate list option \<Rightarrow> 's \<Rightarrow> 's loop \<Rightarrow> bool) \<Rightarrow> ('s \<Rightarrow> 's \<Rightarrow> bool) \<Rightarrow> (KVPair list \<Rightarrow> bool) \<Rightarrow>
    's process \<Rightarrow> 's process \<Rightarrow> bool" for round other snaps first where
  here: "process_reach round other snaps first first"
| step: "process_reach round other snaps first p \<Longrightarrow> process_step round other snaps p p' \<Longrightarrow> process_reach round other snaps first p'"

definition process_start :: "watch \<Rightarrow> 's \<Rightarrow> 's process" where
  "process_start w s = \<lparr>pr_watch = w, pr_loop = Looping s, pr_done = False, pr_last = []\<rparr>"

text \<open>A plan that has stopped never runs again, and the service is not told: it receives at most what the
  handler was about to send, and its loop never leaves for that reason.\<close>

lemma process_step_stopped:
  assumes "process_step round other snaps p p'" "\<not> wt_running (pr_watch p)" "wt_sending (pr_watch p) = None"
  shows "\<not> wt_running (pr_watch p') \<and> wt_sending (pr_watch p') = None \<and> pr_last p' = pr_last p"
  using assms by (cases rule: process_step.cases) (auto simp: plan_Stop_def)

lemma stopped_plan_unnoticed:
  assumes "process_reach round other snaps p p'" "\<not> wt_running (pr_watch p)" "wt_sending (pr_watch p) = None"
  shows "\<not> wt_running (pr_watch p') \<and> wt_sending (pr_watch p') = None \<and> pr_last p' = pr_last p"
  using assms by (induction rule: process_reach.induct) (use process_step_stopped in metis)+

text \<open>The first snapshot of a store with one pair arrives.\<close>

lemma first_delivery:
  assumes "Consul_Watch None = Inr w" "snaps [kv]" "round (Some [put_update kv]) s (Looping s')"
  shows "\<exists>p. process_reach round other snaps (process_start w s) p \<and> pr_loop p = Looping s'
    \<and> wt_sending (pr_watch p) = None \<and> pr_last p = [kv]"
proof -
  have w: "w = \<lparr>wt_cache = Map.empty, wt_sending = None, wt_running = True\<rparr>" using assms(1) by (simp add: Consul_Watch_def)
  let ?p0 = "process_start w s"
  let ?p1 = "?p0\<lparr>pr_watch := plan_delivers [] (AllPairs [kv]) w, pr_last := [kv]\<rparr>"
  let ?p2 = "?p1\<lparr>pr_watch := (pr_watch ?p1)\<lparr>wt_sending := None\<rparr>, pr_loop := Looping s'\<rparr>"
  have "process_step round other snaps ?p0 ?p1"
    using process_step.deliver [of ?p0 "[]" snaps "[kv]" round other] assms(2) w by (simp add: process_start_def)
  moreover have "process_step round other snaps ?p1 ?p2"
    by (rule process_step.receive [where s = s and us = "[put_update kv]"])
       (use assms(3) w in \<open>simp_all add: process_start_def plan_delivers_def watchHandler_def watchPair_def\<close>)
  ultimately have "process_reach round other snaps ?p0 ?p2"
    by (intro process_reach.step [OF process_reach.step [OF process_reach.here]])
  then show ?thesis by (intro exI [of _ ?p2]) simp
qed

section \<open>Loops that keep a copy of the store\<close>

locale watch_loop = watch_consumer step view name decode known
  for step :: "WatchUpdate \<Rightarrow> 's \<Rightarrow> 's \<Rightarrow> bool" and view :: "'s \<Rightarrow> string \<rightharpoonup> 'v" and name :: "string \<Rightarrow> string option"
    and decode :: "string \<Rightarrow> 'v option" and known :: "string \<Rightarrow> bool" +
  fixes round :: "WatchUpdate list option \<Rightarrow> 's \<Rightarrow> 's loop \<Rightarrow> bool"
    and other :: "'s \<Rightarrow> 's \<Rightarrow> bool"
  assumes round_handles: "round (Some us) s l \<Longrightarrow> \<exists>s'. l = Looping s' \<and> handles_all step us s s'"
    and other_view: "other s s' \<Longrightarrow> view s' = view s"
begin

text \<open>The cache is the last snapshot; the loop has it too, or will have it when it has received what is being sent.\<close>

definition up_to_date :: "watch \<Rightarrow> 's \<Rightarrow> bool" where
  "up_to_date w s \<longleftrightarrow>
     (case wt_sending w of
        None \<Rightarrow> copy_of (wt_cache w) s
      | Some us \<Rightarrow> \<exists>m. copy_of m s \<and> fold apply_update us m = wt_cache w
          \<and> list_all (\<lambda>u. (\<exists>kv. u = put_update kv \<and> readable kv) \<or> (\<exists>k. u = del_update k \<and> known k)) us)"

definition process_ok :: "'s process \<Rightarrow> bool" where
  "process_ok p \<longleftrightarrow> wt_cache (pr_watch p) = snapshot (pr_last p) \<and> distinct (map kv_Key (pr_last p)) \<and> list_all readable (pr_last p)
     \<and> (case pr_loop p of Looping s \<Rightarrow> up_to_date (pr_watch p) s | Returned s \<Rightarrow> pr_done p | Exited msg \<Rightarrow> False)"

lemma deliver_up_to_date:
  assumes "copy_of (wt_cache w) s" "range_order (wt_cache w) order" "distinct (map kv_Key pairs)" "list_all readable pairs"
    and "\<forall>k \<in> dom (wt_cache w). known k"
  shows "up_to_date (plan_delivers order (AllPairs pairs) w) s \<and> wt_cache (plan_delivers order (AllPairs pairs) w) = snapshot pairs"
proof -
  obtain us where us: "watchHandler order (AllPairs pairs) (wt_cache w) = (Some us, snapshot pairs)"
    using watchHandler_diff [OF assms(2,3)] by auto
  note diff = watchHandler_sends_diff [OF assms(2,3) us]
  have "list_all (\<lambda>u. (\<exists>kv. u = put_update kv \<and> readable kv) \<or> (\<exists>k. u = del_update k \<and> known k)) us"
    using diff(3) assms(4,5) unfolding list_all_iff by blast
  with assms(1) diff(2) us show ?thesis by (auto simp: up_to_date_def plan_delivers_def)
qed

lemma process_step_ok:
  assumes "process_step round other snaps p p'" "process_ok p" "\<And>pairs. snaps pairs \<Longrightarrow> distinct (map kv_Key pairs) \<and> list_all readable pairs"
  shows "process_ok p'"
  using assms(1)
proof (cases rule: process_step.cases)
  case (deliver order pairs)
  have "\<forall>k \<in> dom (wt_cache (pr_watch p)). known k"
    using assms(2) by (auto simp: process_ok_def dom_snapshot list_all_iff readable_def)
  then have "up_to_date (pr_watch p) s \<Longrightarrow> up_to_date (plan_delivers order (AllPairs pairs) (pr_watch p)) s" for s
    using deliver_up_to_date [of "pr_watch p" s order pairs] deliver(3-5) assms(3) by (simp add: up_to_date_def [of "pr_watch p"])
  moreover have "wt_cache (plan_delivers order (AllPairs pairs) (pr_watch p)) = snapshot pairs"
    using watchHandler_diff [OF deliver(4), of pairs] assms(3) [OF deliver(5)] by (auto simp: plan_delivers_def)
  ultimately show ?thesis using assms(2) assms(3) [OF deliver(5)] deliver(1) by (auto simp: process_ok_def split: loop.splits)
next
  case (receive s us l)
  from round_handles [OF receive(4)] obtain s' where s': "l = Looping s'" "handles_all step us s s'" by blast
  from assms(2) receive(2,3) obtain m where m: "copy_of m s" "fold apply_update us m = wt_cache (pr_watch p)"
    "list_all (\<lambda>u. (\<exists>kv. u = put_update kv \<and> readable kv) \<or> (\<exists>k. u = del_update k \<and> known k)) us"
    by (auto simp: process_ok_def up_to_date_def)
  have "copy_of (wt_cache (pr_watch p)) s'" using copy_of_updates [OF m(1) s'(2) m(3)] unfolding m(2) .
  with assms(2) receive(1) s'(1) show ?thesis by (simp add: process_ok_def up_to_date_def)
next
  case (otherwise s s')
  have same: "copy_of m s' = copy_of m s" for m using other_view [OF otherwise(3)] by (simp add: copy_of_def)
  have "up_to_date w s' = up_to_date w s" for w by (simp only: up_to_date_def same)
  with assms(2) otherwise(1,2) show ?thesis by (simp add: process_ok_def)
qed (use assms(2) in \<open>auto simp: process_ok_def up_to_date_def plan_Stop_def split: loop.splits option.splits\<close>)

lemma process_reach_ok:
  assumes "process_reach round other snaps (process_start w s0) p" "Consul_Watch None = Inr w" "view s0 = Map.empty"
    and "\<And>pairs. snaps pairs \<Longrightarrow> distinct (map kv_Key pairs) \<and> list_all readable pairs"
  shows "process_ok p"
  using assms(1)
proof (induction rule: process_reach.induct)
  case here
  have "copy_of Map.empty s0" using assms(3) by (simp add: copy_of_def)
  with assms(2) show ?case by (auto simp: process_ok_def process_start_def Consul_Watch_def up_to_date_def snapshot_simps)
next
  case (step p p')
  from process_step_ok [OF step(2,3) assms(4)] show ?case .
qed

text \<open>In every state of a process: the loop has not ended the program, it has returned only if the context has
  ended, and while it runs and nothing is being sent it holds exactly the entries of the last snapshot delivered.\<close>

lemma process_ok_end: "process_ok p \<Longrightarrow> (\<forall>msg. pr_loop p \<noteq> Exited msg) \<and> (\<forall>s. pr_loop p = Returned s \<longrightarrow> pr_done p)"
  by (auto simp: process_ok_def)

lemma process_ok_last: "process_ok p \<Longrightarrow> kv \<in> set (pr_last p) \<Longrightarrow> readable kv"
  by (auto simp: process_ok_def list_all_iff)

lemma process_ok_holds:
  assumes "process_ok p" "pr_loop p = Looping s" "wt_sending (pr_watch p) = None"
  shows "view s n = Some x \<longleftrightarrow> (\<exists>kv \<in> set (pr_last p). name (kv_Key kv) = Some n \<and> decode (kv_Value kv) = Some x)"
  by (rule copy_of_snapshot_iff) (use assms in \<open>auto simp: process_ok_def up_to_date_def list_all_iff readable_def\<close>)

end

end
