(* ===== verification/TranscodeCorrect.thy ===== *)
theory TranscodeCorrect
  imports Transcode Interfaces
begin

text \<open>
  What a transcoder does with the operations of theory \<open>Transcode\<close>: the step relation of a transcoder
  with its services and its host, its capacity, which transcoder claims a stream, and the copy of the
  store that it keeps (an interpretation of \<open>watch_consumer\<close>).
\<close>

section \<open>What a claim changes\<close>

lemma Transcoder_eqI [intro]:
  "tc_name a = tc_name b \<Longrightarrow> tc_capacity a = tc_capacity b \<Longrightarrow> tc_configPath a = tc_configPath b \<Longrightarrow> tc_sink a = tc_sink b \<Longrightarrow>
   tc_services a = tc_services b \<Longrightarrow> tc_transcoders a = tc_transcoders b \<Longrightarrow> tc_streams a = tc_streams b \<Longrightarrow>
   tc_streamTranscoders a = tc_streamTranscoders b \<Longrightarrow> a = (b :: 'k Transcoder)"
  by simp

text \<open>A claim changes the services only, and adds at most one, only if \<open>shouldClaim\<close> allows it.\<close>

definition claim_effect :: "TranscoderStatus list \<Rightarrow> string \<Rightarrow> 'k Transcoder \<Rightarrow> 'k Transcoder \<Rightarrow> bool" where
  "claim_effect ys slug t t' \<longleftrightarrow> (\<exists>sv. t' = t\<lparr>tc_services := sv\<rparr>
     \<and> (dom sv = dom (tc_services t) \<or> shouldClaim ys t \<and> dom sv = insert slug (dom (tc_services t))))"

lemma claim_effect_refl [simp]: "claim_effect ys slug t t"
  unfolding claim_effect_def by (rule exI [of _ "tc_services t"]) simp

lemma claimStream_effect:
  assumes "claimStream api js ch s (t, h) = Inr (t', h')"
  shows "claim_effect (cc_transcoders ch) (st_Slug s) t t'"
proof (cases "shouldClaim (cc_transcoders ch) t")
  case False
  with assms show ?thesis by (simp add: claimStream_def)
next
  case True
  have upd: "claim_effect (cc_transcoders ch) (st_Slug s) t (t\<lparr>tc_services := (tc_services t)(st_Slug s \<mapsto> x)\<rparr>)" for x
    unfolding claim_effect_def using True by (intro exI [of _ "(tc_services t)(st_Slug s \<mapsto> x)"]) simp
  show ?thesis
    using assms True upd
    by (auto simp: claimStream_def startService_def Let_def split: option.splits prod.splits if_splits)
qed

lemma claim_effect_frame:
  assumes "claim_effect ys slug t t'"
  shows "tc_name t' = tc_name t" "tc_capacity t' = tc_capacity t" "tc_transcoders t' = tc_transcoders t"
    "tc_streams t' = tc_streams t" "tc_streamTranscoders t' = tc_streamTranscoders t"
    "tc_configPath t' = tc_configPath t" "tc_sink t' = tc_sink t"
  using assms by (auto simp: claim_effect_def)

text \<open>The services fit into the capacity.\<close>

definition within_capacity :: "'k Transcoder \<Rightarrow> bool" where
  "within_capacity t \<longleftrightarrow> finite (dom (tc_services t)) \<and> num_services t \<le> max 0 (tc_capacity t)"

lemma claim_effect_capacity:
  assumes "claim_effect ys slug t t'" "within_capacity t"
  shows "within_capacity t'"
proof -
  from assms(1) obtain sv where sv: "t' = t\<lparr>tc_services := sv\<rparr>"
    "dom sv = dom (tc_services t) \<or> shouldClaim ys t \<and> dom sv = insert slug (dom (tc_services t))"
    by (auto simp: claim_effect_def)
  from sv(2) show ?thesis
  proof
    assume "shouldClaim ys t \<and> dom sv = insert slug (dom (tc_services t))"
    moreover have "card (insert slug (dom (tc_services t))) \<le> Suc (card (dom (tc_services t)))"
      using assms(2) by (simp add: within_capacity_def card_insert_if)
    ultimately show ?thesis
      using assms(2) sv(1) by (auto simp: within_capacity_def num_services_def shouldClaim_def split: if_splits)
  qed (use assms(2) sv(1) in \<open>simp add: within_capacity_def num_services_def\<close>)
qed

lemma within_capacity_dom:
  "within_capacity t \<Longrightarrow> dom (tc_services t') \<subseteq> dom (tc_services t) \<Longrightarrow> tc_capacity t' = tc_capacity t \<Longrightarrow> within_capacity t'"
  unfolding within_capacity_def num_services_def
  using card_mono [of "dom (tc_services t)" "dom (tc_services t')"] finite_subset by fastforce

section \<open>The operations one by one\<close>

text \<open>What an update of the stream prefix does to the transcoder's copy of the store.\<close>

definition follow :: "codec \<Rightarrow> WatchUpdate \<Rightarrow> 'k Transcoder \<Rightarrow> 'k Transcoder" where
  "follow js u t =
     (case wu_KV u of
        None \<Rightarrow> t
      | Some kv \<Rightarrow>
          let name = ParseStreamName (kv_Key kv);
              put = (wu_Type u = UpdateTypePut)
          in if name = '''' then t
             else if PathIsStream (kv_Key kv) then
               (if put then (case unmarshal_stream js (kv_Value kv) of
                               Inl _ \<Rightarrow> t
                             | Inr str \<Rightarrow> t\<lparr>tc_streams := (tc_streams t)(name \<mapsto> str)\<rparr>)
                else t\<lparr>tc_streams := (tc_streams t)(name := None)\<rparr>)
             else if PathIsStreamTranscoder (kv_Key kv) then
               t\<lparr>tc_streamTranscoders := (tc_streamTranscoders t)(name := if put then Some (kv_Value kv) else None)\<rparr>
             else t)"

lemma follow_frame [simp]:
  "tc_services (follow js u t) = tc_services t" "tc_capacity (follow js u t) = tc_capacity t"
  "tc_transcoders (follow js u t) = tc_transcoders t" "tc_name (follow js u t) = tc_name t"
  by (simp_all add: follow_def Let_def split: option.splits sum.splits)

lemma handleStream_follow:
  assumes "Transcoder_handleStream api js ch u (t, h) = Inr (t', h')"
  shows "t' = follow js u t \<or> (\<exists>s. claimStream api js ch s (follow js u t, h) = Inr (t', h'))"
proof (cases "wu_KV u")
  case None
  with assms show ?thesis by (simp add: Transcoder_handleStream_def follow_def)
next
  case (Some kv)
  with assms show ?thesis
    by (cases "wu_Type u"; cases "PathIsStream (kv_Key kv)"; cases "PathIsStreamTranscoder (kv_Key kv)")
       (auto simp: Transcoder_handleStream_def Transcoder_handleStreamUpdate_def Transcoder_handleStreamTranscoder_def follow_def Let_def
         split: if_splits sum.splits option.splits)
qed

lemma handleStream_effect:
  assumes "Transcoder_handleStream api js ch u (t, h) = Inr (t', h')"
  shows "\<exists>slug. claim_effect (cc_transcoders ch) slug (follow js u t) t'"
  using handleStream_follow [OF assms] by (metis claimStream_effect claim_effect_refl)

lemma tickService_effect:
  assumes "tickService api js key (t, h) = Inr (t', h')"
  shows "\<exists>sv. t' = t\<lparr>tc_services := sv\<rparr> \<and> dom sv \<subseteq> dom (tc_services t)"
proof -
  have "\<exists>sv. t = t\<lparr>tc_services := sv\<rparr> \<and> dom sv \<subseteq> dom (tc_services t)" by (rule exI [of _ "tc_services t"]) simp
  with assms show ?thesis
    by (auto simp: tickService_def Let_def split: option.splits if_splits)
qed

lemma tickStream_effect:
  assumes "tickStream api js chs key (t, h) = Inr (t', h')"
  shows "\<exists>slug. claim_effect (cc_transcoders (chs key)) slug t t'"
  using assms claimStream_effect by (fastforce simp: tickStream_def split: option.splits if_splits)

text \<open>A tick keeps what each of its two loops keeps.\<close>

lemma tick_keeps_state:
  assumes "Transcoder_tick api js ks ys ss chs th = Inr th'" "P th"
    and service: "\<And>th key th'. P th \<Longrightarrow> tickService api js key th = Inr th' \<Longrightarrow> P th'"
    and stream: "\<And>th key th'. P th \<Longrightarrow> tickStream api js chs key th = Inr th' \<Longrightarrow> P th'"
  shows "P th'"
proof -
  have loop: "P b" if "go_fold f xs a = Inr b" "P a" "\<And>th key th'. P th \<Longrightarrow> f key th = Inr th' \<Longrightarrow> P th'"
    for f :: "string \<Rightarrow> _" and xs a b
    using that by (induction xs arbitrary: a) (auto simp: go_bind_Inr_iff)
  from assms(1) obtain th1 where 1: "go_fold (tickService api js) ks th = Inr th1"
    "th1 = th' \<or> go_fold (tickStream api js chs) ss th1 = Inr th'"
    by (auto simp: Transcoder_tick_def go_bind_Inr_iff split: if_splits)
  have "P th1" using loop [OF 1(1) assms(2)] service by blast
  with 1(2) show ?thesis using loop [of "tickStream api js chs" ss th1 th'] stream by blast
qed

lemma tick_keeps:
  assumes "Transcoder_tick api js ks ys ss chs (t, h) = Inr (t', h')" "P t"
    and "\<And>t h key t' h'. P t \<Longrightarrow> tickService api js key (t, h) = Inr (t', h') \<Longrightarrow> P t'"
    and "\<And>t h key t' h'. P t \<Longrightarrow> tickStream api js chs key (t, h) = Inr (t', h') \<Longrightarrow> P t'"
  shows "P t'"
proof -
  have "P (fst (t', h'))"
  proof (rule tick_keeps_state [OF assms(1), of "\<lambda>th. P (fst th)"])
    show "P (fst (t, h))" using assms(2) by simp
    show "P (fst b)" if "P (fst a)" "tickService api js key a = Inr b" for a key b
      using assms(3) [of "fst a" key "snd a" "fst b" "snd b"] that by simp
    show "P (fst b)" if "P (fst a)" "tickStream api js chs key a = Inr b" for a key b
      using assms(4) [of "fst a" key "snd a" "fst b" "snd b"] that by simp
  qed
  then show ?thesis by simp
qed

section \<open>Steps of a transcoder\<close>

text \<open>The goroutine of one service.\<close>

inductive service_runs :: "'k Service \<times> 'k host \<Rightarrow> 'k Service \<times> 'k host \<Rightarrow> bool" where
  "sv_phase s = Created \<Longrightarrow> service_runs (s, h) (Run_start wr s h)"
| "sv_phase s = KeepingAlive \<Longrightarrow> service_runs (s, h) (s, syncUnitState listed s h)"
| "sv_phase s = KeepingAlive \<Longrightarrow> sv_cancelled s \<Longrightarrow> service_runs (s, h) (Run_end ok s h)"

text \<open>\<open>seen\<close> are the updates the watch for transcoders delivers. In \<open>transcoder_step\<close>
  anything may happen to the host and to the store in between.\<close>

inductive transcoder_act :: "'k kv_api \<Rightarrow> codec \<Rightarrow> (WatchUpdate \<Rightarrow> bool) \<Rightarrow> 'k Transcoder \<times> 'k host \<Rightarrow> 'k Transcoder \<times> 'k host \<Rightarrow> bool"
  for api js seen where
  transcoder_update: "seen u \<Longrightarrow> transcoder_act api js seen (t, h) (handleTranscoder js u t, h)"
| stream_update: "sorted_transcoders t (cc_transcoders ch) \<Longrightarrow> Transcoder_handleStream api js ch u (t, h) = Inr th' \<Longrightarrow>
    transcoder_act api js seen (t, h) th'"
| ticked: "range_order (tc_services t) ks \<Longrightarrow> range_order (tc_streams t) ss \<Longrightarrow> sorted_transcoders t ys \<Longrightarrow>
    (\<And>k. sorted_transcoders t (cc_transcoders (chs k))) \<Longrightarrow> Transcoder_tick api js ks ys ss chs (t, h) = Inr th' \<Longrightarrow>
    transcoder_act api js seen (t, h) th'"
| service: "tc_services t key = Some (Some s) \<Longrightarrow> service_runs (s, h) (s', h') \<Longrightarrow>
    transcoder_act api js seen (t, h) (t\<lparr>tc_services := (tc_services t)(key \<mapsto> Some s')\<rparr>, h')"

inductive transcoder_step :: "'k kv_api \<Rightarrow> codec \<Rightarrow> (WatchUpdate \<Rightarrow> bool) \<Rightarrow> 'k Transcoder \<times> 'k host \<Rightarrow> 'k Transcoder \<times> 'k host \<Rightarrow> bool"
  for api js seen where
  act: "transcoder_act api js seen th th' \<Longrightarrow> transcoder_step api js seen th th'"
| others: "transcoder_step api js seen (t, h) (t, h')"

inductive transcoder_reach :: "'k kv_api \<Rightarrow> codec \<Rightarrow> (WatchUpdate \<Rightarrow> bool) \<Rightarrow> 'k Transcoder \<times> 'k host \<Rightarrow> 'k Transcoder \<times> 'k host \<Rightarrow> bool"
  for api js seen first where
  here: "transcoder_reach api js seen first first"
| step: "transcoder_reach api js seen first th \<Longrightarrow> transcoder_step api js seen th th' \<Longrightarrow> transcoder_reach api js seen first th'"

lemma transcoder_act_capacity:
  "transcoder_act (api :: 'k kv_api) js seen th th' \<Longrightarrow> within_capacity (fst th) \<Longrightarrow>
   within_capacity (fst th') \<and> tc_capacity (fst th') = tc_capacity (fst th)"
proof (induction rule: transcoder_act.induct)
  case (transcoder_update u t h)
  have "tc_services (handleTranscoder js u t) = tc_services t" "tc_capacity (handleTranscoder js u t) = tc_capacity t"
    by (simp_all add: handleTranscoder_def split: option.splits prod.splits UpdateType.splits sum.splits)
  with transcoder_update show ?case by (simp add: within_capacity_def num_services_def)
next
  case (stream_update t ch u h th')
  obtain t' h' where th': "th' = (t', h')" by fastforce
  with stream_update(2) obtain slug where "claim_effect (cc_transcoders ch) slug (follow js u t) t'"
    using handleStream_effect by blast
  moreover have "within_capacity (follow js u t)"
    using stream_update(3) by (simp add: within_capacity_def num_services_def)
  ultimately show ?case using claim_effect_capacity claim_effect_frame(2) th' by fastforce
next
  case (ticked t ks ss ys chs h th')
  obtain t' h' where th': "th' = (t', h')" by fastforce
  let ?P = "\<lambda>x :: 'k Transcoder. within_capacity x \<and> tc_capacity x = tc_capacity t"
  have "?P t'"
  proof (rule tick_keeps [of api js ks ys ss chs t h t' h' ?P])
    fix a h key a' h'
    assume a: "?P a"
    show "?P a'" if "tickService api js key (a, h) = Inr (a', h')"
      using tickService_effect [OF that] a within_capacity_dom [of a a'] by auto
    show "?P a'" if "tickStream api js chs key (a, h) = Inr (a', h')"
      using tickStream_effect [OF that] a claim_effect_capacity claim_effect_frame(2) by metis
  qed (use ticked th' in auto)
  with th' show ?case by simp
next
  case (service t key s h s' h')
  then have "dom ((tc_services t)(key \<mapsto> Some s')) = dom (tc_services t)" by auto
  with service(3) show ?case by (simp add: within_capacity_def num_services_def)
qed

lemma transcoder_step_capacity:
  "transcoder_step api js seen th th' \<Longrightarrow> within_capacity (fst th) \<Longrightarrow>
   within_capacity (fst th') \<and> tc_capacity (fst th') = tc_capacity (fst th)"
  by (induction rule: transcoder_step.induct) (use transcoder_act_capacity in blast, simp)

section \<open>Which transcoder claims\<close>

definition load :: "TranscoderStatus \<Rightarrow> rat" where
  "load st = of_int (ts_NumStreams st) / of_int (ts_Capacity st)"

lemma ByLoad_Less_load: "0 < ts_Capacity a \<Longrightarrow> 0 < ts_Capacity b \<Longrightarrow> ByLoad_Less a b \<longleftrightarrow> load a < load b"
  by (simp add: ByLoad_Less_def load_def)

lemma strict_weak_ByLoad: "\<forall>st \<in> A. 0 < ts_Capacity st \<Longrightarrow> strict_weak ByLoad_Less A"
  unfolding strict_weak_def by (auto simp: ByLoad_Less_load)

lemma sort_outcome_head:
  assumes "sort_outcome lt xs (y # ys)" "strict_weak lt (set xs)"
  shows "y \<in> set xs" "\<forall>x \<in> set xs. \<not> lt x y"
proof -
  have s: "set (y # ys) = set xs" using assms(1) unfolding sort_outcome_def by (metis set_mset_mset)
  then show y: "y \<in> set xs" by auto
  have "\<not> lt y y" using assms(2) y by (simp add: strict_weak_def)
  moreover have "\<forall>x \<in> set ys. \<not> lt x y" using assms by (simp add: sort_outcome_def)
  ultimately show "\<forall>x \<in> set xs. \<not> lt x y" using s by auto
qed

lemma sorted_transcoders_set: "sorted_transcoders t ys \<Longrightarrow> set ys = ran (tc_transcoders t)"
proof -
  assume "sorted_transcoders t ys"
  then obtain ks where ks: "set ks = dom (tc_transcoders t)" "mset ys = mset (map (the \<circ> tc_transcoders t) ks)"
    by (auto simp: sorted_transcoders_def sort_outcome_def range_order_def)
  then have "set ys = (the \<circ> tc_transcoders t) ` dom (tc_transcoders t)" by (metis list.set_map set_mset_mset)
  then show ?thesis by (auto simp: ran_def image_iff dom_def) (metis option.sel)
qed

text \<open>The head of the sorted slice is a transcoder of least load.\<close>

lemma top_candidate:
  assumes "sorted_transcoders t (y # ys)" "\<forall>st \<in> ran (tc_transcoders t). 0 < ts_Capacity st"
  shows "y \<in> ran (tc_transcoders t)" "\<forall>st \<in> ran (tc_transcoders t). load y \<le> load st"
proof -
  from assms(1) obtain ks where ks: "sort_outcome ByLoad_Less (map (the \<circ> tc_transcoders t) ks) (y # ys)"
    by (auto simp: sorted_transcoders_def)
  have eq: "set (map (the \<circ> tc_transcoders t) ks) = ran (tc_transcoders t)"
    using sorted_transcoders_set [OF assms(1)] ks unfolding sort_outcome_def by (metis set_mset_mset)
  have weak: "strict_weak ByLoad_Less (ran (tc_transcoders t))" by (rule strict_weak_ByLoad [OF assms(2)])
  note head = sort_outcome_head [OF ks, unfolded eq, OF weak]
  show y: "y \<in> ran (tc_transcoders t)" by (rule head(1))
  show "\<forall>st \<in> ran (tc_transcoders t). load y \<le> load st"
    using head(2) assms(2) y by (simp add: ByLoad_Less_load not_less)
qed

lemma shouldClaim_iff:
  "shouldClaim ys t \<longleftrightarrow> num_services t < tc_capacity t \<and> (\<exists>y zs. ys = y # zs \<and> ts_Name y = tc_name t)"
  by (cases ys) (auto simp: shouldClaim_def)

lemma claims_least:
  assumes "\<forall>st \<in> ran (tc_transcoders t). 0 < ts_Capacity st" "sorted_transcoders t ys" "shouldClaim ys t"
  shows "\<exists>st \<in> ran (tc_transcoders t). ts_Name st = tc_name t \<and> (\<forall>st' \<in> ran (tc_transcoders t). load st \<le> load st')"
proof -
  obtain y xs where "ys = y # xs" "ts_Name y = tc_name t" using assms(3) by (auto simp: shouldClaim_iff)
  with top_candidate [of t y xs] assms show ?thesis by auto
qed

lemma strictly_least_claims:
  assumes "\<forall>st \<in> ran (tc_transcoders t). 0 < ts_Capacity st" "sorted_transcoders t ys" "num_services t < tc_capacity t"
    and "st \<in> ran (tc_transcoders t)" "ts_Name st = tc_name t" "\<forall>st' \<in> ran (tc_transcoders t). st' = st \<or> load st < load st'"
  shows "shouldClaim ys t"
proof -
  obtain y xs where y: "ys = y # xs" using sorted_transcoders_set [OF assms(2)] assms(4) by (cases ys) auto
  with top_candidate [of t y xs] assms have "y = st" by (metis leD)
  with y assms(3,5) show ?thesis by (simp add: shouldClaim_iff)
qed

lemma one_claims:
  assumes "\<forall>st \<in> ran (tc_transcoders t). 0 < ts_Capacity st" "sorted_transcoders t ys" "shouldClaim ys t"
    and "tc_transcoders u = tc_transcoders t" "sorted_transcoders u zs" "shouldClaim zs u" "inj_on load (ran (tc_transcoders t))"
  shows "tc_name t = tc_name u"
proof -
  obtain y ys' z zs' where yz: "ys = y # ys'" "zs = z # zs'" "ts_Name y = tc_name t" "ts_Name z = tc_name u"
    using assms(3,6) by (auto simp: shouldClaim_iff)
  have here: "y \<in> ran (tc_transcoders t)" "z \<in> ran (tc_transcoders t)"
    using sorted_transcoders_set [OF assms(2)] sorted_transcoders_set [OF assms(5)] assms(4) yz(1,2) by auto
  have "load y \<le> load z" using top_candidate(2) [of t y ys'] assms(1,2) here yz(1) by blast
  moreover have "load z \<le> load y" using top_candidate(2) [of u z zs'] assms(1,4,5) here yz(2) by simp
  ultimately have "y = z" using assms(7) here by (simp add: inj_on_def)
  with yz(3,4) show ?thesis by simp
qed

section \<open>Properties\<close>

text \<open>C30. A transcoder never runs more services than its capacity allows, whatever updates, ticks, failed
  claims, service endings and changes of the store happen in whatever order.\<close>

theorem capacity_respected:
  assumes "transcoder_reach api js seen (Transcoder_New conf name, h) (t, h')"
  shows "finite (dom (tc_services t)) \<and> num_services t \<le> max 0 (tf_Capacity conf)"
proof -
  have "within_capacity (fst th) \<and> tc_capacity (fst th) = tf_Capacity conf"
    if "transcoder_reach api js seen (Transcoder_New conf name, h) th" for th
    using that
  proof (induction rule: transcoder_reach.induct)
    case here
    show ?case by (simp add: within_capacity_def num_services_def Transcoder_New_def)
  next
    case (step th th')
    with transcoder_step_capacity [OF step(2)] show ?case by simp
  qed
  from this [OF assms] show ?thesis by (auto simp: within_capacity_def)
qed

text \<open>C31. When all known capacities are positive, a transcoder claims only while it has a free slot and its
  own published status has the least load of all that it knows; and it does claim if that load is
  strictly the least. So of two transcoders that know the same statuses, in which no two have the same
  load, at most one claims.\<close>

theorem least_loaded_claims:
  assumes "\<forall>st \<in> ran (tc_transcoders t). 0 < ts_Capacity st" "sorted_transcoders t ys"
  shows "(shouldClaim ys t \<longrightarrow> num_services t < tc_capacity t \<and>
      (\<exists>st \<in> ran (tc_transcoders t). ts_Name st = tc_name t \<and> (\<forall>st' \<in> ran (tc_transcoders t). load st \<le> load st')))
    \<and> (num_services t < tc_capacity t \<and> (\<exists>st \<in> ran (tc_transcoders t). ts_Name st = tc_name t
         \<and> (\<forall>st' \<in> ran (tc_transcoders t). st' = st \<or> load st < load st')) \<longrightarrow> shouldClaim ys t)
    \<and> (\<forall>u zs. tc_transcoders u = tc_transcoders t \<and> sorted_transcoders u zs \<and> inj_on load (ran (tc_transcoders t))
         \<and> shouldClaim ys t \<and> shouldClaim zs u \<longrightarrow> tc_name t = tc_name u)"
  using claims_least [OF assms] strictly_least_claims [OF assms] one_claims [OF assms] shouldClaim_iff [of ys t] by blast

definition demo_api :: "string list kv_api" where
  "demo_api = \<lparr>api_PutWithSession = \<lambda>key val k. (None, k @ [key]), api_Delete = \<lambda>key k. (None, removeAll key k)\<rparr>"

definition demo_status :: "string \<Rightarrow> int \<Rightarrow> TranscoderStatus" where
  "demo_status name n = \<lparr>ts_Name = name, ts_Capacity = 2, ts_NumStreams = n\<rparr>"

definition demo_js :: codec where
  "demo_js = \<lparr>marshal_status = \<lambda>_. Inr ''json'', unmarshal_status = \<lambda>v. Inr (demo_status v 0),
     unmarshal_stream = \<lambda>v. Inr \<lparr>st_Format = ''matroska'', st_Source = ''src'', st_Slug = v, st_PublishedAt = 0\<rparr>\<rparr>"

definition demo_transcoder :: "string list Transcoder" where
  "demo_transcoder = Transcoder_New \<lparr>tf_Enable = True, tf_Capacity = 2, tf_ConfigPath = ''/etc/transcode'', tf_Sink = ''sink''\<rparr> ''t1''"

definition demo_choice :: claim_choice where
  "demo_choice = \<lparr>cc_transcoders = [demo_status ''t1'' 0], cc_write = Written, cc_connErr = None\<rparr>"

definition demo_known :: "string list Transcoder" where
  "demo_known = demo_transcoder\<lparr>tc_transcoders := [''t1'' \<mapsto> demo_status ''t1'' 0]\<rparr>"

lemma demo_known_step: "transcoder_step demo_api demo_js (\<lambda>_. True) (demo_transcoder, h) (demo_known, h)"
proof -
  have "handleTranscoder demo_js (put_update \<lparr>kv_Key = ''transcoders/t1'', kv_Value = ''t1''\<rparr>) demo_transcoder = demo_known"
    by (simp add: handleTranscoder_def put_update_def ParseTranscoderName_def demo_js_def demo_known_def demo_transcoder_def Transcoder_New_def)
  then show ?thesis
    using transcoder_step.act [OF transcoder_act.transcoder_update [of "\<lambda>_. True" "put_update \<lparr>kv_Key = ''transcoders/t1'', kv_Value = ''t1''\<rparr>"
        demo_api demo_js demo_transcoder h]] by simp
qed

lemma demo_sorted: "tc_transcoders t = [''t1'' \<mapsto> demo_status ''t1'' 0] \<Longrightarrow> sorted_transcoders t [demo_status ''t1'' 0]"
  unfolding sorted_transcoders_def sort_outcome_def
  by (intro exI [of _ "[''t1'']"]) (auto simp: range_order_def)

theorem capacity_respected_witness:
  "\<exists>t h'. transcoder_reach demo_api demo_js (\<lambda>_. True)
      (Transcoder_New \<lparr>tf_Enable = True, tf_Capacity = 2, tf_ConfigPath = ''/etc/transcode'', tf_Sink = ''sink''\<rparr> ''t1'', demo_host) (t, h')
    \<and> dom (tc_services t) = {''s1''} \<and> num_services t \<le> 2"
proof -
  let ?u = "put_update \<lparr>kv_Key = ''stream/s1'', kv_Value = ''s1''\<rparr>"
  obtain t h' where s: "Transcoder_handleStream demo_api demo_js demo_choice ?u (demo_known, demo_host) = Inr (t, h')"
    "dom (tc_services t) = {''s1''}"
    by (simp add: Transcoder_handleStream_def Transcoder_handleStreamUpdate_def claimStream_def startService_def shouldClaim_def
        createService_def NewService_def put_update_def ParseStreamName_def PathIsStream_def num_services_def demo_known_def demo_transcoder_def
        Transcoder_New_def demo_js_def demo_api_def demo_choice_def demo_status_def Let_def)
  have "transcoder_step demo_api demo_js (\<lambda>_. True) (demo_known, demo_host) (t, h')"
    by (rule transcoder_step.act [OF transcoder_act.stream_update [OF _ s(1)]]) (simp add: demo_choice_def demo_sorted demo_known_def)
  then have reach: "transcoder_reach demo_api demo_js (\<lambda>_. True) (demo_transcoder, demo_host) (t, h')"
    using demo_known_step transcoder_reach.here transcoder_reach.step by metis
  from capacity_respected [OF this [unfolded demo_transcoder_def]] have "num_services t \<le> 2" by simp
  with reach s(2) show ?thesis unfolding demo_transcoder_def by blast
qed

theorem least_loaded_claims_witness:
  "shouldClaim [demo_status ''t1'' 0] demo_known"
proof -
  have "\<forall>st \<in> ran (tc_transcoders demo_known). 0 < ts_Capacity st" "sorted_transcoders demo_known [demo_status ''t1'' 0]"
    by (simp_all add: demo_known_def demo_status_def demo_sorted [unfolded demo_status_def])
  moreover have "ran (tc_transcoders demo_known) = {demo_status ''t1'' 0}" by (simp add: demo_known_def)
  moreover have "ts_Name (demo_status ''t1'' 0) = tc_name demo_known" "num_services demo_known < tc_capacity demo_known"
    by (simp_all add: demo_known_def demo_transcoder_def Transcoder_New_def demo_status_def num_services_def)
  ultimately show ?thesis using least_loaded_claims [of demo_known "[demo_status ''t1'' 0]"] by blast
qed

text \<open>Nothing of the status of a transcoder reaches the others.\<close>

definition idle :: "'k Transcoder \<Rightarrow> bool" where
  "idle t \<longleftrightarrow> tc_transcoders t = Map.empty \<and> tc_services t = Map.empty"

definition status_update :: "WatchUpdate \<Rightarrow> bool" where
  "status_update u \<longleftrightarrow> (\<exists>kv n. wu_KV u = Some kv \<and> plain_elem n \<and> kv_Key kv = ServicePath ''transcode'' n)"

lemma no_candidates: "tc_transcoders t = Map.empty \<Longrightarrow> sorted_transcoders t ys \<Longrightarrow> ys = []"
  using sorted_transcoders_set by fastforce

lemma idle_claim: "idle t \<Longrightarrow> claim_effect [] slug t t' \<Longrightarrow> idle t'"
  by (auto simp: idle_def claim_effect_def shouldClaim_iff)

lemma idle_New [simp]: "idle (Transcoder_New conf name)"
  by (simp add: idle_def Transcoder_New_def)

lemma idle_follow [simp]: "idle (follow js u t) = idle t"
  by (simp add: idle_def)

lemma transcoder_act_idle:
  "transcoder_act (api :: 'k kv_api) js status_update th th' \<Longrightarrow> idle (fst th) \<Longrightarrow> idle (fst th')"
proof (induction rule: transcoder_act.induct)
  case (transcoder_update u t h)
  then obtain kv n where kv: "wu_KV u = Some kv" "plain_elem n" "kv_Key kv = ServicePath ''transcode'' n" by (auto simp: status_update_def)
  have "split slash (kv_Key kv) = [''service'', ''transcode'', n]" using key_parts(4) [OF kv(2) plain_words(5)] kv(3) by simp
  with kv(1) transcoder_update show ?case by (simp add: handleTranscoder_def ParseTranscoderName_def)
next
  case (stream_update t ch u h th')
  moreover have "cc_transcoders ch = []" using stream_update no_candidates by (auto simp: idle_def)
  ultimately show ?case using handleStream_effect [of api js ch u t h "fst th'" "snd th'"] idle_claim by (metis fst_conv idle_follow prod.collapse)
next
  case (ticked t ks ss ys chs h th')
  have none: "cc_transcoders (chs k) = []" for k using ticked(4,6) no_candidates by (auto simp: idle_def)
  have "idle (fst th')"
  proof (rule tick_keeps [of api js ks ys ss chs t h "fst th'" "snd th'" idle])
    fix a :: "'k Transcoder" and h key a' h'
    assume a: "idle a"
    show "idle a'" if "tickService api js key (a, h) = Inr (a', h')"
      using tickService_effect [OF that] a by (auto simp: idle_def)
    show "idle a'" if "tickStream api js chs key (a, h) = Inr (a', h')"
      using tickStream_effect [OF that] a none idle_claim by metis
  qed (use ticked in auto)
  then show ?case .
next
  case (service t key s h s' h')
  then show ?case by (simp add: idle_def)
qed

lemma transcoder_step_idle: "transcoder_step api js status_update th th' \<Longrightarrow> idle (fst th) \<Longrightarrow> idle (fst th')"
  by (induction rule: transcoder_step.induct) (use transcoder_act_idle in blast, simp)

text \<open>C32. A transcoder publishes its status under a key that the watch of the other transcoders, and its own,
  does not cover, and that the handler would not accept either. As long as the statuses in the store are
  those that transcoders publish, no transcoder ever runs a service.\<close>

theorem published_status_unseen:
  "(\<forall>n. plain_elem n \<longrightarrow> \<not> hasPrefix (ServicePath ''transcode'' n) TranscoderPrefix)
   \<and> (transcoder_reach api js status_update (Transcoder_New conf name, h) (t, h') \<longrightarrow> tc_services t = Map.empty)"
proof (intro conjI allI impI)
  fix n
  assume n: "plain_elem n"
  show "\<not> hasPrefix (ServicePath ''transcode'' n) TranscoderPrefix"
    using key_forms(4) [OF n plain_words(5)] by (simp add: hasPrefix_def TranscoderPrefix_def)
next
  assume "transcoder_reach api js status_update (Transcoder_New conf name, h) (t, h')"
  moreover have "idle (fst th)" if "transcoder_reach api js status_update (Transcoder_New conf name, h) th" for th
    using that by (induction rule: transcoder_reach.induct) (auto intro: transcoder_step_idle)
  ultimately show "tc_services t = Map.empty" by (fastforce simp: idle_def)
qed

theorem published_status_unseen_witness:
  "\<not> hasPrefix (ServicePath ''transcode'' ''t1'') TranscoderPrefix
   \<and> (\<exists>t h'. transcoder_reach demo_api demo_js status_update (demo_transcoder, demo_host) (t, h')
        \<and> tc_streams t \<noteq> Map.empty \<and> tc_services t = Map.empty)"
proof -
  let ?u = "put_update \<lparr>kv_Key = ''stream/s1'', kv_Value = ''s1''\<rparr>"
  obtain t h' where s: "Transcoder_handleStream demo_api demo_js (demo_choice\<lparr>cc_transcoders := []\<rparr>) ?u (demo_transcoder, demo_host) = Inr (t, h')"
    "tc_streams t \<noteq> Map.empty"
    by (simp add: Transcoder_handleStream_def Transcoder_handleStreamUpdate_def claimStream_def shouldClaim_def
        put_update_def ParseStreamName_def PathIsStream_def demo_transcoder_def Transcoder_New_def demo_js_def Let_def)
  have "sorted_transcoders demo_transcoder []"
    by (auto simp: sorted_transcoders_def sort_outcome_def demo_transcoder_def Transcoder_New_def)
  then have "transcoder_step demo_api demo_js status_update (demo_transcoder, demo_host) (t, h')"
    by (intro transcoder_step.act [OF transcoder_act.stream_update [OF _ s(1)]]) simp
  then have "transcoder_reach demo_api demo_js status_update (demo_transcoder, demo_host) (t, h')"
    by (rule transcoder_reach.step [OF transcoder_reach.here])
  moreover have "tc_services t = Map.empty"
    using published_status_unseen [of demo_api demo_js] calculation unfolding demo_transcoder_def by blast
  moreover have "plain_elem ''t1''" by (simp add: plain_elem_def)
  then have "\<not> hasPrefix (ServicePath ''transcode'' ''t1'') TranscoderPrefix"
    using published_status_unseen [of demo_api demo_js] by blast
  ultimately show ?thesis using s(2) by blast
qed

section \<open>The copy of the store\<close>

definition stream_name :: "string \<Rightarrow> string option" where
  "stream_name k = (if PathIsStream k \<and> ParseStreamName k \<noteq> '''' then Some (ParseStreamName k) else None)"

definition stream_transcoder_name :: "string \<Rightarrow> string option" where
  "stream_transcoder_name k = (if PathIsStreamTranscoder k \<and> ParseStreamName k \<noteq> '''' then Some (ParseStreamName k) else None)"

lemma stream_name_iff: "stream_name k = Some n \<longleftrightarrow> n \<noteq> '''' \<and> split slash k = [''stream'', n]"
  by (auto simp: stream_name_def PathIsStream_iff ParseStreamName_def Let_def)

lemma stream_transcoder_name_iff: "stream_transcoder_name k = Some n \<longleftrightarrow> n \<noteq> '''' \<and> split slash k = [''stream'', n, ''transcoder'']"
  by (auto simp: stream_transcoder_name_def PathIsStreamTranscoder_iff ParseStreamName_def Let_def)

lemma not_both: "\<not> (PathIsStream k \<and> PathIsStreamTranscoder k)"
  by (auto simp: PathIsStream_iff PathIsStreamTranscoder_iff)

definition stream_step :: "'k kv_api \<Rightarrow> codec \<Rightarrow> WatchUpdate \<Rightarrow> 'k Transcoder \<times> 'k host \<Rightarrow> 'k Transcoder \<times> 'k host \<Rightarrow> bool" where
  "stream_step api js u th th' \<longleftrightarrow> (\<exists>ch. Transcoder_handleStream api js ch u th = Inr th')"

lemma stream_step_copy:
  assumes "stream_step api js u th th'"
  shows "tc_streams (fst th') = tc_streams (follow js u (fst th))"
    "tc_streamTranscoders (fst th') = tc_streamTranscoders (follow js u (fst th))"
proof -
  from assms obtain ch where "Transcoder_handleStream api js ch u (fst th, snd th) = Inr (fst th', snd th')"
    by (auto simp: stream_step_def)
  then obtain slug where "claim_effect (cc_transcoders ch) slug (follow js u (fst th)) (fst th')"
    using handleStream_effect by blast
  then show "tc_streams (fst th') = tc_streams (follow js u (fst th))"
    "tc_streamTranscoders (fst th') = tc_streamTranscoders (follow js u (fst th))" by (simp_all add: claim_effect_frame)
qed

interpretation ts: watch_consumer "stream_step api js" "\<lambda>th. tc_streams (fst th)" stream_name "decoded (unmarshal_stream js)" "\<lambda>_. True"
  for api js
proof
  show "k = k'" if "stream_name k = Some n" "stream_name k' = Some n" for k k' n
    using that unfolding stream_name_iff by (metis join_split)
qed (use not_both in \<open>auto dest!: stream_step_copy(1) simp: follow_def put_update_def del_update_def stream_name_def Let_def split: if_splits sum.splits\<close>)

interpretation tt: watch_consumer "stream_step api js" "\<lambda>th. tc_streamTranscoders (fst th)" stream_transcoder_name Some "\<lambda>_. True"
  for api js
proof
  show "k = k'" if "stream_transcoder_name k = Some n" "stream_transcoder_name k' = Some n" for k k' n
    using that unfolding stream_transcoder_name_iff by (metis join_split)
qed (use not_both in \<open>auto dest!: stream_step_copy(2) simp: follow_def put_update_def del_update_def stream_transcoder_name_def Let_def split: if_splits sum.splits\<close>)

definition stream_pair :: "codec \<Rightarrow> KVPair \<Rightarrow> bool" where
  "stream_pair js kv \<longleftrightarrow> (PathIsStream (kv_Key kv) \<longrightarrow> (\<exists>s. unmarshal_stream js (kv_Value kv) = Inr s))"

section \<open>Claims one by one\<close>

text \<open>The branches of a claim that is allowed: the key of the stream is put with the transcoder's name; if
  that fails nothing else happens, otherwise a running service is restarted with the new configuration,
  and a stream without service gets one.\<close>

lemma claimStream_new:
  assumes "shouldClaim (cc_transcoders ch) t" "tc_services t (st_Slug s) = None"
    and "api_PutWithSession api (StreamTranscoderPath (st_Slug s)) (tc_name t) (hs_store h) = (None, k)"
  shows "\<exists>h'. claimStream api js ch s (t, h) =
    Inr (t\<lparr>tc_services := (tc_services t)(st_Slug s \<mapsto> decoded (createService api (cc_connErr ch) t) s)\<rparr>, h')"
  using assms by (simp add: claimStream_def startService_def decoded_def Let_def)

lemma claimStream_refused:
  assumes "api_PutWithSession api (StreamTranscoderPath (st_Slug s)) (tc_name t) (hs_store h) = (Some e, k)"
    and "tc_services t (st_Slug s) \<noteq> Some None"
  shows "\<exists>h'. claimStream api js ch s (t, h) = Inr (t, h')"
  using assms by (auto simp: claimStream_def Let_def split: option.splits)

text \<open>A service that could not be created leaves a nil pointer, and the next tick panics on it.\<close>

lemma failed_service_panics:
  assumes "shouldClaim (cc_transcoders ch) t" "tc_services t (st_Slug s) = None" "cc_connErr ch = Some e"
    and "api_PutWithSession api (StreamTranscoderPath (st_Slug s)) (tc_name t) (hs_store h) = (None, k)"
  shows "\<exists>t' h'. claimStream api js ch s (t, h) = Inr (t', h') \<and> tickService api js (st_Slug s) (t', h') = Inl NilPointer"
  using assms by (simp add: claimStream_def startService_def createService_def NewService_def tickService_def Let_def)

end
