(* ===== verification/Fleet.thy ===== *)
theory Fleet
  imports TranscodeCorrect
begin

text \<open>
  Several transcoders that share one store. The store is Consul's: a key that is put with a session
  belongs to the client of that session until it is deleted, and a put by another client fails
  (\<open>session_locks\<close>). A session may expire: Consul then deletes the keys put with it, while the services of
  the client go on. A stream is never transcoded twice unless a session expired while its client was
  transcoding that stream; then it can be, and \<open>expired_session_doubles\<close> has a run in which it is.
\<close>

section \<open>Ownership of keys\<close>

definition session_locks :: "('i \<Rightarrow> 'k kv_api) \<Rightarrow> ('i \<Rightarrow> 'k \<Rightarrow> 'k) \<Rightarrow> ('k \<Rightarrow> string \<rightharpoonup> 'i) \<Rightarrow> bool" where
  "session_locks api expire owner \<longleftrightarrow>
     (\<forall>i key v k. if fst (api_PutWithSession (api i) key v k) = None
        then (owner k key = None \<or> owner k key = Some i) \<and> owner (snd (api_PutWithSession (api i) key v k)) = (owner k)(key \<mapsto> i)
        else owner (snd (api_PutWithSession (api i) key v k)) = owner k)
     \<and> (\<forall>i key k. owner (snd (api_Delete (api i) key k)) =
          (if fst (api_Delete (api i) key k) = None then (owner k)(key := None) else owner k))
     \<and> (\<forall>i k. owner (expire i k) = (\<lambda>key. if owner k key = Some i then None else owner k key))"

text \<open>No key loses its owner.\<close>

definition grows :: "('k \<Rightarrow> string \<rightharpoonup> 'i) \<Rightarrow> 'k \<Rightarrow> 'k \<Rightarrow> bool" where
  "grows owner k k' \<longleftrightarrow> owner k \<subseteq>\<^sub>m owner k'"

lemma grows_refl [simp]: "grows owner k k"
  by (simp add: grows_def)

lemma grows_trans [trans]: "grows owner a b \<Longrightarrow> grows owner b c \<Longrightarrow> grows owner a c"
  unfolding grows_def by (rule map_le_trans)

lemma grows_owner: "grows owner k k' \<Longrightarrow> owner k key = Some i \<Longrightarrow> owner k' key = Some i"
  unfolding grows_def map_le_def by (metis domI)

lemma put_grows:
  assumes "session_locks api expire owner" "api_PutWithSession (api i) key v k = (err, k')"
  shows "grows owner k k'" "err = None \<Longrightarrow> owner k' key = Some i"
proof -
  have law: "if err = None then (owner k key = None \<or> owner k key = Some i) \<and> owner k' = (owner k)(key \<mapsto> i) else owner k' = owner k"
    using assms(1) [unfolded session_locks_def, THEN conjunct1, rule_format, of i key v k] unfolding assms(2) fst_conv snd_conv .
  then show "grows owner k k'" by (auto simp: grows_def map_le_def split: if_splits)
  show "owner k' key = Some i" if "err = None" using law that by simp
qed

lemma delete_owner:
  assumes "session_locks api expire owner"
  shows "owner (snd (api_Delete (api i) key k)) = (owner k)(key := None) \<or> owner (snd (api_Delete (api i) key k)) = owner k"
  using assms by (simp add: session_locks_def)

lemma publishStatus_grows:
  "session_locks api expire owner \<Longrightarrow> publishStatus (api i) js t h = (err, h') \<Longrightarrow> grows owner (hs_store h) (hs_store h')"
  by (auto simp: publishStatus_def split: sum.splits prod.splits dest: put_grows(1))

section \<open>The claims of one transcoder\<close>

definition cleans :: "'k kv_api \<Rightarrow> string \<Rightarrow> 'k Service \<Rightarrow> bool" where
  "cleans api slug sv \<longleftrightarrow> sc_Cleanup (sv_conf sv) = Some (\<lambda>k. snd (api_Delete api (StreamTranscoderPath slug) k))"

text \<open>\<open>lost\<close> are the streams whose claim may be gone.\<close>

definition claims_held :: "('i \<Rightarrow> 'k kv_api) \<Rightarrow> ('k \<Rightarrow> string \<rightharpoonup> 'i) \<Rightarrow> string set \<Rightarrow> 'i \<Rightarrow> 'k Transcoder \<Rightarrow> 'k \<Rightarrow> bool" where
  "claims_held api owner lost i t k \<longleftrightarrow> (\<forall>slug sv. tc_services t slug = Some (Some sv) \<longrightarrow> sv_phase sv \<noteq> Finished \<longrightarrow>
     plain_elem slug \<and> (slug \<notin> lost \<longrightarrow> owner k (StreamTranscoderPath slug) = Some i) \<and> cleans (api i) slug sv)"

definition plain_streams :: "'k Transcoder \<Rightarrow> bool" where
  "plain_streams t \<longleftrightarrow> (\<forall>key s. tc_streams t key = Some s \<longrightarrow> plain_elem (st_Slug s))"

lemma claims_held_grows: "claims_held api owner lost i t k \<Longrightarrow> grows owner k k' \<Longrightarrow> claims_held api owner lost i t k'"
  unfolding claims_held_def using grows_owner by metis

lemma claims_held_services: "tc_services t' = tc_services t \<Longrightarrow> claims_held api owner lost i t' k = claims_held api owner lost i t k"
  by (simp add: claims_held_def)

lemma claims_held_upd:
  assumes "claims_held api owner lost i t k"
    and "\<And>sv. x = Some (Some sv) \<Longrightarrow> sv_phase sv \<noteq> Finished \<Longrightarrow> plain_elem slug \<and> (slug \<notin> lost \<longrightarrow> owner k (StreamTranscoderPath slug) = Some i) \<and> cleans (api i) slug sv"
  shows "claims_held api owner lost i (t\<lparr>tc_services := (tc_services t)(slug := x)\<rparr>) k"
  using assms by (auto simp: claims_held_def)

lemma claimStream_held:
  assumes locks: "session_locks api expire owner" and slug: "plain_elem (st_Slug s)" and held: "claims_held api owner lost i t (hs_store h)"
    and res: "claimStream (api i) js ch s (t, h) = Inr (t', h')"
  shows "claims_held api owner lost i t' (hs_store h') \<and> grows owner (hs_store h) (hs_store h')"
proof (cases "shouldClaim (cc_transcoders ch) t \<and> tc_services t (st_Slug s) \<noteq> Some None
    \<and> \<not> (case tc_services t (st_Slug s) of Some (Some service) \<Rightarrow> Stopping service | _ \<Rightarrow> False)")
  case False
  then have "t' = t" "h' = h" using res by (auto simp: claimStream_def split: option.splits if_splits)
  with held show ?thesis by simp
next
  case True
  obtain err k where put: "api_PutWithSession (api i) (StreamTranscoderPath (st_Slug s)) (tc_name t) (hs_store h) = (err, k)" by fastforce
  note g = put_grows [OF locks put]
  have held': "claims_held api owner lost i t k" by (rule claims_held_grows [OF held g(1)])
  show ?thesis
  proof (cases "err = None")
    case False
    then have "t' = t" "hs_store h' = k" using res True put by (auto simp: claimStream_def Let_def split: option.splits)
    with held' g(1) show ?thesis by simp
  next
    case None: True
    show ?thesis
    proof (cases "tc_services t (st_Slug s)")
      case None
      let ?x = "case createService (api i) (cc_connErr ch) t s of Inl _ \<Rightarrow> None | Inr sv \<Rightarrow> Some sv"
      let ?t = "t\<lparr>tc_services := (tc_services t)(st_Slug s \<mapsto> ?x)\<rparr>"
      have st: "startService (api i) js (cc_connErr ch) s t (h\<lparr>hs_store := k\<rparr>) = (t', h')"
        using res True put \<open>err = None\<close> None by (simp add: claimStream_def Let_def)
      then have t': "t' = ?t" and h': "h' = snd (publishStatus (api i) js ?t (h\<lparr>hs_store := k\<rparr>))"
        by (auto simp: startService_def Let_def)
      have held_new: "claims_held api owner lost i ?t k"
        by (rule claims_held_upd [OF held'])
           (use slug g(2) \<open>err = None\<close> in \<open>auto simp: createService_def NewService_def cleans_def split: option.splits sum.splits\<close>)
      have more: "grows owner k (hs_store h')"
        using publishStatus_grows [OF locks, of i js ?t "h\<lparr>hs_store := k\<rparr>"] h' by (cases "publishStatus (api i) js ?t (h\<lparr>hs_store := k\<rparr>)") simp
      show ?thesis unfolding t' using claims_held_grows [OF held_new more] grows_trans [OF g(1) more] by (rule conjI)
    next
      case (Some x)
      with True obtain sv where sv: "tc_services t (st_Slug s) = Some (Some sv)" "\<not> Stopping sv" by (cases x) auto
      obtain sv' h2 where r: "Restart (cc_write ch) (templateConfig t s) sv (h\<lparr>hs_store := k\<rparr>) = (sv', h2)" by fastforce
      have "t' = t\<lparr>tc_services := (tc_services t)(st_Slug s \<mapsto> Some sv')\<rparr>" "h' = h2"
        using res True put \<open>err = None\<close> sv r by (auto simp: claimStream_def Let_def)
      moreover have "hs_store h2 = k" "sv_phase sv' = sv_phase sv" "cleans (api i) (st_Slug s) sv' = cleans (api i) (st_Slug s) sv"
        using r sv(2) by (auto simp: Restart_def Service_start_def deployConfig_def send_call_def cleans_def Let_def split: if_splits)
      moreover have "sv_phase sv \<noteq> Finished \<Longrightarrow> cleans (api i) (st_Slug s) sv" using held sv(1) by (simp add: claims_held_def)
      ultimately show ?thesis
        using claims_held_upd [OF held', of "Some (Some sv')" "st_Slug s"] slug g \<open>err = None\<close> by simp
    qed
  qed
qed

section \<open>Every act of a transcoder\<close>

lemma handleStream_claims:
  assumes "Transcoder_handleStream api js ch u (t, h) = Inr (t', h')"
  shows "t' = follow js u t \<and> h' = h \<or>
    (\<exists>s key. tc_streams (follow js u t) key = Some s \<and> claimStream api js ch s (follow js u t, h) = Inr (t', h'))"
proof (cases "wu_KV u")
  case None
  with assms show ?thesis by (simp add: Transcoder_handleStream_def follow_def)
next
  case (Some kv)
  with assms show ?thesis
    by (cases "wu_Type u"; cases "PathIsStream (kv_Key kv)"; cases "PathIsStreamTranscoder (kv_Key kv)")
       (auto simp: Transcoder_handleStream_def Transcoder_handleStreamUpdate_def Transcoder_handleStreamTranscoder_def follow_def Let_def
         split: if_splits sum.splits option.splits)
qed

lemma plain_follow:
  assumes "Transcoder_handleStream api js ch u (t, h) = Inr (t', h')" "plain_streams t'"
  shows "plain_streams (follow js u t)"
proof -
  from assms(1) obtain slug where "claim_effect (cc_transcoders ch) slug (follow js u t) t'" using handleStream_effect by blast
  with assms(2) show ?thesis by (simp add: plain_streams_def claim_effect_frame(4))
qed

lemma tickService_held:
  assumes "session_locks api expire owner" "claims_held api owner lost i t (hs_store h)" "tickService (api i) js key (t, h) = Inr (t', h')"
  shows "claims_held api owner lost i t' (hs_store h') \<and> grows owner (hs_store h) (hs_store h') \<and> tc_streams t' = tc_streams t"
proof (cases "tc_services t key")
  case None
  with assms(2,3) show ?thesis by (simp add: tickService_def)
next
  case (Some x)
  with assms(3) obtain sv where sv: "tc_services t key = Some (Some sv)" by (cases x) (auto simp: tickService_def)
  define t1 where "t1 = (if Stopped sv then t\<lparr>tc_services := (tc_services t)(key := None)\<rparr> else t)"
  define h1 where "h1 = (if Stopped sv then snd (publishStatus (api i) js t1 h) else h)"
  have res: "h' = h1" "t' = t1 \<or> t' = t1\<lparr>tc_services := (tc_services t1)(key := if Stopped sv then None else Some (Some (Service_Stop sv)))\<rparr>"
    using assms(3) sv by (auto simp: tickService_def t1_def h1_def Let_def split: if_splits)
  have g: "grows owner (hs_store h) (hs_store h1)"
    using publishStatus_grows [OF assms(1), of i js t1 h] by (cases "publishStatus (api i) js t1 h") (auto simp: h1_def)
  have held: "claims_held api owner lost i t (hs_store h1)" by (rule claims_held_grows [OF assms(2) g])
  then have t1: "claims_held api owner lost i t1 (hs_store h1)" by (auto simp: t1_def intro: claims_held_upd)
  have "claims_held api owner lost i (t1\<lparr>tc_services := (tc_services t1)(key := if Stopped sv then None else Some (Some (Service_Stop sv)))\<rparr>) (hs_store h1)"
    by (rule claims_held_upd [OF t1]) (use held sv in \<open>auto simp: claims_held_def Service_Stop_def cleans_def split: if_splits\<close>)
  with res t1 g show ?thesis by (auto simp: t1_def)
qed

text \<open>Acts other than those of a service's goroutine take no key from anybody.\<close>

definition act_ok :: "('i \<Rightarrow> 'k kv_api) \<Rightarrow> ('k \<Rightarrow> string \<rightharpoonup> 'i) \<Rightarrow> string set \<Rightarrow> 'i \<Rightarrow> 'k \<Rightarrow> 'k Transcoder \<times> 'k host \<Rightarrow> bool" where
  "act_ok api owner lost i k th \<longleftrightarrow> claims_held api owner lost i (fst th) (hs_store (snd th)) \<and> plain_streams (fst th) \<and> grows owner k (hs_store (snd th))"

lemma act_ok_claim:
  assumes "session_locks api expire owner" "act_ok api owner lost i k (t, h)" "tc_streams t key = Some s" "claimStream (api i) js ch s (t, h) = Inr (t', h')"
  shows "act_ok api owner lost i k (t', h')"
proof -
  have s: "plain_elem (st_Slug s)" using assms(2,3) by (simp add: act_ok_def plain_streams_def)
  have "tc_streams t' = tc_streams t" by (rule claim_effect_frame(4) [OF claimStream_effect [OF assms(4)]])
  with claimStream_held [OF assms(1) s _ assms(4)] assms(2) show ?thesis
    by (auto simp: act_ok_def plain_streams_def intro: grows_trans)
qed

lemma tick_act_ok:
  assumes "session_locks (api :: 'i \<Rightarrow> 'k kv_api) expire owner" "act_ok api owner lost i k th" "Transcoder_tick (api i) js ks ys ss chs th = Inr th'"
  shows "act_ok api owner lost i k th'"
proof (rule tick_keeps_state [where P = "act_ok api owner lost i k", OF assms(3,2)])
  fix a b :: "'k Transcoder \<times> 'k host" and key
  assume a: "act_ok api owner lost i k a"
  obtain t h t' h' where ab: "a = (t, h)" "b = (t', h')" by (metis surj_pair)
  show "act_ok api owner lost i k b" if "tickService (api i) js key a = Inr b"
    using tickService_held [OF assms(1), of lost i t h js key t' h'] that a ab
    by (auto simp: act_ok_def plain_streams_def intro: grows_trans)
  show "act_ok api owner lost i k b" if "tickStream (api i) js chs key a = Inr b"
    using that a ab act_ok_claim [OF assms(1), of lost i k t h key] by (auto simp: tickStream_def split: option.splits if_splits)
qed

section \<open>The fleet\<close>

text \<open>The transcoders with their hosts, and the store they share: the store in a host is not looked at.\<close>

text \<open>In a step the transcoder hears only of streams whose names are single path elements; the sources choose
  the names and nobody checks them.

  \<open>lost\<close> records the streams that a client was transcoding when its session expired. \<open>expire i\<close> is what
  Consul does to the store at the end of the session of \<open>i\<close>; the client gets a new one (\<open>renewSession\<close>).\<close>

type_synonym ('i, 'k) fleet = "('i \<Rightarrow> 'k Transcoder \<times> 'k host) \<times> 'k \<times> string set"

definition transcoding :: "'k Transcoder \<Rightarrow> string set" where
  "transcoding t = {slug. \<exists>sv. tc_services t slug = Some (Some sv) \<and> sv_phase sv \<noteq> Finished}"

inductive fleet_step :: "('i \<Rightarrow> 'k kv_api) \<Rightarrow> ('i \<Rightarrow> 'k \<Rightarrow> 'k) \<Rightarrow> codec \<Rightarrow> ('i, 'k) fleet \<Rightarrow> ('i, 'k) fleet \<Rightarrow> bool"
  for api expire js where
  act: "ts i = (t, h) \<Longrightarrow> transcoder_act (api i) js (\<lambda>_. True) (t, h\<lparr>hs_store := k\<rparr>) (t', h') \<Longrightarrow> plain_streams t' \<Longrightarrow>
   fleet_step api expire js (ts, k, lost) (ts(i := (t', h')), hs_store h', lost)"
| session_end: "fleet_step api expire js (ts, k, lost) (ts, expire i k, lost \<union> transcoding (fst (ts i)))"

inductive fleet_reach :: "('i \<Rightarrow> 'k kv_api) \<Rightarrow> ('i \<Rightarrow> 'k \<Rightarrow> 'k) \<Rightarrow> codec \<Rightarrow> ('i, 'k) fleet \<Rightarrow> ('i, 'k) fleet \<Rightarrow> bool"
  for api expire js first where
  here: "fleet_reach api expire js first first"
| step: "fleet_reach api expire js first s \<Longrightarrow> fleet_step api expire js s s' \<Longrightarrow> fleet_reach api expire js first s'"

definition fleet_start :: "('i \<Rightarrow> TranscodeConfig \<times> string) \<Rightarrow> ('i \<Rightarrow> 'k host) \<Rightarrow> 'k \<Rightarrow> ('i, 'k) fleet" where
  "fleet_start conf hosts k = ((\<lambda>i. (Transcoder_New (fst (conf i)) (snd (conf i)), hosts i)), k, {})"

definition fleet_ok :: "('i \<Rightarrow> 'k kv_api) \<Rightarrow> ('k \<Rightarrow> string \<rightharpoonup> 'i) \<Rightarrow> ('i, 'k) fleet \<Rightarrow> bool" where
  "fleet_ok api owner s \<longleftrightarrow>
     (case s of (ts, k, lost) \<Rightarrow> \<forall>i. claims_held api owner lost i (fst (ts i)) k \<and> plain_streams (fst (ts i)))"

text \<open>The end of the session of \<open>i\<close> takes only its keys.\<close>

lemma claims_held_expire:
  assumes "session_locks api expire owner" "claims_held api owner lost j t k"
  shows "claims_held api owner (lost \<union> (if j = i then transcoding t else x)) j t (expire i k)"
proof -
  have "owner (expire i k) = (\<lambda>key. if owner k key = Some i then None else owner k key)"
    using assms(1) by (simp add: session_locks_def)
  with assms(2) show ?thesis by (auto simp: claims_held_def transcoding_def)
qed

text \<open>The end of a service takes one key, its own.\<close>

lemma service_runs_owner:
  assumes "session_locks api expire owner" "claims_held api owner lost i t (hs_store h)" "tc_services t slug = Some (Some sv)" "service_runs (sv, h) (sv', h')"
  shows "(hs_store h' = hs_store h \<and> (sv_phase sv' \<noteq> Finished \<longrightarrow> sv_phase sv \<noteq> Finished) \<and> sv_conf sv' = sv_conf sv)
    \<or> (sv_phase sv' = Finished \<and> plain_elem slug \<and> (slug \<notin> lost \<longrightarrow> owner (hs_store h) (StreamTranscoderPath slug) = Some i)
        \<and> (owner (hs_store h') = (owner (hs_store h))(StreamTranscoderPath slug := None) \<or> owner (hs_store h') = owner (hs_store h)))"
  using assms(4)
proof (cases rule: service_runs.cases)
  case (1 wr)
  then show ?thesis by (auto simp: Run_start_def Service_start_def deployConfig_def send_call_def Let_def split: if_splits)
next
  case (2 listed)
  have "hs_store (fold (restartFailed sv) us g) = hs_store g" for us g
    by (induction us arbitrary: g) (simp_all add: restartFailed_def send_call_def)
  with 2 show ?thesis by (auto simp: syncUnitState_def send_call_def)
next
  case (3 ok)
  have own: "plain_elem slug" "slug \<notin> lost \<longrightarrow> owner (hs_store h) (StreamTranscoderPath slug) = Some i" "cleans (api i) slug sv"
    using assms(2,3) 3(2) by (auto simp: claims_held_def)
  have "hs_store h' = snd (api_Delete (api i) (StreamTranscoderPath slug) (hs_store h))"
    using 3(1) own(3) by (auto simp: Run_end_def Service_stop_def removeConfig_def send_call_def cleans_def Let_def)
  then have "owner (hs_store h') = (owner (hs_store h))(StreamTranscoderPath slug := None) \<or> owner (hs_store h') = owner (hs_store h)"
    using delete_owner [OF assms(1)] by simp
  with own 3 show ?thesis by (auto simp: Run_end_def)
qed

lemma StreamTranscoderPath_inj: "plain_elem a \<Longrightarrow> plain_elem b \<Longrightarrow> StreamTranscoderPath a = StreamTranscoderPath b \<longleftrightarrow> a = b"
  using key_parts(2) by (metis list.inject)

text \<open>What is left of a transcoder's claims when the end of a service of \<open>i\<close> for \<open>slug\<close> has freed its key.\<close>

lemma claims_held_freed:
  assumes "claims_held api owner lost j t k" "slug \<notin> lost \<longrightarrow> owner k (StreamTranscoderPath slug) = Some i" "plain_elem slug"
    and "owner k' = (owner k)(StreamTranscoderPath slug := None) \<or> owner k' = owner k"
    and "j = i \<Longrightarrow> (\<forall>sv. tc_services t slug = Some (Some sv) \<longrightarrow> sv_phase sv = Finished)"
  shows "claims_held api owner lost j t k'"
  unfolding claims_held_def
proof (intro allI impI)
  fix x sv
  assume sv: "tc_services t x = Some (Some sv)" "sv_phase sv \<noteq> Finished"
  then have x: "plain_elem x" "x \<notin> lost \<Longrightarrow> owner k (StreamTranscoderPath x) = Some j" "cleans (api j) x sv"
    using assms(1) by (auto simp: claims_held_def)
  have "StreamTranscoderPath x \<noteq> StreamTranscoderPath slug" if "x \<notin> lost"
  proof
    assume same: "StreamTranscoderPath x = StreamTranscoderPath slug"
    then have "x = slug" using x(1) assms(3) StreamTranscoderPath_inj by blast
    then have "j = i" using x(2) assms(2) that by simp
    with \<open>x = slug\<close> sv assms(5) show False by blast
  qed
  with x assms(4) show "plain_elem x \<and> (x \<notin> lost \<longrightarrow> owner k' (StreamTranscoderPath x) = Some j) \<and> cleans (api j) x sv" by auto
qed

lemma act_ok_keeps:
  assumes "act_ok api owner lost i (hs_store h) (t', h')"
  shows "plain_streams t' \<and> claims_held api owner lost i t' (hs_store h')
    \<and> (\<forall>j u. j \<noteq> i \<longrightarrow> claims_held api owner lost j u (hs_store h) \<longrightarrow> claims_held api owner lost j u (hs_store h'))"
  using assms claims_held_grows by (auto simp: act_ok_def)

lemma service_keeps:
  assumes "session_locks api expire owner" "claims_held api owner lost i t (hs_store h)" "tc_services t slug = Some (Some sv)" "service_runs (sv, h) (sv', h')"
  shows "claims_held api owner lost i (t\<lparr>tc_services := (tc_services t)(slug \<mapsto> Some sv')\<rparr>) (hs_store h')
    \<and> (\<forall>j u. j \<noteq> i \<longrightarrow> claims_held api owner lost j u (hs_store h) \<longrightarrow> claims_held api owner lost j u (hs_store h'))"
  using service_runs_owner [OF assms]
proof (elim disjE)
  assume same: "hs_store h' = hs_store h \<and> (sv_phase sv' \<noteq> Finished \<longrightarrow> sv_phase sv \<noteq> Finished) \<and> sv_conf sv' = sv_conf sv"
  have "claims_held api owner lost i (t\<lparr>tc_services := (tc_services t)(slug \<mapsto> Some sv')\<rparr>) (hs_store h)"
    by (rule claims_held_upd [OF assms(2)]) (use assms(2,3) same in \<open>auto simp: claims_held_def cleans_def\<close>)
  with same show ?thesis by simp
next
  assume ends: "sv_phase sv' = Finished \<and> plain_elem slug \<and> (slug \<notin> lost \<longrightarrow> owner (hs_store h) (StreamTranscoderPath slug) = Some i)
      \<and> (owner (hs_store h') = (owner (hs_store h))(StreamTranscoderPath slug := None) \<or> owner (hs_store h') = owner (hs_store h))"
  let ?t = "t\<lparr>tc_services := (tc_services t)(slug \<mapsto> Some sv')\<rparr>"
  have "claims_held api owner lost i ?t (hs_store h)" by (rule claims_held_upd [OF assms(2)]) (use ends in simp)
  then have "claims_held api owner lost i ?t (hs_store h')" by (rule claims_held_freed [where slug = slug and i = i]) (use ends in auto)
  moreover have "claims_held api owner lost j u (hs_store h')" if "j \<noteq> i" "claims_held api owner lost j u (hs_store h)" for j u
    using that(2) by (rule claims_held_freed [where slug = slug and i = i]) (use ends that(1) in auto)
  ultimately show ?thesis by blast
qed

lemma transcoder_act_keeps:
  assumes "session_locks api expire owner" "plain_streams t'" "claims_held api owner lost i t (hs_store h)" "plain_streams t"
    and "transcoder_act (api i) js seen (t, h) (t', h')"
  shows "plain_streams t' \<and> claims_held api owner lost i t' (hs_store h')
    \<and> (\<forall>j u. j \<noteq> i \<longrightarrow> claims_held api owner lost j u (hs_store h) \<longrightarrow> claims_held api owner lost j u (hs_store h'))"
  using assms(5)
proof (cases rule: transcoder_act.cases)
  case (transcoder_update u)
  have "tc_services t' = tc_services t" "tc_streams t' = tc_streams t"
    using transcoder_update by (auto simp: handleTranscoder_def split: option.splits prod.splits UpdateType.splits sum.splits)
  with assms(3,4) transcoder_update show ?thesis by (simp add: claims_held_def plain_streams_def)
next
  case (stream_update ch u)
  have ok: "act_ok api owner lost i (hs_store h) (follow js u t, h)"
    using assms(3) plain_follow [OF stream_update(2) assms(2)] claims_held_services [of "follow js u t" t api owner lost i "hs_store h"] by (simp add: act_ok_def)
  have "act_ok api owner lost i (hs_store h) (t', h')"
    using handleStream_claims [OF stream_update(2)] ok act_ok_claim [OF assms(1) ok] by blast
  then show ?thesis by (rule act_ok_keeps)
next
  case (ticked ks ss ys chs)
  have "act_ok api owner lost i (hs_store h) (t, h)" using assms(3,4) by (simp add: act_ok_def)
  from tick_act_ok [OF assms(1) this ticked(5)] show ?thesis by (rule act_ok_keeps)
next
  case (service slug sv sv')
  with service_keeps [OF assms(1,3) service(2,3)] assms(4) show ?thesis by (simp add: plain_streams_def)
qed

lemma claims_held_mono: "claims_held api owner lost i t k \<Longrightarrow> lost \<subseteq> lost' \<Longrightarrow> claims_held api owner lost' i t k"
  by (auto simp: claims_held_def)

lemma fleet_step_ok:
  assumes "session_locks api expire owner" "fleet_step api expire js s s'" "fleet_ok api owner s"
  shows "fleet_ok api owner s'"
  using assms(2)
proof (cases rule: fleet_step.cases)
  case (act ts i t h k t' h' lost)
  have i: "claims_held api owner lost i t (hs_store (h\<lparr>hs_store := k\<rparr>))" "plain_streams t"
    using assms(3) act(1,3) by (auto simp: fleet_ok_def dest: spec [of _ i])
  have others: "claims_held api owner lost j (fst (ts j)) (hs_store (h\<lparr>hs_store := k\<rparr>))" "plain_streams (fst (ts j))" for j
    using assms(3) act(1) by (auto simp: fleet_ok_def)
  from transcoder_act_keeps [OF assms(1) act(5) i act(4)] others act(2) show ?thesis by (simp add: fleet_ok_def)
next
  case (session_end ts k lost i)
  have "claims_held api owner (lost \<union> transcoding (fst (ts i))) j (fst (ts j)) (expire i k)" for j
    using claims_held_expire [OF assms(1), of lost j "fst (ts j)" k i "transcoding (fst (ts i))"] assms(3) session_end(1)
    by (auto simp: fleet_ok_def split: if_splits)
  with assms(3) session_end show ?thesis by (simp add: fleet_ok_def)
qed

lemma fleet_reach_ok:
  assumes "session_locks api expire owner" "fleet_reach api expire js (fleet_start conf hosts k) s"
  shows "fleet_ok api owner s"
  using assms(2)
proof (induction rule: fleet_reach.induct)
  case here
  show ?case by (simp add: fleet_ok_def fleet_start_def claims_held_def plain_streams_def Transcoder_New_def)
next
  case (step s s')
  with fleet_step_ok [OF assms(1)] show ?case by blast
qed

section \<open>Properties\<close>

text \<open>C20. Two transcoders never transcode the same stream, even when sessions expire, unless the session of
  a transcoder expired while it was transcoding that very stream: in every state that transcoders can
  reach from the start, whatever updates they get and however their acts and the ends of sessions
  interleave, every other stream has a service that has not ended on at most one transcoder, and that
  one owns the claim on the stream in the store.\<close>

theorem one_transcoder_per_stream:
  assumes "session_locks api expire owner" "fleet_reach api expire js (fleet_start conf hosts k) (ts, k', lost)"
    and "slug \<notin> lost" "tc_services (fst (ts i)) slug = Some (Some a)" "sv_phase a \<noteq> Finished"
  shows "owner k' (StreamTranscoderPath slug) = Some i
    \<and> (\<forall>j b. tc_services (fst (ts j)) slug = Some (Some b) \<and> sv_phase b \<noteq> Finished \<longrightarrow> j = i)"
proof -
  have "claims_held api owner lost j (fst (ts j)) k'" for j
    using fleet_reach_ok [OF assms(1,2)] by (simp add: fleet_ok_def)
  then have own: "owner k' (StreamTranscoderPath slug) = Some j" if "tc_services (fst (ts j)) slug = Some (Some b)" "sv_phase b \<noteq> Finished" for j b
    using that assms(3) by (auto simp: claims_held_def)
  show ?thesis
  proof (intro conjI allI impI)
    show "owner k' (StreamTranscoderPath slug) = Some i" by (rule own [OF assms(4,5)])
    show "j = i" if "tc_services (fst (ts j)) slug = Some (Some b) \<and> sv_phase b \<noteq> Finished" for j b
      using own [OF assms(4,5)] own [of j b] that by simp
  qed
qed

text \<open>A store with locks, as Consul's: a client acquires a key that is free or its own. The client of
  theory \<open>Client\<close> over it keeps the law.\<close>

definition lock_acquire :: "KVPair \<Rightarrow> string \<Rightarrow> (string \<rightharpoonup> string) \<Rightarrow> (bool \<times> string option) \<times> (string \<rightharpoonup> string)" where
  "lock_acquire kv session k =
     (if k (kv_Key kv) = None \<or> k (kv_Key kv) = Some session then ((True, None), k(kv_Key kv \<mapsto> session)) else ((False, None), k))"

definition lock_api :: "string \<Rightarrow> (string \<rightharpoonup> string) kv_api" where
  "lock_api session = \<lparr>api_PutWithSession = PutWithSession lock_acquire session,
     api_Delete = Client_Delete (\<lambda>key k. (None, k(key := None)))\<rparr>"

definition lock_expire :: "string \<Rightarrow> (string \<rightharpoonup> string) \<Rightarrow> string \<rightharpoonup> string" where
  "lock_expire session k = (\<lambda>key. if k key = Some session then None else k key)"

lemma lock_api_locks: "session_locks lock_api lock_expire (\<lambda>k. k)"
  by (auto simp: session_locks_def lock_expire_def lock_api_def PutWithSession_def Client_Delete_def lock_acquire_def)

definition free_host :: "(string \<rightharpoonup> string) host" where
  "free_host = \<lparr>hs_files = Map.empty, hs_calls = [], hs_store = Map.empty\<rparr>"

definition fleet_conf :: "string \<Rightarrow> TranscodeConfig \<times> string" where
  "fleet_conf i = (\<lparr>tf_Enable = True, tf_Capacity = 2, tf_ConfigPath = ''/etc/transcode'', tf_Sink = ''sink''\<rparr>, i)"

lemma fleet_reach_trans: "fleet_reach api expire js s' s'' \<Longrightarrow> fleet_reach api expire js s s' \<Longrightarrow> fleet_reach api expire js s s''"
  by (induction rule: fleet_reach.induct) (auto intro: fleet_reach.step)

text \<open>A transcoder that has heard of itself and then of a stream nobody owns claims it.\<close>

lemma demo_hears:
  assumes "i \<in> {''t1'', ''t2''}"
  shows "handleTranscoder demo_js (put_update \<lparr>kv_Key = ''transcoders/'' @ i, kv_Value = i\<rparr>) (Transcoder_New conf i)
    = (Transcoder_New conf i)\<lparr>tc_transcoders := [i \<mapsto> demo_status i 0]\<rparr>"
  using assms by (auto simp: handleTranscoder_def put_update_def ParseTranscoderName_def demo_js_def Transcoder_New_def)

lemma demo_claims:
  assumes "i \<in> {''t1'', ''t2''}" "hs_store h (StreamTranscoderPath ''s1'') = None"
  defines "t \<equiv> (Transcoder_New (fst (fleet_conf i)) i)\<lparr>tc_transcoders := [i \<mapsto> demo_status i 0]\<rparr>"
  shows "\<exists>t' h' a. Transcoder_handleStream (lock_api i) demo_js (demo_choice\<lparr>cc_transcoders := [demo_status i 0]\<rparr>)
       (put_update \<lparr>kv_Key = ''stream/s1'', kv_Value = ''s1''\<rparr>) (t, h) = Inr (t', h')
    \<and> tc_services t' ''s1'' = Some (Some a) \<and> sv_phase a = Created \<and> plain_streams t'"
proof -
  have "plain_elem ''s1''" by (simp add: plain_elem_def)
  with assms(2) show ?thesis
    by (simp add: t_def Transcoder_handleStream_def Transcoder_handleStreamUpdate_def claimStream_def
        startService_def shouldClaim_def createService_def NewService_def put_update_def ParseStreamName_def PathIsStream_def
        num_services_def fleet_conf_def Transcoder_New_def demo_js_def plain_streams_def lock_api_def PutWithSession_def lock_acquire_def
        demo_choice_def demo_status_def Let_def)
qed

lemma demo_reach:
  assumes "i \<in> {''t1'', ''t2''}" "ts i = (Transcoder_New (fst (fleet_conf i)) i, h)" "k (StreamTranscoderPath ''s1'') = None"
  shows "\<exists>t' h' a. fleet_reach lock_api lock_expire demo_js (ts, k, lost) (ts(i := (t', h')), hs_store h', lost)
    \<and> tc_services t' ''s1'' = Some (Some a) \<and> sv_phase a = Created"
proof -
  let ?t0 = "Transcoder_New (fst (fleet_conf i)) i :: (string \<rightharpoonup> string) Transcoder"
  let ?t1 = "?t0\<lparr>tc_transcoders := [i \<mapsto> demo_status i 0]\<rparr>" and ?h = "h\<lparr>hs_store := k\<rparr>"
  let ?ch = "demo_choice\<lparr>cc_transcoders := [demo_status i 0]\<rparr>"
  have "transcoder_act (lock_api i) demo_js (\<lambda>_. True) (?t0, ?h) (?t1, ?h)"
    using transcoder_act.transcoder_update [of "\<lambda>_. True" "put_update \<lparr>kv_Key = ''transcoders/'' @ i, kv_Value = i\<rparr>" "lock_api i" demo_js ?t0 ?h]
    unfolding demo_hears [OF assms(1)] by simp
  from fleet_step.act [where api = lock_api and expire = lock_expire and ts = ts and lost = lost, OF assms(2) this]
  have s1: "fleet_step lock_api lock_expire demo_js (ts, k, lost) (ts(i := (?t1, ?h)), k, lost)"
    by (simp add: plain_streams_def Transcoder_New_def)
  obtain t' h' a where c: "Transcoder_handleStream (lock_api i) demo_js ?ch (put_update \<lparr>kv_Key = ''stream/s1'', kv_Value = ''s1''\<rparr>) (?t1, ?h) = Inr (t', h')"
    "tc_services t' ''s1'' = Some (Some a)" "sv_phase a = Created" "plain_streams t'"
    using demo_claims [OF assms(1), of ?h] assms(3) by auto
  have "sorted_transcoders ?t1 (cc_transcoders ?ch)"
    unfolding sorted_transcoders_def by (rule exI [of _ "[i]"]) (simp add: range_order_def sort_outcome_def)
  from transcoder_act.stream_update [OF this c(1)]
  have "transcoder_act (lock_api i) demo_js (\<lambda>_. True) (?t1, ?h\<lparr>hs_store := k\<rparr>) (t', h')" by simp
  from fleet_step.act [where api = lock_api and expire = lock_expire and ts = "ts(i := (?t1, ?h))" and lost = lost and i = i, OF _ this c(4)]
  have s2: "fleet_step lock_api lock_expire demo_js (ts(i := (?t1, ?h)), k, lost) (ts(i := (t', h')), hs_store h', lost)" by simp
  show ?thesis using fleet_reach.step [OF fleet_reach.step [OF fleet_reach.here s1] s2] c(2,3) by blast
qed

theorem one_transcoder_per_stream_witness:
  "\<exists>ts k' a. fleet_reach lock_api lock_expire demo_js (fleet_start fleet_conf (\<lambda>_. free_host) Map.empty) (ts, k', {})
     \<and> tc_services (fst (ts ''t1'')) ''s1'' = Some (Some a) \<and> k' (StreamTranscoderPath ''s1'') = Some ''t1''"
proof -
  let ?s0 = "fleet_start fleet_conf (\<lambda>_. free_host) Map.empty"
  obtain t h a where r: "fleet_reach lock_api lock_expire demo_js ?s0 ((fst ?s0)(''t1'' := (t, h)), hs_store h, {})"
    and a: "tc_services t ''s1'' = Some (Some a)" "sv_phase a = Created"
    using demo_reach [of "''t1''" "fst ?s0" free_host Map.empty "{}"] by (auto simp: fleet_start_def fleet_conf_def)
  from one_transcoder_per_stream [OF lock_api_locks r, of "''s1''" "''t1''" a] r a show ?thesis
    by (intro exI [of _ "(fst ?s0)(''t1'' := (t, h))"] exI [of _ "hs_store h"] exI [of _ a]) simp
qed

text \<open>When the session of a transcoder expires while it transcodes a stream, another one claims the stream,
  and both transcode it: the first never stops a service because it lost the claim.\<close>

lemma expired_session_doubles:
  "\<exists>ts k' lost a b. fleet_reach lock_api lock_expire demo_js (fleet_start fleet_conf (\<lambda>_. free_host) Map.empty) (ts, k', lost)
     \<and> tc_services (fst (ts ''t1'')) ''s1'' = Some (Some a) \<and> sv_phase a \<noteq> Finished
     \<and> tc_services (fst (ts ''t2'')) ''s1'' = Some (Some b) \<and> sv_phase b \<noteq> Finished"
proof -
  let ?s0 = "fleet_start fleet_conf (\<lambda>_. free_host) Map.empty"
  obtain t h a where r1: "fleet_reach lock_api lock_expire demo_js ?s0 ((fst ?s0)(''t1'' := (t, h)), hs_store h, {})"
    and a: "tc_services t ''s1'' = Some (Some a)" "sv_phase a = Created"
    using demo_reach [of "''t1''" "fst ?s0" free_host Map.empty "{}"] by (auto simp: fleet_start_def fleet_conf_def)
  let ?ts = "(fst ?s0)(''t1'' := (t, h))" and ?k = "lock_expire ''t1'' (hs_store h)" and ?lost = "transcoding t"
  have own: "hs_store h (StreamTranscoderPath ''s1'') = Some ''t1''"
  proof -
    have "claims_held lock_api (\<lambda>k. k) {} ''t1'' t (hs_store h)"
      using fleet_reach_ok [OF lock_api_locks r1] by (auto simp: fleet_ok_def dest: spec [of _ "''t1''"])
    with a show ?thesis by (auto simp: claims_held_def)
  qed
  have "fleet_step lock_api lock_expire demo_js (?ts, hs_store h, {}) (?ts, ?k, {} \<union> transcoding (fst (?ts ''t1'')))"
    by (rule fleet_step.session_end)
  then have r2: "fleet_reach lock_api lock_expire demo_js ?s0 (?ts, ?k, ?lost)"
    using fleet_reach.step [OF r1] by simp
  have "?ts ''t2'' = (Transcoder_New (fst (fleet_conf ''t2'')) ''t2'', free_host)" by (simp add: fleet_start_def fleet_conf_def)
  then obtain t' h' b where r3: "fleet_reach lock_api lock_expire demo_js (?ts, ?k, ?lost) (?ts(''t2'' := (t', h')), hs_store h', ?lost)"
    and b: "tc_services t' ''s1'' = Some (Some b)" "sv_phase b = Created"
    using demo_reach [of "''t2''" ?ts free_host ?k ?lost] own by (auto simp: lock_expire_def)
  have "tc_services (fst ((?ts(''t2'' := (t', h'))) ''t1'')) ''s1'' = Some (Some a)"
    "tc_services (fst ((?ts(''t2'' := (t', h'))) ''t2'')) ''s1'' = Some (Some b)" "sv_phase a \<noteq> Finished" "sv_phase b \<noteq> Finished"
    using a b by auto
  with fleet_reach_trans [OF r3 r2] show ?thesis by blast
qed

text \<open>The clean-up of a service deletes the claim without looking at its owner: a service that ends after its
  transcoder lost the claim frees the claim of the one that transcodes the stream now.\<close>

lemma stale_end_frees_claim:
  assumes "session_locks api expire owner" "cleans (api i) slug sv"
    and "fst (api_Delete (api i) (StreamTranscoderPath slug) (hs_store h)) = None"
  shows "owner (hs_store (snd (Run_end ok sv h))) (StreamTranscoderPath slug) = None"
proof -
  have "hs_store (snd (Run_end ok sv h)) = snd (api_Delete (api i) (StreamTranscoderPath slug) (hs_store h))"
    using assms(2) by (simp add: Run_end_def Service_stop_def removeConfig_def send_call_def cleans_def Let_def)
  with assms(1,3) show ?thesis by (simp add: session_locks_def)
qed

end
