(* ===== verification/Monitor.thy ===== *)
theory Monitor
  imports TranscodeCorrect
begin

text \<open>
  Package \<open>monitor\<close>: a watcher copies the transcoders, streams and claims of the store (\<open>watcher.go\<close>), a
  server passes every change to its websocket clients (\<open>server.go\<close>), and handlers read and write the
  settings of streams (\<open>rest.go\<close>).

  A message is a map with one key; its value is a copy of one of the watcher's tables. The watcher sends
  messages on a channel of capacity one, so at most two are under way: one in the channel and one
  that the watcher waits to send. Clients are identified by numbers, and a write to a client may fail. The
  goroutines of the clients and the routes are in theory \<open>HttpFront\<close>, the watcher's loop is in theory \<open>Loops\<close>. The
  websocket library and the served files are not modelled, nor is the shutdown of the HTTP server.
\<close>

section \<open>The watcher\<close>

record mon_watcher =
  mw_transcoders :: "string \<rightharpoonup> TranscoderStatus"
  mw_streams :: "string \<rightharpoonup> stream_Stream"
  mw_streamTranscoders :: "string \<rightharpoonup> string"

datatype mon_value = TranscodersValue "string \<rightharpoonup> TranscoderStatus" | StreamsValue "string \<rightharpoonup> stream_Stream" | ClaimsValue "string \<rightharpoonup> string"

type_synonym message = "string \<rightharpoonup> mon_value"

definition mon_newWatcher :: mon_watcher where
  "mon_newWatcher = \<lparr>mw_transcoders = Map.empty, mw_streams = Map.empty, mw_streamTranscoders = Map.empty\<rparr>"

definition sendUpdate :: "string \<Rightarrow> mon_value \<Rightarrow> message" where
  "sendUpdate key update = [key \<mapsto> update]"

text \<open>The handlers return the watcher and the message they send, if any.\<close>

definition mon_handleTranscoder :: "codec \<Rightarrow> WatchUpdate \<Rightarrow> mon_watcher \<Rightarrow> mon_watcher \<times> message option" where
  "mon_handleTranscoder js update w =
     (case wu_KV update of
        None \<Rightarrow> (w, None)
      | Some kv \<Rightarrow>
          let name = ParseServiceName (kv_Key kv)
          in if name = '''' then (w, None)
             else
               (case wu_Type update of
                  UpdateTypePut \<Rightarrow>
                    (case unmarshal_status js (kv_Value kv) of
                       Inl _ \<Rightarrow> (w, None)
                     | Inr status \<Rightarrow>
                         let w1 = w\<lparr>mw_transcoders := (mw_transcoders w)(name \<mapsto> status)\<rparr>
                         in (w1, Some (sendUpdate ''transcoders'' (TranscodersValue (mw_transcoders w1)))))
                | UpdateTypeDelete \<Rightarrow>
                    let w1 = w\<lparr>mw_transcoders := (mw_transcoders w)(name := None)\<rparr>
                    in (w1, Some (sendUpdate ''transcoders'' (TranscodersValue (mw_transcoders w1))))))"

definition mon_handleStreamUpdate :: "codec \<Rightarrow> string \<Rightarrow> WatchUpdate \<Rightarrow> KVPair \<Rightarrow> mon_watcher \<Rightarrow> mon_watcher \<times> message option" where
  "mon_handleStreamUpdate js key update kv w =
     (case wu_Type update of
        UpdateTypePut \<Rightarrow>
          (case unmarshal_stream js (kv_Value kv) of
             Inl _ \<Rightarrow> (w, None)
           | Inr str \<Rightarrow>
               let w1 = w\<lparr>mw_streams := (mw_streams w)(key \<mapsto> str)\<rparr>
               in (w1, Some (sendUpdate ''streams'' (StreamsValue (mw_streams w1)))))
      | UpdateTypeDelete \<Rightarrow>
          let w1 = w\<lparr>mw_streams := (mw_streams w)(key := None)\<rparr>
          in (w1, Some (sendUpdate ''streams'' (StreamsValue (mw_streams w1)))))"

definition mon_handleStreamTranscoder :: "string \<Rightarrow> WatchUpdate \<Rightarrow> KVPair \<Rightarrow> mon_watcher \<Rightarrow> mon_watcher \<times> message option" where
  "mon_handleStreamTranscoder key update kv w =
     (let w1 = w\<lparr>mw_streamTranscoders := (case wu_Type update of
                   UpdateTypePut \<Rightarrow> (mw_streamTranscoders w)(key \<mapsto> kv_Value kv)
                 | UpdateTypeDelete \<Rightarrow> (mw_streamTranscoders w)(key := None))\<rparr>
      in (w1, Some (sendUpdate ''streamTranscoders'' (ClaimsValue (mw_streamTranscoders w1)))))"

definition mon_handleStream :: "codec \<Rightarrow> WatchUpdate \<Rightarrow> mon_watcher \<Rightarrow> mon_watcher \<times> message option" where
  "mon_handleStream js update w =
     (case wu_KV update of
        None \<Rightarrow> (w, None)
      | Some kv \<Rightarrow>
          let path = kv_Key kv; name = ParseStreamName path
          in if name = '''' then (w, None)
             else if PathIsStream path then mon_handleStreamUpdate js name update kv w
             else if PathIsStreamTranscoder path then mon_handleStreamTranscoder name update kv w
             else (w, None))"

section \<open>The server\<close>

record mon_server =
  ms_state :: message
  ms_clients :: "nat list"
  ms_writes :: "(nat \<times> message \<times> bool) list"

definition newServer :: mon_server where
  "newServer = \<lparr>ms_state = Map.empty, ms_clients = [], ms_writes = []\<rparr>"

text \<open>The branches of the server's loop; \<open>fails\<close> tells the clients to whom a write fails, \<open>order\<close> is an
  order on the clients.\<close>

definition broadcast :: "(nat \<Rightarrow> bool) \<Rightarrow> nat list \<Rightarrow> message \<Rightarrow> mon_server \<Rightarrow> mon_server" where
  "broadcast fails order v s = s\<lparr>ms_writes := ms_writes s @ map (\<lambda>ws. (ws, v, \<not> fails ws)) order\<rparr>"

definition server_add :: "(nat \<Rightarrow> bool) \<Rightarrow> nat \<Rightarrow> mon_server \<Rightarrow> mon_server" where
  "server_add fails ws s = s\<lparr>ms_writes := ms_writes s @ [(ws, ms_state s, \<not> fails ws)], ms_clients := List.insert ws (ms_clients s)\<rparr>"

definition server_remove :: "nat \<Rightarrow> mon_server \<Rightarrow> mon_server" where
  "server_remove ws s = s\<lparr>ms_clients := removeAll ws (ms_clients s)\<rparr>"

definition server_update :: "(nat \<Rightarrow> bool) \<Rightarrow> nat list \<Rightarrow> message \<Rightarrow> mon_server \<Rightarrow> mon_server" where
  "server_update fails order update s = broadcast fails order update (s\<lparr>ms_state := ms_state s ++ update\<rparr>)"

section \<open>The settings of streams\<close>

text \<open>A reply: the status, and the body or the values encoded into it.\<close>

datatype reply = Reply nat string | SettingsReply "Settings list"

definition maxBody :: nat where "maxBody = 1048576"

definition decodeJSON :: "(string \<Rightarrow> string + 'a) \<Rightarrow> string + string \<Rightarrow> string + 'a" where
  "decodeJSON unmarshal body =
     (case body of
        Inl e \<Rightarrow> Inl e
      | Inr data \<Rightarrow>
          let content = take maxBody data
          in if content = [] then Inl ''empty payload'' else unmarshal content)"

text \<open>\<open>HandleGetAllStreamSettings\<close> decodes every value into one variable, so \<open>unmarshal_into\<close> gets what the values before have left
  there; it may change it even if it fails.\<close>

fun decode_fields :: "(string \<Rightarrow> Settings \<Rightarrow> string option \<times> Settings) \<Rightarrow> Settings \<Rightarrow> (string \<times> string) list \<Rightarrow> Settings list" where
  "decode_fields unmarshal_into tmp [] = []"
| "decode_fields unmarshal_into tmp ((key, val) # data) =
     (case unmarshal_into val tmp of
        (Some _, tmp1) \<Rightarrow> decode_fields unmarshal_into tmp1 data
      | (None, tmp1) \<Rightarrow> tmp1 # decode_fields unmarshal_into tmp1 data)"

definition zero_settings :: Settings where
  "zero_settings = \<lparr>se_Slug = [], se_IngestType = [], se_Secret = [], se_Public = False, se_Options = \<lparr>so_Passthrough = False\<rparr>\<rparr>"

text \<open>\<open>listKeys\<close>, \<open>get\<close> and \<open>put\<close> are Consul's. The path of the first route has no slug.\<close>

definition HandleGetAllStreamSettings :: "(string \<Rightarrow> 'k \<Rightarrow> string + KVPair list) \<Rightarrow> (string \<Rightarrow> Settings \<Rightarrow> string option \<times> Settings) \<Rightarrow> 'k \<Rightarrow> reply" where
  "HandleGetAllStreamSettings listKeys unmarshal_into k =
     (case GetWithPrefix listKeys (StreamSettingsPath []) k of
        Inl _ \<Rightarrow> Reply 200 []
      | Inr data \<Rightarrow> SettingsReply (decode_fields unmarshal_into zero_settings data))"

definition HandleGetStreamSettings :: "(string \<Rightarrow> 'k \<Rightarrow> string + KVPair option) \<Rightarrow> string \<Rightarrow> 'k \<Rightarrow> reply go" where
  "HandleGetStreamSettings get slug k =
     go_bind (Client_Get get (StreamSettingsPath slug) k) (\<lambda>res.
       case res of
         Inl _ \<Rightarrow> Inr (Reply 200 [])
       | Inr data \<Rightarrow> Inr (Reply 200 data))"

definition error_text :: "client_error \<Rightarrow> string" where
  "error_text e =
     (case e of
        AcquireFailed s \<Rightarrow> ''acquire failed: '' @ s
      | ErrAlreadyAquired key \<Rightarrow> ''key '' @ key @ '' already aquired''
      | ConsulError s \<Rightarrow> s
      | DeleteFailed s \<Rightarrow> ''delete failed: '' @ s)"

text \<open>After a failed \<open>json.Marshal\<close> the handler goes on with no data. The first status that is written is sent, and
  the texts follow each other.\<close>

definition HandleSetStreamSettings :: "(KVPair \<Rightarrow> 'k \<Rightarrow> string option \<times> 'k) \<Rightarrow> (string \<Rightarrow> string + Settings) \<Rightarrow> (Settings \<Rightarrow> string + string) \<Rightarrow>
    string + string \<Rightarrow> 'k \<Rightarrow> reply \<times> 'k" where
  "HandleSetStreamSettings put unmarshal marshal body k =
     (case decodeJSON unmarshal body of
        Inl e \<Rightarrow> (Reply 422 (''parse failed: '' @ e), k)
      | Inr settings \<Rightarrow>
          let (text, data) = (case marshal settings of
                                Inl e \<Rightarrow> (''marshal failed: '' @ e, [])
                              | Inr data \<Rightarrow> ([], data))
          in (case Client_Put put (StreamSettingsPath (se_Slug settings)) data k of
                (Some e, k1) \<Rightarrow> (Reply 500 (text @ ''put failed: '' @ error_text e), k1)
              | (None, k1) \<Rightarrow> (if text = [] then Reply 200 [] else Reply 500 text, k1)))"

section \<open>Runs\<close>

text \<open>\<open>mo_seen\<close> collects the stream updates that the watcher has handled.\<close>

record mon_world =
  mo_watcher :: mon_watcher
  mo_queue :: "message list"
  mo_server :: mon_server
  mo_seen :: "WatchUpdate list"

definition mon_start :: mon_world where
  "mon_start = \<lparr>mo_watcher = mon_newWatcher, mo_queue = [], mo_server = newServer, mo_seen = []\<rparr>"

inductive mon_step :: "codec \<Rightarrow> mon_world \<Rightarrow> mon_world \<Rightarrow> bool" for js where
  transcoder: "length (mo_queue w) \<le> 1 \<Longrightarrow> mon_handleTranscoder js u (mo_watcher w) = (w', m) \<Longrightarrow>
    mon_step js w (w\<lparr>mo_watcher := w', mo_queue := mo_queue w @ (case m of None \<Rightarrow> [] | Some x \<Rightarrow> [x])\<rparr>)"
| stream: "length (mo_queue w) \<le> 1 \<Longrightarrow> mon_handleStream js u (mo_watcher w) = (w', m) \<Longrightarrow>
    mon_step js w (w\<lparr>mo_watcher := w', mo_queue := mo_queue w @ (case m of None \<Rightarrow> [] | Some x \<Rightarrow> [x]), mo_seen := mo_seen w @ [u]\<rparr>)"
| add: "ws \<notin> set (ms_clients (mo_server w)) \<Longrightarrow> mon_step js w (w\<lparr>mo_server := server_add fails ws (mo_server w)\<rparr>)"
| remove: "mon_step js w (w\<lparr>mo_server := server_remove ws (mo_server w)\<rparr>)"
| update: "mo_queue w = m # rest \<Longrightarrow> distinct order \<Longrightarrow> set order = set (ms_clients (mo_server w)) \<Longrightarrow>
    mon_step js w (w\<lparr>mo_queue := rest, mo_server := server_update fails order m (mo_server w)\<rparr>)"

inductive mon_reach :: "codec \<Rightarrow> mon_world \<Rightarrow> bool" for js where
  start: "mon_reach js mon_start"
| step: "mon_reach js w \<Longrightarrow> mon_step js w w' \<Longrightarrow> mon_reach js w'"

inductive_cases mon_stepE: "mon_step js w w'"

section \<open>The watcher's tables are a copy of the store\<close>

definition mon_tables :: "mon_watcher \<Rightarrow> (string \<rightharpoonup> stream_Stream) \<times> (string \<rightharpoonup> string)" where
  "mon_tables w = (mw_streams w, mw_streamTranscoders w)"

text \<open>A stream update as a step on the two tables, whatever transcoders the watcher knows.\<close>

definition tables_step :: "codec \<Rightarrow> WatchUpdate \<Rightarrow> (string \<rightharpoonup> stream_Stream) \<times> (string \<rightharpoonup> string) \<Rightarrow>
    (string \<rightharpoonup> stream_Stream) \<times> (string \<rightharpoonup> string) \<Rightarrow> bool" where
  "tables_step js u t t' \<longleftrightarrow> (\<exists>w. mon_tables w = t \<and> mon_tables (fst (mon_handleStream js u w)) = t')"

lemmas mon_stream_defs = mon_handleStream_def mon_handleStreamUpdate_def mon_handleStreamTranscoder_def mon_tables_def Let_def

interpretation ms: watch_consumer "tables_step js" fst stream_name "decoded (unmarshal_stream js)" "\<lambda>_. True" for js
proof
  show "k = k'" if "stream_name k = Some n" "stream_name k' = Some n" for k k' n
    using that unfolding stream_name_iff by (metis join_split)
qed (use not_both in \<open>auto simp: tables_step_def mon_stream_defs put_update_def del_update_def stream_name_def split: if_splits sum.splits\<close>)

interpretation mc: watch_consumer "tables_step js" snd stream_transcoder_name Some "\<lambda>_. True" for js
proof
  show "k = k'" if "stream_transcoder_name k = Some n" "stream_transcoder_name k' = Some n" for k k' n
    using that unfolding stream_transcoder_name_iff by (metis join_split)
qed (use not_both in \<open>auto simp: tables_step_def mon_stream_defs put_update_def del_update_def stream_transcoder_name_def split: if_splits sum.splits\<close>)

section \<open>What clients see\<close>

text \<open>The messages a client has got, laid over each other in order.\<close>

definition client_view :: "nat \<Rightarrow> mon_server \<Rightarrow> message" where
  "client_view ws s = fold (\<lambda>m v. v ++ m) (map (fst \<circ> snd) (filter (\<lambda>(x, m, ok). x = ws \<and> ok) (ms_writes s))) Map.empty"

definition no_failed_write :: "nat \<Rightarrow> mon_server \<Rightarrow> bool" where
  "no_failed_write ws s \<longleftrightarrow> (\<forall>m. (ws, m, False) \<notin> set (ms_writes s))"

text \<open>A message shows the tables of a watcher: each table that is not empty, and no other content.\<close>

definition displays :: "message \<Rightarrow> mon_watcher \<Rightarrow> bool" where
  "displays m w \<longleftrightarrow>
     (m ''streams'' = Some (StreamsValue (mw_streams w)) \<or> m ''streams'' = None \<and> mw_streams w = Map.empty)
     \<and> (m ''streamTranscoders'' = Some (ClaimsValue (mw_streamTranscoders w)) \<or> m ''streamTranscoders'' = None \<and> mw_streamTranscoders w = Map.empty)
     \<and> (m ''transcoders'' = Some (TranscodersValue (mw_transcoders w)) \<or> m ''transcoders'' = None \<and> mw_transcoders w = Map.empty)"

definition after_queue :: "mon_world \<Rightarrow> message" where
  "after_queue w = fold (\<lambda>m v. v ++ m) (mo_queue w) (ms_state (mo_server w))"

definition clients_ok :: "mon_server \<Rightarrow> bool" where
  "clients_ok s \<longleftrightarrow> (\<forall>ws. dom (client_view ws s) \<subseteq> dom (ms_state s)
     \<and> (ws \<in> set (ms_clients s) \<longrightarrow> no_failed_write ws s \<longrightarrow> client_view ws s = ms_state s))"

definition mon_ok :: "codec \<Rightarrow> mon_world \<Rightarrow> bool" where
  "mon_ok js w \<longleftrightarrow> displays (after_queue w) (mo_watcher w) \<and> clients_ok (mo_server w)
     \<and> handles_all (tables_step js) (mo_seen w) (Map.empty, Map.empty) (mon_tables (mo_watcher w))"

lemma displays_sent:
  "displays v w \<Longrightarrow> displays (v ++ sendUpdate ''transcoders'' (TranscodersValue x)) (w\<lparr>mw_transcoders := x\<rparr>)"
  "displays v w \<Longrightarrow> displays (v ++ sendUpdate ''streams'' (StreamsValue y)) (w\<lparr>mw_streams := y\<rparr>)"
  "displays v w \<Longrightarrow> displays (v ++ sendUpdate ''streamTranscoders'' (ClaimsValue z)) (w\<lparr>mw_streamTranscoders := z\<rparr>)"
  by (simp_all add: displays_def sendUpdate_def)

lemma transcoder_shows:
  assumes "displays v w" "mon_handleTranscoder js u w = (w', m)"
  shows "displays (fold (\<lambda>m v. v ++ m) (case m of None \<Rightarrow> [] | Some x \<Rightarrow> [x]) v) w'" "mon_tables w' = mon_tables w"
proof -
  have "m = None \<and> w' = w \<or> (\<exists>x. m = Some (sendUpdate ''transcoders'' (TranscodersValue x)) \<and> w' = w\<lparr>mw_transcoders := x\<rparr>)"
    using assms(2) by (auto simp: mon_handleTranscoder_def Let_def split: option.splits if_splits UpdateType.splits sum.splits)
  then show "displays (fold (\<lambda>m v. v ++ m) (case m of None \<Rightarrow> [] | Some x \<Rightarrow> [x]) v) w'" "mon_tables w' = mon_tables w"
    using displays_sent(1) [OF assms(1)] assms(1) by (auto simp: mon_tables_def)
qed

lemma stream_shows:
  assumes "displays v w" "mon_handleStream js u w = (w', m)"
  shows "displays (fold (\<lambda>m v. v ++ m) (case m of None \<Rightarrow> [] | Some x \<Rightarrow> [x]) v) w'"
proof -
  have "m = None \<and> w' = w \<or> (\<exists>y. m = Some (sendUpdate ''streams'' (StreamsValue y)) \<and> w' = w\<lparr>mw_streams := y\<rparr>)
      \<or> (\<exists>z. m = Some (sendUpdate ''streamTranscoders'' (ClaimsValue z)) \<and> w' = w\<lparr>mw_streamTranscoders := z\<rparr>)"
    using assms(2) by (auto simp: mon_stream_defs split: option.splits if_splits UpdateType.splits sum.splits)
  then show ?thesis using displays_sent(2,3) [OF assms(1)] assms(1) by auto
qed

lemma client_view_append:
  "client_view ws (s\<lparr>ms_writes := ms_writes s @ ys\<rparr>)
    = fold (\<lambda>m v. v ++ m) (map (fst \<circ> snd) (filter (\<lambda>(x, m, ok). x = ws \<and> ok) ys)) (client_view ws s)"
  by (simp add: client_view_def)

lemma map_add_absorb: "dom a \<subseteq> dom b \<Longrightarrow> a ++ b = b"
  by (rule ext) (auto simp: map_add_def split: option.splits)

lemma add_ok:
  assumes "clients_ok s"
  shows "clients_ok (server_add fails ws s)"
proof -
  have v: "client_view x (server_add fails ws s) = (if x = ws \<and> \<not> fails ws then client_view x s ++ ms_state s else client_view x s)" for x
    by (auto simp: server_add_def client_view_def)
  have f: "no_failed_write x (server_add fails ws s) \<longleftrightarrow> no_failed_write x s \<and> \<not> (x = ws \<and> fails ws)" for x
    by (auto simp: server_add_def no_failed_write_def)
  have st: "ms_state (server_add fails ws s) = ms_state s" "set (ms_clients (server_add fails ws s)) = insert ws (set (ms_clients s))"
    by (simp_all add: server_add_def)
  have "dom (client_view x s) \<subseteq> dom (ms_state s)" for x using assms by (simp add: clients_ok_def)
  from map_add_absorb [OF this] have over: "client_view x s ++ ms_state s = ms_state s" for x .
  show ?thesis using assms unfolding clients_ok_def v f st over by auto
qed

lemma broadcast_view:
  assumes "distinct order" "set order = set (ms_clients s)"
  shows "client_view x (server_update fails order m s) = (if x \<in> set (ms_clients s) \<and> \<not> fails x then client_view x s ++ m else client_view x s)"
    "no_failed_write x (server_update fails order m s) \<longleftrightarrow> no_failed_write x s \<and> \<not> (x \<in> set (ms_clients s) \<and> fails x)"
proof -
  have "filter (\<lambda>(y, m, ok). y = x \<and> ok) (map (\<lambda>ws. (ws, m, \<not> fails ws)) order) = (if x \<in> set order \<and> \<not> fails x then [(x, m, True)] else [])"
    using assms(1) by (induction order) auto
  then show "client_view x (server_update fails order m s) = (if x \<in> set (ms_clients s) \<and> \<not> fails x then client_view x s ++ m else client_view x s)"
    using assms(2) by (simp add: server_update_def broadcast_def client_view_def)
  show "no_failed_write x (server_update fails order m s) \<longleftrightarrow> no_failed_write x s \<and> \<not> (x \<in> set (ms_clients s) \<and> fails x)"
    using assms(2) by (auto simp: server_update_def broadcast_def no_failed_write_def)
qed

lemma update_ok:
  assumes "clients_ok s" "distinct order" "set order = set (ms_clients s)"
  shows "clients_ok (server_update fails order m s)"
proof -
  note b = broadcast_view [OF assms(2,3)]
  have st: "ms_state (server_update fails order m s) = ms_state s ++ m" "ms_clients (server_update fails order m s) = ms_clients s"
    by (simp_all add: server_update_def broadcast_def)
  show ?thesis using assms(1) unfolding clients_ok_def b st by auto
qed

lemma mon_step_ok:
  assumes "mon_step js w w'" "mon_ok js w"
  shows "mon_ok js w'"
  using assms(1)
proof (cases rule: mon_step.cases)
  case (transcoder u x m)
  from assms(2) have "displays (after_queue w) (mo_watcher w)" by (simp add: mon_ok_def)
  from transcoder_shows [OF this transcoder(3)] transcoder(1) assms(2) show ?thesis by (simp add: mon_ok_def after_queue_def)
next
  case (stream u x m)
  from assms(2) have "displays (after_queue w) (mo_watcher w)" by (simp add: mon_ok_def)
  moreover have "tables_step js u (mon_tables (mo_watcher w)) (mon_tables x)"
    using stream(3) by (auto simp: tables_step_def intro!: exI [of _ "mo_watcher w"])
  then have "handles_all (tables_step js) (mo_seen w @ [u]) (Map.empty, Map.empty) (mon_tables x)"
    using assms(2) unfolding handles_all_append mon_ok_def by (intro exI [of _ "mon_tables (mo_watcher w)"]) (simp del: split_paired_Ex)
  ultimately show ?thesis using stream_shows [OF _ stream(3)] stream(1) assms(2) by (simp add: mon_ok_def after_queue_def)
next
  case (add ws fails)
  moreover have "ms_state (server_add fails ws (mo_server w)) = ms_state (mo_server w)" by (simp add: server_add_def)
  ultimately show ?thesis using add_ok assms(2) by (simp add: mon_ok_def after_queue_def)
next
  case (remove ws)
  have "clients_ok (server_remove ws (mo_server w))"
    using assms(2) by (auto simp: mon_ok_def clients_ok_def server_remove_def client_view_def no_failed_write_def)
  with remove assms(2) show ?thesis by (simp add: mon_ok_def after_queue_def server_remove_def)
next
  case (update m rest order fails)
  moreover have "ms_state (server_update fails order m (mo_server w)) = ms_state (mo_server w) ++ m" by (simp add: server_update_def broadcast_def)
  ultimately show ?thesis using update_ok assms(2) by (simp add: mon_ok_def after_queue_def)
qed

lemma mon_reach_ok: "mon_reach js w \<Longrightarrow> mon_ok js w"
proof (induction rule: mon_reach.induct)
  case start
  show ?case by (simp add: mon_ok_def mon_start_def displays_def after_queue_def clients_ok_def newServer_def mon_newWatcher_def client_view_def mon_tables_def)
next
  case (step w w')
  then show ?case by (blast intro: mon_step_ok)
qed

section \<open>Properties\<close>

text \<open>The tables in a view; a key that is missing stands for an empty table.\<close>

definition shown_streams :: "message \<Rightarrow> string \<rightharpoonup> stream_Stream" where
  "shown_streams m = (case m ''streams'' of Some (StreamsValue t) \<Rightarrow> t | _ \<Rightarrow> Map.empty)"

definition shown_claims :: "message \<Rightarrow> string \<rightharpoonup> string" where
  "shown_claims m = (case m ''streamTranscoders'' of Some (ClaimsValue t) \<Rightarrow> t | _ \<Rightarrow> Map.empty)"

lemma displays_shown: "displays m w \<Longrightarrow> shown_streams m = mw_streams w \<and> shown_claims m = mw_streamTranscoders w"
  by (auto simp: displays_def shown_streams_def shown_claims_def)

text \<open>A registered client sees the store: when the watcher has handled the updates of its watch and
  no message is under way, what the client has got, whenever it was registered, shows exactly the
  streams and exactly the claims of the last snapshot.\<close>

lemma registered_client_shows:
  assumes "mon_reach js w" "mo_queue w = []" "ws \<in> set (ms_clients (mo_server w))" "no_failed_write ws (mo_server w)"
    and "mo_seen w = fst (watch_all (snaps @ [(keys, pairs)]) Map.empty)" "watch_ok (stream_pair js) (snaps @ [(keys, pairs)]) Map.empty"
  shows "(shown_streams (client_view ws (mo_server w)) slug = Some s \<longleftrightarrow> slug \<noteq> '''' \<and>
      (\<exists>kv \<in> set pairs. split slash (kv_Key kv) = [''stream'', slug] \<and> unmarshal_stream js (kv_Value kv) = Inr s))
    \<and> (shown_claims (client_view ws (mo_server w)) slug = Some owner \<longleftrightarrow> slug \<noteq> '''' \<and>
      (\<exists>kv \<in> set pairs. split slash (kv_Key kv) = [''stream'', slug, ''transcoder''] \<and> kv_Value kv = owner))"
proof -
  have ok: "displays (after_queue w) (mo_watcher w)" "clients_ok (mo_server w)"
    "handles_all (tables_step js) (mo_seen w) (Map.empty, Map.empty) (mon_tables (mo_watcher w))"
    using mon_reach_ok [OF assms(1)] by (simp_all add: mon_ok_def)
  have "client_view ws (mo_server w) = ms_state (mo_server w)" using ok(2) assms(3,4) by (simp add: clients_ok_def)
  then have view: "displays (client_view ws (mo_server w)) (mo_watcher w)" using ok(1) assms(2) by (simp add: after_queue_def)
  note run = ok(3) [unfolded assms(5)]
  have "watch_ok (ms.readable js) (snaps @ [(keys, pairs)]) Map.empty"
    using assms(6) by (rule watch_ok_mono [rotated]) (auto simp: stream_pair_def ms.readable_def stream_name_def decoded_def split: if_splits sum.splits)
  from ms.watched_iff [OF this _ run, of slug s] have streams: "mw_streams (mo_watcher w) slug = Some s \<longleftrightarrow>
      (\<exists>kv \<in> set pairs. stream_name (kv_Key kv) = Some slug \<and> unmarshal_stream js (kv_Value kv) = Inr s)" by (simp add: mon_tables_def)
  have "watch_ok mc.readable (snaps @ [(keys, pairs)]) Map.empty"
    using assms(6) by (rule watch_ok_mono [rotated]) (simp add: mc.readable_def)
  from mc.watched_iff [OF this _ run, of slug owner] have claims: "mw_streamTranscoders (mo_watcher w) slug = Some owner \<longleftrightarrow>
      (\<exists>kv \<in> set pairs. stream_transcoder_name (kv_Key kv) = Some slug \<and> kv_Value kv = owner)" by (simp add: mon_tables_def)
  show ?thesis unfolding conjunct1 [OF displays_shown [OF view]] conjunct2 [OF displays_shown [OF view]] streams claims
      stream_name_iff stream_transcoder_name_iff by blast
qed

text \<open>Example: the watcher learns of a stream when one client is registered, and the client is told.\<close>

definition demo_stream_pair :: KVPair where
  "demo_stream_pair = \<lparr>kv_Key = ''stream/s1'', kv_Value = ''s1''\<rparr>"

lemma demo_mon_run:
  "\<exists>w2 w3 s. mon_step demo_js (mon_start\<lparr>mo_server := server_add (\<lambda>_. False) 1 newServer\<rparr>) w2 \<and> mon_step demo_js w2 w3
     \<and> ms_clients (mo_server w2) = [1] \<and> ms_clients (mo_server w3) = [1] \<and> mo_queue w3 = [] \<and> no_failed_write 1 (mo_server w3)
     \<and> mo_seen w3 = fst (watch_all ([] @ [([], [demo_stream_pair])]) Map.empty)
     \<and> watch_ok (stream_pair demo_js) ([] @ [([], [demo_stream_pair])]) Map.empty
     \<and> unmarshal_stream demo_js ''s1'' = Inr s \<and> st_Slug s = ''s1''"
proof -
  obtain s where s: "unmarshal_stream demo_js ''s1'' = Inr s" "st_Slug s = ''s1''" by (simp add: demo_js_def)
  let ?m = "sendUpdate ''streams'' (StreamsValue [''s1'' \<mapsto> s])"
  let ?w1 = "mon_start\<lparr>mo_server := server_add (\<lambda>_. False) 1 newServer\<rparr>"
  let ?w2 = "?w1\<lparr>mo_watcher := mon_newWatcher\<lparr>mw_streams := [''s1'' \<mapsto> s]\<rparr>, mo_queue := [?m], mo_seen := [put_update demo_stream_pair]\<rparr>"
  let ?w3 = "?w2\<lparr>mo_queue := [], mo_server := server_update (\<lambda>_. False) [1] ?m (mo_server ?w2)\<rparr>"
  have "mon_handleStream demo_js (put_update demo_stream_pair) mon_newWatcher = (mon_newWatcher\<lparr>mw_streams := [''s1'' \<mapsto> s]\<rparr>, Some ?m)"
    using s by (simp add: mon_stream_defs put_update_def ParseStreamName_def PathIsStream_def mon_newWatcher_def demo_stream_pair_def)
  then have 1: "mon_step demo_js ?w1 ?w2"
    using mon_step.stream [of ?w1 demo_js "put_update demo_stream_pair" _ "Some ?m"] by (simp add: mon_start_def)
  have 2: "mon_step demo_js ?w2 ?w3"
    using mon_step.update [of ?w2 ?m "[]" "[1]" demo_js "\<lambda>_. False"] by (simp add: server_add_def newServer_def)
  have 3: "ms_clients (mo_server ?w2) = [1]" "ms_clients (mo_server ?w3) = [1]" "mo_queue ?w3 = []" "no_failed_write 1 (mo_server ?w3)"
    by (simp_all add: server_update_def broadcast_def server_add_def newServer_def no_failed_write_def)
  have 4: "mo_seen ?w3 = fst (watch_all ([] @ [([], [demo_stream_pair])]) Map.empty)" by (simp add: watchHandler_def watchPair_def demo_stream_pair_def)
  have 5: "watch_ok (stream_pair demo_js) ([] @ [([], [demo_stream_pair])]) Map.empty" by (simp add: stream_pair_def demo_js_def demo_stream_pair_def)
  from 1 2 3 4 5 s show ?thesis by blast
qed

text \<open>The keys below the prefix of the transcoders have two elements, and \<open>ParseServiceName\<close> names only keys of
  three: the watcher ignores every transcoder.\<close>

lemma monitor_ignores_transcoders:
  assumes "slash \<notin> set n" "wu_KV u = Some kv" "kv_Key kv = TranscoderPrefix @ n"
  shows "mon_handleTranscoder js u w = (w, None)"
proof -
  have "split slash (''transcoders'' @ slash # n) = [''transcoders'', n]" using assms(1) by (subst split_append) simp_all
  then have "split slash (kv_Key kv) = [''transcoders'', n]" by (simp add: assms(3) TranscoderPrefix_def)
  then show ?thesis using assms(2) by (simp add: mon_handleTranscoder_def ParseServiceName_def)
qed

text \<open>The list of all settings: as every value is decoded into the same variable, a decoder that leaves missing
  fields alone, as that of package \<open>encoding/json\<close> does, passes on what the stream before has set.\<close>

lemma decode_fields_leaks:
  assumes "unmarshal_into a zero_settings = (None, s)" "unmarshal_into b s = (None, s\<lparr>se_Slug := t\<rparr>)"
  shows "decode_fields unmarshal_into zero_settings [(k, a), (l, b)] = [s, s\<lparr>se_Slug := t\<rparr>]"
  using assms by simp

end
