(* ===== verification/StoreTyping.thy ===== *)
theory StoreTyping
  imports Fleet Publish Monitor
begin

text \<open>
  What is in the store. Every key that the program writes has one of four forms, and the form is the type of
  its value: the description of a stream, the name of a transcoder, the settings of a stream, or the
  status of a transcoder. A name that occurs in the key and in the value is the same in both.

  The writers are the transcoders, the publishers and the monitor's settings handler, which share the
  store and act in any order while sessions end (\<open>deploy_step\<close>). Each keeps the store well typed, so
  that the values below the watched prefixes can be read by those who watch them.
\<close>

section \<open>Types of keys\<close>

datatype key_type = StreamT string | ClaimT string | SettingsT string | StatusT string

definition type_of_key :: "string \<Rightarrow> key_type option" where
  "type_of_key key =
     (case split slash key of
        [a, n] \<Rightarrow> if \<not> plain_elem n then None
                   else if a = ''stream'' then Some (StreamT n)
                   else if a = ''streamSettings'' then Some (SettingsT n) else None
      | [a, b, n] \<Rightarrow> if a = ''stream'' \<and> plain_elem b \<and> n = ''transcoder'' then Some (ClaimT b)
                      else if a = ''service'' \<and> b = ''transcode'' \<and> plain_elem n then Some (StatusT n) else None
      | _ \<Rightarrow> None)"

text \<open>\<open>unmarshal\<close> decodes settings, \<open>names\<close> are the names of the transcoders.\<close>

fun has_type :: "codec \<Rightarrow> (string \<Rightarrow> string + Settings) \<Rightarrow> string set \<Rightarrow> string \<Rightarrow> key_type \<Rightarrow> bool" where
  "has_type js unmarshal names v (StreamT n) \<longleftrightarrow> (case unmarshal_stream js v of Inl _ \<Rightarrow> False | Inr s \<Rightarrow> st_Slug s = n)"
| "has_type js unmarshal names v (ClaimT n) \<longleftrightarrow> v \<in> names"
| "has_type js unmarshal names v (SettingsT n) \<longleftrightarrow> (case unmarshal v of Inl _ \<Rightarrow> False | Inr s \<Rightarrow> se_Slug s = n)"
| "has_type js unmarshal names v (StatusT n) \<longleftrightarrow> (case unmarshal_status js v of Inl _ \<Rightarrow> False | Inr st \<Rightarrow> ts_Name st = n)"

definition store_typed :: "codec \<Rightarrow> (string \<Rightarrow> string + Settings) \<Rightarrow> string set \<Rightarrow> (string \<rightharpoonup> string) \<Rightarrow> bool" where
  "store_typed js unmarshal names store \<longleftrightarrow>
     (\<forall>key v. store key = Some v \<longrightarrow> (\<exists>ty. type_of_key key = Some ty \<and> has_type js unmarshal names v ty))"

lemma store_typed_empty [simp]: "store_typed js unmarshal names Map.empty"
  by (simp add: store_typed_def)

lemma store_typed_put:
  "store_typed js unmarshal names store \<Longrightarrow> type_of_key key = Some ty \<Longrightarrow> has_type js unmarshal names v ty \<Longrightarrow>
   store_typed js unmarshal names (store(key \<mapsto> v))"
  by (auto simp: store_typed_def)

lemma store_typed_le: "store_typed js unmarshal names store \<Longrightarrow> store' \<subseteq>\<^sub>m store \<Longrightarrow> store_typed js unmarshal names store'"
  unfolding store_typed_def map_le_def by (metis domI)

lemma store_typed_delete: "store_typed js unmarshal names store \<Longrightarrow> store_typed js unmarshal names (store(key := None))"
  by (auto simp: store_typed_def)

lemma transcode_plain: "plain_elem ''transcode''"
  by (simp add: plain_elem_def)

lemma key_types:
  assumes "plain_elem n"
  shows "type_of_key (StreamPath n) = Some (StreamT n)" "type_of_key (StreamTranscoderPath n) = Some (ClaimT n)"
    "type_of_key (StreamSettingsPath n) = Some (SettingsT n)" "type_of_key (ServicePath ''transcode'' n) = Some (StatusT n)"
proof -
  have "split slash (ServicePath ''transcode'' n) = [''service'', ''transcode'', n]"
    by (rule key_parts(4) [OF assms transcode_plain])
  then show "type_of_key (ServicePath ''transcode'' n) = Some (StatusT n)" using assms by (simp add: type_of_key_def)
qed (simp_all add: type_of_key_def key_parts [OF assms] assms)

section \<open>Transcoders keep the types\<close>

text \<open>What encoding and decoding have to do with each other, for the values the program writes.\<close>

definition json_ok :: "codec \<Rightarrow> (stream_Stream \<Rightarrow> string + string) \<Rightarrow> (string \<Rightarrow> string + Settings) \<Rightarrow> (Settings \<Rightarrow> string + string) \<Rightarrow> bool" where
  "json_ok js marshal_stream unmarshal marshal \<longleftrightarrow>
     (\<forall>s v. marshal_stream s = Inr v \<longrightarrow> unmarshal_stream js v = Inr s)
     \<and> (\<forall>st v. marshal_status js st = Inr v \<longrightarrow> unmarshal_status js v = Inr st)
     \<and> (\<forall>v s. unmarshal v = Inr s \<longrightarrow> (\<exists>w. marshal s = Inr w \<and> unmarshal w = Inr s))"

lemma put_typed:
  assumes "kv_laws api lookup" "store_typed js unmarshal names (lookup k)" "type_of_key key = Some ty" "has_type js unmarshal names v ty"
  shows "store_typed js unmarshal names (lookup (snd (api_PutWithSession api key v k)))"
  using assms store_typed_put by (auto simp: kv_laws_def)

lemma delete_typed:
  assumes "kv_laws api lookup" "store_typed js unmarshal names (lookup k)"
  shows "store_typed js unmarshal names (lookup (snd (api_Delete api key k)))"
  using assms store_typed_delete by (auto simp: kv_laws_def)

definition writer_ok :: "'k kv_api \<Rightarrow> string set \<Rightarrow> 'k Transcoder \<Rightarrow> bool" where
  "writer_ok api names t \<longleftrightarrow> tc_name t \<in> names \<and> plain_elem (tc_name t)
     \<and> (\<forall>slug sv. tc_services t slug = Some (Some sv) \<longrightarrow> (\<exists>key. sc_Cleanup (sv_conf sv) = Some (\<lambda>k. snd (api_Delete api key k))))"

definition typed_state :: "'k kv_api \<Rightarrow> ('k \<Rightarrow> string \<rightharpoonup> string) \<Rightarrow> codec \<Rightarrow> (string \<Rightarrow> string + Settings) \<Rightarrow> string set \<Rightarrow>
    'k Transcoder \<times> 'k host \<Rightarrow> bool" where
  "typed_state api lookup js unmarshal names th \<longleftrightarrow>
     writer_ok api names (fst th) \<and> plain_streams (fst th) \<and> store_typed js unmarshal names (lookup (hs_store (snd th)))"

lemma publishStatus_typed:
  assumes "kv_laws api lookup" "json_ok js ms unmarshal m" "plain_elem (tc_name t)" "store_typed js unmarshal names (lookup (hs_store h))"
  shows "store_typed js unmarshal names (lookup (hs_store (snd (publishStatus api js t h))))"
proof (cases "marshal_status js \<lparr>ts_Name = tc_name t, ts_Capacity = tc_capacity t, ts_NumStreams = num_services t\<rparr>")
  case (Inr v)
  then have "has_type js unmarshal names v (StatusT (tc_name t))" using assms(2) by (auto simp: json_ok_def)
  from put_typed [OF assms(1,4) key_types(4) [OF assms(3)] this] Inr show ?thesis
    by (simp add: publishStatus_def case_prod_beta)
qed (use assms(4) in \<open>simp add: publishStatus_def\<close>)

lemma writer_ok_upd:
  "writer_ok api names t \<Longrightarrow> (\<And>sv. x = Some (Some sv) \<Longrightarrow> \<exists>key. sc_Cleanup (sv_conf sv) = Some (\<lambda>k. snd (api_Delete api key k))) \<Longrightarrow>
   writer_ok api names (t\<lparr>tc_services := (tc_services t)(slug := x)\<rparr>)"
  by (auto simp: writer_ok_def)

lemma claimStream_typed:
  assumes laws: "kv_laws api lookup" "json_ok js ms unmarshal m" and ty: "typed_state api lookup js unmarshal names (t, h)"
    and slug: "plain_elem (st_Slug s)" and res: "claimStream api js ch s (t, h) = Inr (t', h')"
  shows "typed_state api lookup js unmarshal names (t', h')"
proof -
  obtain err k where put: "api_PutWithSession api (StreamTranscoderPath (st_Slug s)) (tc_name t) (hs_store h) = (err, k)" by fastforce
  have w: "writer_ok api names t" "plain_streams t" "store_typed js unmarshal names (lookup (hs_store h))" using ty by (auto simp: typed_state_def)
  then have name: "tc_name t \<in> names" "plain_elem (tc_name t)" by (simp_all add: writer_ok_def)
  have k: "store_typed js unmarshal names (lookup k)"
    using put_typed [OF laws(1) w(3) key_types(2) [OF slug], of "tc_name t"] name(1) put by simp
  have start: "typed_state api lookup js unmarshal names (startService api js (cc_connErr ch) s t (h\<lparr>hs_store := k\<rparr>))"
    using w(1,2) k name(2) publishStatus_typed [OF laws, where h = "h\<lparr>hs_store := k\<rparr>"]
    by (auto simp: startService_def typed_state_def createService_def NewService_def plain_streams_def Let_def split: option.splits intro!: writer_ok_upd)
  have again: "typed_state api lookup js unmarshal names (t\<lparr>tc_services := (tc_services t)(st_Slug s \<mapsto> Some sv')\<rparr>, h2)"
    if "tc_services t (st_Slug s) = Some (Some sv)" "Restart (cc_write ch) (templateConfig t s) sv (h\<lparr>hs_store := k\<rparr>) = (sv', h2)" for sv sv' h2
  proof -
    have "hs_store h2 = k" "sc_Cleanup (sv_conf sv') = sc_Cleanup (sv_conf sv)"
      using that(2) by (auto simp: Restart_def Service_start_def deployConfig_def send_call_def Let_def split: if_splits)
    moreover from this have "writer_ok api names (t\<lparr>tc_services := (tc_services t)(st_Slug s \<mapsto> Some sv')\<rparr>)"
      using w(1) that(1) by (intro writer_ok_upd) (auto simp: writer_ok_def)
    ultimately show ?thesis using w(2) k by (simp add: typed_state_def plain_streams_def)
  qed
  from res ty k w put start again show ?thesis
    by (auto simp: claimStream_def typed_state_def Let_def split: if_splits option.splits prod.splits)
qed

lemma tickService_typed:
  assumes laws: "kv_laws api lookup" "json_ok js ms unmarshal m" and ty: "typed_state api lookup js unmarshal names (t, h)"
    and res: "tickService api js key (t, h) = Inr (t', h')"
  shows "typed_state api lookup js unmarshal names (t', h')"
proof (cases "tc_services t key")
  case (Some x)
  with res obtain sv where sv: "tc_services t key = Some (Some sv)" by (cases x) (auto simp: tickService_def)
  have w: "writer_ok api names t" "plain_streams t" "store_typed js unmarshal names (lookup (hs_store h))" using ty by (auto simp: typed_state_def)
  have clean: "\<exists>key. sc_Cleanup (sv_conf sv) = Some (\<lambda>k. snd (api_Delete api key k))" using w(1) sv by (auto simp: writer_ok_def)
  have pub: "store_typed js unmarshal names (lookup (hs_store (snd (publishStatus api js (t\<lparr>tc_services := x\<rparr>) h))))" for x
    by (rule publishStatus_typed [OF laws _ w(3)]) (use w(1) in \<open>simp add: writer_ok_def\<close>)
  have gone: "writer_ok api names (t\<lparr>tc_services := (tc_services t)(key := None)\<rparr>)" by (rule writer_ok_upd [OF w(1)]) simp
  have stops: "writer_ok api names (t\<lparr>tc_services := (tc_services t)(key \<mapsto> Some (Service_Stop sv))\<rparr>)"
    by (rule writer_ok_upd [OF w(1)]) (use clean in \<open>simp add: Service_Stop_def\<close>)
  from res sv w pub gone stops show ?thesis
    by (auto simp: tickService_def typed_state_def plain_streams_def Let_def split: if_splits)
qed (use res ty in \<open>simp add: tickService_def\<close>)

lemma tick_typed:
  assumes laws: "kv_laws (api :: 'k kv_api) lookup" "json_ok js ms unmarshal m" and ty: "typed_state api lookup js unmarshal names th"
    and res: "Transcoder_tick api js ks ys ss chs th = Inr th'"
  shows "typed_state api lookup js unmarshal names th'"
proof (rule tick_keeps_state [where P = "typed_state api lookup js unmarshal names", OF res ty])
  fix a b :: "'k Transcoder \<times> 'k host" and key
  assume a: "typed_state api lookup js unmarshal names a"
  obtain t h t' h' where ab: "a = (t, h)" "b = (t', h')" by (metis surj_pair)
  show "typed_state api lookup js unmarshal names b" if "tickService api js key a = Inr b"
    using tickService_typed [OF laws] a that unfolding ab by blast
  show "typed_state api lookup js unmarshal names b" if "tickStream api js chs key a = Inr b"
  proof (cases "tc_streams t key")
    case (Some s)
    then have "plain_elem (st_Slug s)" using a by (simp add: ab typed_state_def plain_streams_def)
    from claimStream_typed [OF laws a [unfolded ab] this] that a Some show ?thesis
      by (auto simp: ab tickStream_def split: if_splits)
  qed (use that a in \<open>simp add: ab tickStream_def\<close>)
qed

text \<open>The goroutine of a service writes to the store only when it ends, and then deletes a key.\<close>

lemma service_runs_typed:
  assumes laws: "kv_laws api lookup" and ty: "typed_state api lookup js unmarshal names (t, h)"
    and sv: "tc_services t slug = Some (Some sv)" and run: "service_runs (sv, h) (sv', h')"
  shows "typed_state api lookup js unmarshal names (t\<lparr>tc_services := (tc_services t)(slug \<mapsto> Some sv')\<rparr>, h')"
proof -
  have w: "writer_ok api names t" "plain_streams t" "store_typed js unmarshal names (lookup (hs_store h))" using ty by (auto simp: typed_state_def)
  then obtain key where clean: "sc_Cleanup (sv_conf sv) = Some (\<lambda>k. snd (api_Delete api key k))" using sv by (auto simp: writer_ok_def)
  have restarts: "hs_store (fold (restartFailed sv) us g) = hs_store g" for us g
    by (induction us arbitrary: g) (simp_all add: restartFailed_def send_call_def)
  from run have "sv_conf sv' = sv_conf sv \<and> (hs_store h' = hs_store h \<or> hs_store h' = snd (api_Delete api key (hs_store h)))"
    by (cases rule: service_runs.cases) (use clean restarts in \<open>auto simp: Run_start_def Service_start_def deployConfig_def syncUnitState_def
        Run_end_def Service_stop_def removeConfig_def send_call_def Let_def split: if_splits\<close>)
  moreover from this have "writer_ok api names (t\<lparr>tc_services := (tc_services t)(slug \<mapsto> Some sv')\<rparr>)"
    using clean by (intro writer_ok_upd [OF w(1)]) auto
  ultimately show ?thesis using w delete_typed [OF laws w(3)] by (auto simp: typed_state_def plain_streams_def)
qed

lemma transcoder_act_typed:
  assumes laws: "kv_laws api lookup" "json_ok js ms unmarshal m" and ty: "typed_state api lookup js unmarshal names (t, h)"
    and plain: "plain_streams t'" and act: "transcoder_act api js seen (t, h) (t', h')"
  shows "typed_state api lookup js unmarshal names (t', h')"
  using act
proof (cases rule: transcoder_act.cases)
  case (transcoder_update u)
  then have "tc_services t' = tc_services t" "tc_name t' = tc_name t" "h' = h"
    by (auto simp: handleTranscoder_def split: option.splits prod.splits UpdateType.splits sum.splits)
  with ty plain show ?thesis by (simp add: typed_state_def writer_ok_def)
next
  case (stream_update ch u)
  have f: "typed_state api lookup js unmarshal names (follow js u t, h)"
    using ty plain_follow [OF stream_update(2) plain] by (simp add: typed_state_def writer_ok_def)
  from handleStream_claims [OF stream_update(2)] show ?thesis
  proof (elim disjE exE conjE)
    fix s key
    assume s: "tc_streams (follow js u t) key = Some s" "claimStream api js ch s (follow js u t, h) = Inr (t', h')"
    then have "plain_elem (st_Slug s)" using f by (simp add: typed_state_def plain_streams_def)
    from claimStream_typed [OF laws f this s(2)] show ?thesis .
  qed (use f in simp)
next
  case (ticked ks ss ys chs)
  from tick_typed [OF laws ty ticked(5)] show ?thesis .
next
  case (service slug sv sv')
  with service_runs_typed [OF laws(1) ty] show ?thesis by blast
qed

section \<open>Publishers and settings keep the types\<close>

lemma publishStream_typed:
  assumes laws: "kv_laws api lookup" "json_ok js ms unmarshal m" and slug: "plain_elem (st_Slug s)"
    and ty: "store_typed js unmarshal names (lookup k)"
  shows "store_typed js unmarshal names (lookup (snd (publishStream api ms s k)))"
proof (cases "ms s")
  case (Inr v)
  then have "has_type js unmarshal names v (StreamT (st_Slug s))" using laws(2) by (auto simp: json_ok_def)
  from put_typed [OF laws(1) ty key_types(1) [OF slug] this] Inr show ?thesis by (simp add: publishStream_def case_prod_beta)
qed (use ty in \<open>simp add: publishStream_def\<close>)

lemma processUpdate_typed:
  assumes laws: "kv_laws api lookup" "json_ok js ms unmarshal m" and plain: "\<forall>s \<in> set streams. plain_elem (st_Slug s)"
    and ty: "store_typed js unmarshal names (lookup (snd pk))"
  shows "store_typed js unmarshal names (lookup (snd (processUpdate api ms streams pk)))"
proof -
  have "store_typed js unmarshal names (lookup (snd (snd (fold (processStream api ms) streams (p, new, k)))))"
    if "store_typed js unmarshal names (lookup k)" for p new k
    using plain that
  proof (induction streams arbitrary: p new k)
    case (Cons s streams)
    obtain p1 new1 k1 where one: "processStream api ms s (p, new, k) = (p1, new1, k1)" by (metis surj_pair)
    then have "k1 = snd (publishStream api ms s k)" by (auto simp: processStream_def Let_def split: prod.splits if_splits)
    with publishStream_typed [OF laws, of s names k] Cons.prems have "store_typed js unmarshal names (lookup k1)" by simp
    with Cons.IH Cons.prems(1) one show ?case by simp
  qed simp
  from this [of "snd pk" "fst pk" "[]"] ty show ?thesis by (simp add: processUpdate_def case_prod_beta)
qed

lemma Publisher_tick_typed:
  assumes laws: "kv_laws api lookup" "json_ok js ms unmarshal m" and plain: "\<forall>s \<in> named results. plain_elem (st_Slug s)"
    and ty: "store_typed js unmarshal names (lookup (snd pk))"
  shows "store_typed js unmarshal names (lookup (snd (Publisher_tick api ms results order pk)))"
proof -
  have "store_typed js unmarshal names (lookup (snd (fold (scrapeResult api ms) results pk)))"
    using plain ty
  proof (induction results arbitrary: pk)
    case (Cons r results)
    then have "store_typed js unmarshal names (lookup (snd (scrapeResult api ms r pk)))"
      using processUpdate_typed [OF laws, of _ names pk] by (cases r) (simp_all add: scrapeResult_def)
    with Cons show ?case by (cases r) simp_all
  qed simp
  moreover have "store_typed js unmarshal names (lookup (snd (fold (expireStream api) order qk)))"
    if "store_typed js unmarshal names (lookup (snd qk))" for qk
    using that
  proof (induction order arbitrary: qk)
    case (Cons key order)
    obtain p k where qk: "qk = (p, k)" by fastforce
    obtain p1 k1 where one: "expireStream api key (p, k) = (p1, k1)" by fastforce
    have "store_typed js unmarshal names (lookup k1)"
      using expireStream_lookup [OF laws(1) one] Cons.prems store_typed_delete by (auto simp: qk)
    with Cons.IH [of "(p1, k1)"] qk one show ?case by simp
  qed simp
  ultimately show ?thesis by (simp add: Publisher_tick_def)
qed

text \<open>Consul's put: on success the key has the value, otherwise nothing changes.\<close>

definition put_law :: "(KVPair \<Rightarrow> 'k \<Rightarrow> string option \<times> 'k) \<Rightarrow> ('k \<Rightarrow> string \<rightharpoonup> string) \<Rightarrow> bool" where
  "put_law put lookup \<longleftrightarrow> (\<forall>kv k. lookup (snd (put kv k)) =
     (if fst (put kv k) = None then (lookup k)(kv_Key kv \<mapsto> kv_Value kv) else lookup k))"

lemma settings_typed:
  assumes laws: "put_law put lookup" "json_ok js ms unmarshal m"
    and plain: "\<forall>s. decodeJSON unmarshal body = Inr s \<longrightarrow> plain_elem (se_Slug s)"
    and ty: "store_typed js unmarshal names (lookup k)"
  shows "store_typed js unmarshal names (lookup (snd (HandleSetStreamSettings put unmarshal m body k)))"
proof (cases "decodeJSON unmarshal body")
  case (Inr s)
  then obtain u where "unmarshal u = Inr s" by (auto simp: decodeJSON_def Let_def split: sum.splits if_splits)
  then obtain v where v: "m s = Inr v" "unmarshal v = Inr s" using laws(2) unfolding json_ok_def by blast
  let ?kv = "\<lparr>kv_Key = StreamSettingsPath (se_Slug s), kv_Value = v\<rparr>"
  have "store_typed js unmarshal names ((lookup k)(kv_Key ?kv \<mapsto> kv_Value ?kv))"
    by (rule store_typed_put [OF ty, of _ "SettingsT (se_Slug s)"]) (use v plain Inr key_types(3) in simp_all)
  then have "store_typed js unmarshal names (lookup (snd (put ?kv k)))" using laws(1) ty by (simp add: put_law_def)
  moreover have "snd (HandleSetStreamSettings put unmarshal m body k) = snd (put ?kv k)"
    using Inr v(1) by (simp add: HandleSetStreamSettings_def Client_Put_def split: prod.splits option.splits)
  ultimately show ?thesis by simp
qed (use ty in \<open>simp add: HandleSetStreamSettings_def\<close>)

section \<open>The parts of the system share one store\<close>

text \<open>The client of each process, Consul's put for the settings handler, the end of a session, and how values are encoded.\<close>

record ('i, 'k) environment =
  en_api :: "'i \<Rightarrow> 'k kv_api"
  en_put :: "KVPair \<Rightarrow> 'k \<Rightarrow> string option \<times> 'k"
  en_expire :: "'i \<Rightarrow> 'k \<Rightarrow> 'k"
  en_js :: codec
  en_marshal_stream :: "stream_Stream \<Rightarrow> string + string"
  en_unmarshal :: "string \<Rightarrow> string + Settings"
  en_marshal :: "Settings \<Rightarrow> string + string"

definition environment_ok :: "('i, 'k) environment \<Rightarrow> ('k \<Rightarrow> string \<rightharpoonup> string) \<Rightarrow> bool" where
  "environment_ok e lookup \<longleftrightarrow>
     (\<forall>i. kv_laws (en_api e i) lookup) \<and> put_law (en_put e) lookup \<and> (\<forall>i k. lookup (en_expire e i k) \<subseteq>\<^sub>m lookup k)
     \<and> json_ok (en_js e) (en_marshal_stream e) (en_unmarshal e) (en_marshal e)"

lemma environment_laws:
  assumes "environment_ok e lookup"
  shows "kv_laws (en_api e i) lookup" "json_ok (en_js e) (en_marshal_stream e) (en_unmarshal e) (en_marshal e)"
    "put_law (en_put e) lookup" "lookup (en_expire e i k) \<subseteq>\<^sub>m lookup k"
  using assms by (simp_all add: environment_ok_def)

type_synonym ('i, 'k) deployment = "('i \<Rightarrow> 'k Transcoder \<times> 'k host) \<times> ('i \<Rightarrow> Publisher) \<times> 'k"

text \<open>Names of streams that sources and operators choose are single path elements here.\<close>

inductive deploy_step :: "('i, 'k) environment \<Rightarrow> ('i, 'k) deployment \<Rightarrow> ('i, 'k) deployment \<Rightarrow> bool" for e where
  transcoder: "ts i = (t, h) \<Longrightarrow> transcoder_act (en_api e i) (en_js e) (\<lambda>_. True) (t, h\<lparr>hs_store := k\<rparr>) (t', h') \<Longrightarrow> plain_streams t' \<Longrightarrow>
    deploy_step e (ts, ps, k) (ts(i := (t', h')), ps, hs_store h')"
| publisher: "\<forall>s \<in> named results. plain_elem (st_Slug s) \<Longrightarrow>
    Publisher_tick (en_api e i) (en_marshal_stream e) results order (ps i, k) = (p', k') \<Longrightarrow>
    deploy_step e (ts, ps, k) (ts, ps(i := p'), k')"
| settings: "\<forall>s. decodeJSON (en_unmarshal e) body = Inr s \<longrightarrow> plain_elem (se_Slug s) \<Longrightarrow>
    HandleSetStreamSettings (en_put e) (en_unmarshal e) (en_marshal e) body k = (r, k') \<Longrightarrow>
    deploy_step e (ts, ps, k) (ts, ps, k')"
| session_end: "deploy_step e (ts, ps, k) (ts, ps, en_expire e i k)"

inductive deploy_reach :: "('i, 'k) environment \<Rightarrow> ('i, 'k) deployment \<Rightarrow> ('i, 'k) deployment \<Rightarrow> bool" for e first where
  here: "deploy_reach e first first"
| step: "deploy_reach e first s \<Longrightarrow> deploy_step e s s' \<Longrightarrow> deploy_reach e first s'"

definition deploy_start :: "('i \<Rightarrow> TranscodeConfig \<times> string) \<Rightarrow> ('i \<Rightarrow> 'k host) \<Rightarrow> ('i \<Rightarrow> Publisher) \<Rightarrow> 'k \<Rightarrow> ('i, 'k) deployment" where
  "deploy_start conf hosts ps k = ((\<lambda>i. (Transcoder_New (fst (conf i)) (snd (conf i)), hosts i)), ps, k)"

definition deploy_typed :: "('i, 'k) environment \<Rightarrow> ('k \<Rightarrow> string \<rightharpoonup> string) \<Rightarrow> string set \<Rightarrow> ('i, 'k) deployment \<Rightarrow> bool" where
  "deploy_typed e lookup names s \<longleftrightarrow>
     (case s of (ts, ps, k) \<Rightarrow> store_typed (en_js e) (en_unmarshal e) names (lookup k)
        \<and> (\<forall>i. writer_ok (en_api e i) names (fst (ts i)) \<and> plain_streams (fst (ts i))))"

lemma deploy_step_typed:
  assumes "environment_ok e lookup" "deploy_step e s s'" "deploy_typed e lookup names s"
  shows "deploy_typed e lookup names s'"
  using assms(2)
proof (cases rule: deploy_step.cases)
  case (transcoder ts i t h k t' h' ps)
  have "typed_state (en_api e i) lookup (en_js e) (en_unmarshal e) names (t, h\<lparr>hs_store := k\<rparr>)"
    using assms(3) transcoder(1,3) by (auto simp: deploy_typed_def typed_state_def dest: spec [of _ i])
  from transcoder_act_typed [OF environment_laws(1,2) [OF assms(1)] this transcoder(5,4)] assms(3) transcoder(1,2)
  show ?thesis by (simp add: deploy_typed_def typed_state_def)
next
  case (publisher results i order ps k p' k' ts)
  with assms(3) have "store_typed (en_js e) (en_unmarshal e) names (lookup (snd (ps i, k)))" by (simp add: deploy_typed_def)
  from Publisher_tick_typed [OF environment_laws(1,2) [OF assms(1)] publisher(3) this, of i order] assms(3) publisher(1,2,4)
  show ?thesis by (simp add: deploy_typed_def)
next
  case (settings body k r k' ts ps)
  with assms(3) have "store_typed (en_js e) (en_unmarshal e) names (lookup k)" by (simp add: deploy_typed_def)
  from settings_typed [OF environment_laws(3,2) [OF assms(1)] settings(3) this] assms(3) settings(1,2,4)
  show ?thesis by (simp add: deploy_typed_def)
next
  case (session_end ts ps k i)
  with assms(3) have "store_typed (en_js e) (en_unmarshal e) names (lookup k)" by (simp add: deploy_typed_def)
  from store_typed_le [OF this environment_laws(4) [OF assms(1)]] assms(3) session_end show ?thesis by (simp add: deploy_typed_def)
qed

text \<open>What Consul passes to a watch of a prefix: the pairs of the store below it, each key once.\<close>

definition below :: "string \<Rightarrow> (string \<rightharpoonup> string) \<Rightarrow> KVPair list \<Rightarrow> bool" where
  "below pre store pairs \<longleftrightarrow> (\<forall>key. snapshot pairs key = (if hasPrefix key pre then store key else None))"

lemma below_typed:
  assumes "store_typed js unmarshal names store" "below pre store pairs" "distinct (map kv_Key pairs)" "kv \<in> set pairs"
  shows "hasPrefix (kv_Key kv) pre \<and> (\<exists>ty. type_of_key (kv_Key kv) = Some ty \<and> has_type js unmarshal names (kv_Value kv) ty)"
proof -
  have "snapshot pairs (kv_Key kv) = Some (kv_Value kv)" using snapshot_Some_iff [OF assms(3)] assms(4) by blast
  then have "hasPrefix (kv_Key kv) pre \<and> store (kv_Key kv) = Some (kv_Value kv)"
    using assms(2) [unfolded below_def, rule_format, of "kv_Key kv"] by (simp split: if_splits)
  with assms(1) show ?thesis by (simp add: store_typed_def)
qed

lemma stream_pair_typed: "type_of_key (kv_Key kv) = Some ty \<Longrightarrow> has_type js unmarshal names (kv_Value kv) ty \<Longrightarrow> stream_pair js kv"
  by (auto simp: stream_pair_def PathIsStream_iff type_of_key_def split: if_splits sum.splits)

lemma settings_pair_typed:
  assumes "type_of_key (kv_Key kv) = Some ty" "has_type js unmarshal names (kv_Value kv) ty" "hasPrefix (kv_Key kv) StreamSettingsPrefix"
  shows "settings_pair unmarshal kv"
proof -
  obtain r where "kv_Key kv = StreamSettingsPrefix @ r"
    using append_take_drop_id [of "length StreamSettingsPrefix" "kv_Key kv"] unfolding assms(3) [unfolded hasPrefix_def] by (rule that [OF sym])
  then have parts: "split slash (kv_Key kv) = ''streamSettings'' # split slash r" using split_append [of slash "''streamSettings''" r] by (simp add: StreamSettingsPrefix_def)
  have "''streamSettings'' \<noteq> ''stream''" "''streamSettings'' \<noteq> ''service''" by simp_all
  with assms(1) have "\<exists>n. ty = SettingsT n \<and> plain_elem n \<and> split slash r = [n]"
    unfolding type_of_key_def parts by (simp only: list.case if_False simp_thms split: list.split_asm if_split_asm) auto
  then obtain n where n: "ty = SettingsT n" "plain_elem n" "split slash r = [n]" by (elim exE conjE)
  have "decoded unmarshal (kv_Value kv) \<noteq> None" using assms(2) n(1) by (simp add: decoded_def split: sum.splits)
  moreover have "n \<noteq> []" using n(2) unfolding plain_elem_def by (rule conjunct1)
  ultimately show ?thesis unfolding settings_pair_def settings_key_def parts n(3) by blast
qed

lemma deploy_reach_typed:
  assumes "environment_ok e lookup" "deploy_reach e (deploy_start conf hosts ps k0) s" "lookup k0 = Map.empty"
    and "\<forall>i. plain_elem (snd (conf i))"
  shows "deploy_typed e lookup (range (\<lambda>i. snd (conf i))) s"
  using assms(2)
proof (induction rule: deploy_reach.induct)
  case here
  show ?case using assms(3,4) by (simp add: deploy_typed_def deploy_start_def writer_ok_def plain_streams_def Transcoder_New_def)
next
  case (step s s')
  from deploy_step_typed [OF assms(1) step(2,3)] show ?case .
qed

section \<open>Properties\<close>


text \<open>An operator sends settings, then a publisher finds a stream.\<close>

definition demo_env :: "(string, string \<rightharpoonup> string) environment" where
  "demo_env = \<lparr>en_api = \<lambda>_. demo_kv, en_put = \<lambda>kv k. (None, k(kv_Key kv \<mapsto> kv_Value kv)), en_expire = \<lambda>_ _. Map.empty,
     en_js = demo_js\<lparr>marshal_status := \<lambda>st. if st = demo_status (ts_Name st) 0 then Inr (ts_Name st) else Inl ''busy''\<rparr>,
     en_marshal_stream = \<lambda>s. if s = demo_stream (st_Slug s) then Inr (st_Slug s) else Inl ''other'',
     en_unmarshal = \<lambda>v. demo_settings (tl v), en_marshal = \<lambda>s. Inr (CHR ''v'' # se_Secret s)\<rparr>"

lemma demo_env_ok: "environment_ok demo_env (\<lambda>k. k)"
proof -
  have "json_ok (en_js demo_env) (en_marshal_stream demo_env) (en_unmarshal demo_env) (en_marshal demo_env)"
    by (auto simp: json_ok_def demo_env_def demo_js_def demo_settings_def demo_stream_def split: if_splits)
  then show ?thesis using demo_kv_laws(1) by (simp add: environment_ok_def demo_env_def put_law_def)
qed


text \<open>Without the restriction on names the types are lost: the settings of a stream called \<open>../stream/s1\<close>
  are stored as the stream \<open>s1\<close>, and a source that names a stream \<open>s1/transcoder\<close> takes the claim of \<open>s1\<close>.\<close>

lemma names_escape:
  "StreamSettingsPath ''../stream/s1'' = StreamPath ''s1''" "StreamPath ''s1/transcoder'' = StreamTranscoderPath ''s1''"
  by code_simp+

end
