(* ===== verification/Loops.thy ===== *)
theory Loops
  imports WatchLoop StoreTyping
begin

text \<open>
  The goroutines \<open>run\<close> of the services that watch the store: the authentication service
  (\<open>auth/watcher.go\<close>), the transcoder (\<open>transcode/transcoder.go\<close>) and the monitor (\<open>monitor/watcher.go\<close>). Each
  starts its watches, ends the program when one cannot be started or a channel is closed, and otherwise
  goes round until its context ends. A round of a loop is a function of what it has received; the
  processes of theory \<open>WatchLoop\<close> put the rounds together with the watch and everything else that happens.
\<close>

section \<open>The authentication service\<close>

definition auth_run_start :: "string option \<Rightarrow> string + auth_watcher process" where
  "auth_run_start parseErr =
     (case Consul_Watch parseErr of
        Inl _ \<Rightarrow> Inl ''auth: stream watch''
      | Inr w \<Rightarrow> Inr (process_start w newWatcher))"

definition auth_round :: "(string \<Rightarrow> string + Settings) \<Rightarrow> WatchUpdate list option \<Rightarrow> auth_watcher \<Rightarrow> auth_watcher loop" where
  "auth_round unmarshal msg w =
     (case msg of
        None \<Rightarrow> Exited ''auth: stream watch closed''
      | Some updates \<Rightarrow> Looping (handleSettingsUpdates unmarshal updates w))"

interpretation awl: watch_loop "\<lambda>u w w'. w' = handleStreamSettings unmarshal u w" aw_settings settings_name
  "decoded unmarshal" settings_key "\<lambda>msg w l. l = auth_round unmarshal msg w" "\<lambda>_ _. False" for unmarshal
  by unfold_locales (auto simp: auth_round_def handleSettingsUpdates_def aw_handles)

section \<open>The transcoder\<close>

text \<open>The start of \<open>run\<close>: nothing while the loop that announces the transcoder still waits, otherwise the end of
  the program or the two watches.\<close>

definition Transcoder_run_start :: "'k kv_api \<Rightarrow> codec \<Rightarrow> time \<Rightarrow> time list \<Rightarrow> string option \<Rightarrow> string option \<Rightarrow> 'k Transcoder \<Rightarrow> 'k host \<Rightarrow>
    (string + watch \<times> watch) option \<times> 'k host" where
  "Transcoder_run_start api js deadline nows err1 err2 t h =
     (case publishLoop api js deadline nows t h of
        (StillWaiting, h1) \<Rightarrow> (None, h1)
      | (PublishFatal e, h1) \<Rightarrow> (Some (Inl ''transcoder/publish''), h1)
      | (PublishedStatus, h1) \<Rightarrow>
          (case Consul_Watch err1 of
             Inl _ \<Rightarrow> (Some (Inl ''transcoder watch''), h1)
           | Inr w1 \<Rightarrow>
               (case Consul_Watch err2 of
                  Inl _ \<Rightarrow> (Some (Inl ''stream watch''), h1)
                | Inr w2 \<Rightarrow> (Some (Inr (w1, w2)), h1))))"

definition Transcoder_transcoders_round :: "codec \<Rightarrow> WatchUpdate list option \<Rightarrow> 'k Transcoder \<times> 'k host \<Rightarrow> ('k Transcoder \<times> 'k host) loop" where
  "Transcoder_transcoders_round js msg th =
     (case msg of
        None \<Rightarrow> Exited ''transcoder watch closed''
      | Some updates \<Rightarrow> Looping (fold (handleTranscoder js) updates (fst th), snd th))"

text \<open>Every update comes with what is left open in its claim.\<close>

definition Transcoder_streams_round :: "'k kv_api \<Rightarrow> codec \<Rightarrow> (WatchUpdate \<times> claim_choice) list option \<Rightarrow> 'k Transcoder \<times> 'k host \<Rightarrow>
    ('k Transcoder \<times> 'k host) loop go" where
  "Transcoder_streams_round api js msg th =
     (case msg of
        None \<Rightarrow> Inr (Exited ''stream watch closed'')
      | Some updates \<Rightarrow> go_bind (go_fold (\<lambda>(update, ch). Transcoder_handleStream api js ch update) updates th) (\<lambda>th'. Inr (Looping th')))"

text \<open>A round on the updates \<open>msg\<close>, with sorted slices of the transcoders that it knows.\<close>

definition stream_round :: "'k kv_api \<Rightarrow> codec \<Rightarrow> WatchUpdate list option \<Rightarrow> 'k Transcoder \<times> 'k host \<Rightarrow> ('k Transcoder \<times> 'k host) loop \<Rightarrow> bool" where
  "stream_round api js msg th l \<longleftrightarrow> (\<exists>chs. (\<forall>ch \<in> set chs. sorted_transcoders (fst th) (cc_transcoders ch)) \<and>
     (case msg of
        None \<Rightarrow> Transcoder_streams_round api js None th = Inr l
      | Some us \<Rightarrow> length chs = length us \<and> Transcoder_streams_round api js (Some (zip us chs)) th = Inr l))"

text \<open>What else happens to a transcoder: the rounds of its loop for the other watch and the ticker, the
  goroutines of its services, and changes of the host and the store by others.\<close>

inductive transcoder_other :: "'k kv_api \<Rightarrow> codec \<Rightarrow> 'k Transcoder \<times> 'k host \<Rightarrow> 'k Transcoder \<times> 'k host \<Rightarrow> bool" for api js where
  transcoders: "Transcoder_transcoders_round js (Some us) th = Looping th' \<Longrightarrow> transcoder_other api js th th'"
| tick: "range_order (tc_services t) ks \<Longrightarrow> range_order (tc_streams t) ss \<Longrightarrow> sorted_transcoders t ys \<Longrightarrow>
    (\<And>k. sorted_transcoders t (cc_transcoders (chs k))) \<Longrightarrow> Transcoder_tick api js ks ys ss chs (t, h) = Inr th' \<Longrightarrow>
    transcoder_other api js (t, h) th'"
| services: "tc_services t key = Some (Some s) \<Longrightarrow> service_runs (s, h) (s', h') \<Longrightarrow>
    transcoder_other api js (t, h) (t\<lparr>tc_services := (tc_services t)(key \<mapsto> Some s')\<rparr>, h')"
| world: "transcoder_other api js (t, h) (t, h')"

lemma handleTranscoder_frame:
  "tc_streams (handleTranscoder js u t) = tc_streams t" "tc_streamTranscoders (handleTranscoder js u t) = tc_streamTranscoders t"
  by (simp_all add: handleTranscoder_def split: option.splits prod.splits UpdateType.splits sum.splits)

lemma transcoder_other_view:
  assumes "transcoder_other api js th th'"
  shows "tc_streams (fst th') = tc_streams (fst th) \<and> tc_streamTranscoders (fst th') = tc_streamTranscoders (fst th)"
  using assms
proof (cases rule: transcoder_other.cases)
  case (transcoders us)
  have "tc_streams (fold (handleTranscoder js) us t) = tc_streams t \<and> tc_streamTranscoders (fold (handleTranscoder js) us t) = tc_streamTranscoders t"
    for t :: "'a Transcoder"
    by (induction us arbitrary: t) (simp_all add: handleTranscoder_frame)
  with transcoders show ?thesis by (auto simp: Transcoder_transcoders_round_def)
next
  case (tick t ks ss ys chs h)
  let ?P = "\<lambda>x. tc_streams x = tc_streams t \<and> tc_streamTranscoders x = tc_streamTranscoders t"
  obtain t' h' where th': "th' = (t', h')" by fastforce
  have "?P t'"
  proof (rule tick_keeps [OF tick(6) [unfolded th']])
    show "?P y" if "?P x" "tickService api js key (x, g) = Inr (y, g')" for x g key y g'
      using tickService_effect [OF that(2)] that(1) by auto
    show "?P y" if "?P x" "tickStream api js chs key (x, g) = Inr (y, g')" for x g key y g'
      using tickStream_effect [OF that(2)] that(1) claim_effect_frame(4,5) by metis
  qed simp
  with tick(1) th' show ?thesis by simp
qed simp_all

lemma stream_round_handles:
  assumes "stream_round api js (Some us) th l"
  shows "\<exists>th'. l = Looping th' \<and> handles_all (stream_step api js) us th th'"
proof -
  from assms obtain chs th' where chs: "length chs = length us" "l = Looping th'"
    "go_fold (\<lambda>(u, ch). Transcoder_handleStream api js ch u) (zip us chs) th = Inr th'"
    by (auto simp: stream_round_def Transcoder_streams_round_def go_bind_Inr_iff)
  from chs(1,3) have "handles_all (stream_step api js) us th th'"
  proof (induction us chs arbitrary: th rule: list_induct2')
    case (4 u us ch chs)
    then show ?case by (auto simp: go_bind_Inr_iff stream_step_def)
  qed simp_all
  with chs(2) show ?thesis by blast
qed

interpretation tsl: watch_loop "stream_step api js" "\<lambda>th. tc_streams (fst th)" stream_name "decoded (unmarshal_stream js)" "\<lambda>_. True"
  "stream_round api js" "transcoder_other api js" for api js
  by unfold_locales (use stream_round_handles transcoder_other_view in blast)+

interpretation ttl: watch_loop "stream_step api js" "\<lambda>th. tc_streamTranscoders (fst th)" stream_transcoder_name Some "\<lambda>_. True"
  "stream_round api js" "transcoder_other api js" for api js
  by unfold_locales (use stream_round_handles transcoder_other_view in blast)+

text \<open>The loop takes only steps of \<open>transcoder_step\<close>, whose invariants it therefore keeps.\<close>

lemma transcoder_reach_trans:
  "transcoder_reach api js seen b c \<Longrightarrow> transcoder_reach api js seen a b \<Longrightarrow> transcoder_reach api js seen a c"
  by (induction rule: transcoder_reach.induct) (auto intro: transcoder_reach.step)

lemma transcoder_reach_act: "transcoder_act api js seen a b \<Longrightarrow> transcoder_reach api js seen a b"
  using transcoder_reach.step [OF transcoder_reach.here transcoder_step.act] .

lemma transcoders_round_reach: "transcoder_reach api js (\<lambda>_. True) (t, h) (fold (handleTranscoder js) us t, h)"
proof (induction us arbitrary: t)
  case Nil
  show ?case by (simp add: transcoder_reach.here)
next
  case (Cons u us)
  have "transcoder_act api js (\<lambda>_. True) (t, h) (handleTranscoder js u t, h)" by (rule transcoder_act.transcoder_update) simp
  from transcoder_reach_trans [OF Cons.IH transcoder_reach_act [OF this]] show ?case by simp
qed

lemma streams_round_reach:
  assumes "length chs = length us" "\<forall>ch \<in> set chs. sorted_transcoders (fst th) (cc_transcoders ch)"
    and "go_fold (\<lambda>(u, ch). Transcoder_handleStream api js ch u) (zip us chs) th = Inr th'"
  shows "transcoder_reach api js (\<lambda>_. True) th th'"
  using assms
proof (induction us chs arbitrary: th rule: list_induct2')
  case (4 u us ch chs)
  obtain t h where th: "th = (t, h)" by fastforce
  from 4(4) obtain t1 h1 where one: "Transcoder_handleStream api js ch u (t, h) = Inr (t1, h1)"
    and rest: "go_fold (\<lambda>(u, ch). Transcoder_handleStream api js ch u) (zip us chs) (t1, h1) = Inr th'"
    by (auto simp: th go_bind_Inr_iff)
  have "tc_transcoders t1 = tc_transcoders t"
    using handleStream_effect [OF one] claim_effect_frame(3) by fastforce
  then have "\<forall>ch \<in> set chs. sorted_transcoders (fst (t1, h1)) (cc_transcoders ch)"
    using 4(3) by (simp add: th sorted_transcoders_def)
  with 4(1) [OF _ _ rest] 4(2) have "transcoder_reach api js (\<lambda>_. True) (t1, h1) th'" by simp
  moreover have "transcoder_act api js (\<lambda>_. True) (t, h) (t1, h1)"
    by (rule transcoder_act.stream_update [OF _ one]) (use 4(3) th in simp)
  ultimately show ?case unfolding th using transcoder_reach_trans transcoder_reach_act by blast
qed (simp_all add: transcoder_reach.here)

lemma transcoder_other_reach: "transcoder_other api js th th' \<Longrightarrow> transcoder_reach api js (\<lambda>_. True) th th'"
proof (induction rule: transcoder_other.induct)
  case (transcoders us th th')
  then have "th' = (fold (handleTranscoder js) us (fst th), snd th)" by (simp add: Transcoder_transcoders_round_def)
  with transcoders_round_reach [of api js "fst th" "snd th" us] show ?case by simp
next
  case (tick t ks ss ys chs h th')
  from transcoder_act.ticked [OF tick] show ?case by (rule transcoder_reach_act)
next
  case (services t key s h s' h')
  from transcoder_act.service [OF services] show ?case by (rule transcoder_reach_act)
next
  case (world t h h')
  show ?case by (rule transcoder_reach.step [OF transcoder_reach.here transcoder_step.others])
qed

lemma stream_round_reach:
  "stream_round api js (Some us) th (Looping th') \<Longrightarrow> transcoder_reach api js (\<lambda>_. True) th th'"
  unfolding stream_round_def using streams_round_reach [where us = us and th = th and th' = th']
  by (auto simp: Transcoder_streams_round_def go_bind_Inr_iff)

lemma transcoder_loop_reach:
  assumes "process_reach (stream_round api js) (transcoder_other api js) snaps (process_start w th0) p"
    and "pr_loop p = Looping th \<or> pr_loop p = Returned th"
  shows "transcoder_reach api js (\<lambda>_. True) th0 th"
  using assms
proof (induction arbitrary: th rule: process_reach.induct)
  case here
  then show ?case by (simp add: process_start_def transcoder_reach.here)
next
  case (step p p')
  from step(2) show ?case
  proof (cases rule: process_step.cases)
    case (receive s us l)
    with step(4) stream_round_handles [OF receive(4)] have "stream_round api js (Some us) s (Looping th)" by auto
    with transcoder_reach_trans [OF stream_round_reach step(3)] receive(2) show ?thesis by blast
  next
    case (otherwise s s')
    with step(4) have "transcoder_other api js s th" by simp
    with transcoder_reach_trans [OF transcoder_other_reach step(3)] otherwise(2) show ?thesis by blast
  qed (use step(3,4) in auto)
qed

section \<open>The monitor\<close>

definition mon_run_start :: "string option \<Rightarrow> string option \<Rightarrow> string + watch \<times> watch" where
  "mon_run_start err1 err2 =
     (case Consul_Watch err1 of
        Inl _ \<Rightarrow> Inl ''transcoder watch''
      | Inr w1 \<Rightarrow> (case Consul_Watch err2 of Inl _ \<Rightarrow> Inl ''stream watch'' | Inr w2 \<Rightarrow> Inr (w1, w2)))"

text \<open>A round returns the watcher and the messages it has sent to the server.\<close>

definition sending :: "(WatchUpdate \<Rightarrow> mon_watcher \<Rightarrow> mon_watcher \<times> message option) \<Rightarrow> WatchUpdate \<Rightarrow>
    mon_watcher \<times> message list \<Rightarrow> mon_watcher \<times> message list" where
  "sending handle u wm = (case handle u (fst wm) of (w, m) \<Rightarrow> (w, snd wm @ (case m of None \<Rightarrow> [] | Some x \<Rightarrow> [x])))"

definition mon_transcoders_round :: "codec \<Rightarrow> WatchUpdate list option \<Rightarrow> mon_watcher \<times> message list \<Rightarrow> (mon_watcher \<times> message list) loop" where
  "mon_transcoders_round js msg wm =
     (case msg of
        None \<Rightarrow> Exited ''transcoder watch closed''
      | Some updates \<Rightarrow> Looping (fold (sending (mon_handleTranscoder js)) updates wm))"

definition mon_streams_round :: "codec \<Rightarrow> WatchUpdate list option \<Rightarrow> mon_watcher \<times> message list \<Rightarrow> (mon_watcher \<times> message list) loop" where
  "mon_streams_round js msg wm =
     (case msg of
        None \<Rightarrow> Exited ''stream watch closed''
      | Some updates \<Rightarrow> Looping (fold (sending (mon_handleStream js)) updates wm))"

definition mon_stream_step :: "codec \<Rightarrow> WatchUpdate \<Rightarrow> mon_watcher \<times> message list \<Rightarrow> mon_watcher \<times> message list \<Rightarrow> bool" where
  "mon_stream_step js u wm wm' \<longleftrightarrow> wm' = sending (mon_handleStream js) u wm"

definition mon_other :: "codec \<Rightarrow> mon_watcher \<times> message list \<Rightarrow> mon_watcher \<times> message list \<Rightarrow> bool" where
  "mon_other js wm wm' \<longleftrightarrow> (\<exists>us. mon_transcoders_round js (Some us) wm = Looping wm')"

lemma mon_streams_handles: "\<exists>wm'. mon_streams_round js (Some us) wm = Looping wm' \<and> handles_all (mon_stream_step js) us wm wm'"
  unfolding mon_streams_round_def by (induction us arbitrary: wm) (simp_all add: mon_stream_step_def)

lemma mon_other_tables: "mon_other js wm wm' \<Longrightarrow> mon_tables (fst wm') = mon_tables (fst wm)"
proof -
  have "mon_tables (fst (fold (sending (mon_handleTranscoder js)) us wm)) = mon_tables (fst wm)" for us wm
    by (induction us arbitrary: wm)
       (auto simp: sending_def mon_handleTranscoder_def mon_tables_def Let_def split: option.splits sum.splits UpdateType.splits prod.splits)
  then show "mon_other js wm wm' \<Longrightarrow> mon_tables (fst wm') = mon_tables (fst wm)"
    unfolding mon_other_def mon_transcoders_round_def option.case loop.inject by (elim exE) (drule sym, simp only:)
qed

lemma mon_stream_step_tables: "mon_stream_step js u wm wm' \<Longrightarrow> tables_step js u (mon_tables (fst wm)) (mon_tables (fst wm'))"
  by (auto simp: mon_stream_step_def sending_def tables_step_def split: prod.splits intro!: exI [of _ "fst wm"])

text \<open>The watcher's tables are a consumer, so the watcher is one.\<close>

lemma watch_consumer_image:
  assumes "watch_consumer step view name decode known" "\<And>u s s'. step' u s s' \<Longrightarrow> step u (f s) (f s')"
  shows "watch_consumer step' (\<lambda>s. view (f s)) name decode known"
proof
  fix s s' n x k k' kv
  show "view (f s') = (view (f s))(n \<mapsto> x)" if "step' (put_update kv) s s'" "name (kv_Key kv) = Some n" "decode (kv_Value kv) = Some x"
    by (rule watch_consumer.put_law [OF assms(1) assms(2) [OF that(1)] that(2,3)])
  show "view (f s') = (view (f s))(n := None)" if "step' (del_update k) s s'" "name k = Some n"
    by (rule watch_consumer.del_law [OF assms(1) assms(2) [OF that(1)] that(2)])
  show "view (f s') = view (f s)" if "step' (put_update kv) s s'" "name (kv_Key kv) = None"
    by (rule watch_consumer.put_other [OF assms(1) assms(2) [OF that(1)] that(2)])
  show "view (f s') = view (f s)" if "step' (del_update k) s s'" "name k = None"
    by (rule watch_consumer.del_other [OF assms(1) assms(2) [OF that(1)] that(2)])
  show "k = k'" if "known k" "known k'" "name k = Some n" "name k' = Some n"
    by (rule watch_consumer.name_unique [OF assms(1) that])
qed

lemma mon_watch_loop:
  assumes "watch_consumer (tables_step js) view name decode known"
  shows "watch_loop (mon_stream_step js) (\<lambda>wm. view (mon_tables (fst wm))) name decode known
    (\<lambda>msg wm l. l = mon_streams_round js msg wm) (mon_other js)"
  by (intro watch_loop.intro watch_consumer_image [OF assms mon_stream_step_tables] watch_loop_axioms.intro)
     (simp_all only: mon_streams_handles mon_other_tables)

interpretation msl: watch_loop "mon_stream_step js" "\<lambda>wm. fst (mon_tables (fst wm))" stream_name "decoded (unmarshal_stream js)" "\<lambda>_. True"
  "\<lambda>msg wm l. l = mon_streams_round js msg wm" "mon_other js" for js
  by (rule mon_watch_loop [OF ms.watch_consumer_axioms])

interpretation mcl: watch_loop "mon_stream_step js" "\<lambda>wm. snd (mon_tables (fst wm))" stream_transcoder_name Some "\<lambda>_. True"
  "\<lambda>msg wm l. l = mon_streams_round js msg wm" "mon_other js" for js
  by (rule mon_watch_loop [OF mc.watch_consumer_axioms])

section \<open>What the loops hold\<close>

lemma auth_process_ok:
  assumes "auth_run_start None = Inr p0" "process_reach (\<lambda>msg w l. l = auth_round unmarshal msg w) (\<lambda>_ _. False) snaps p0 p"
    and "\<forall>pairs. snaps pairs \<longrightarrow> distinct (map kv_Key pairs) \<and> list_all (settings_pair unmarshal) pairs"
  shows "awl.process_ok unmarshal p"
proof -
  obtain w0 where w0: "Consul_Watch None = Inr w0" "p0 = process_start w0 newWatcher"
    using assms(1) by (auto simp: auth_run_start_def split: sum.splits)
  show ?thesis
  proof (rule awl.process_reach_ok [OF assms(2) [unfolded w0(2)] w0(1)])
    show "distinct (map kv_Key pairs) \<and> list_all (aw.readable unmarshal) pairs" if "snaps pairs" for pairs
      using assms(3) that by (auto simp: list_all_iff settings_pair_def aw.readable_def)
  qed (simp add: newWatcher_def)
qed

lemma auth_settings_held:
  assumes "awl.process_ok unmarshal p" "pr_loop p = Looping w" "wt_sending (pr_watch p) = None"
  shows "aw_settings w n = Some s \<longleftrightarrow> (\<exists>kv \<in> set (pr_last p). kv_Key kv = ''streamSettings/'' @ n \<and> unmarshal (kv_Value kv) = Inr s)"
proof -
  have "settings_name (kv_Key kv) = Some n \<longleftrightarrow> kv_Key kv = ''streamSettings/'' @ n" if "kv \<in> set (pr_last p)" for kv
    by (rule settings_name_iff) (use awl.process_ok_last [OF assms(1) that] in \<open>simp add: aw.readable_def\<close>)
  then show ?thesis unfolding awl.process_ok_holds [OF assms] decoded_Some_iff by blast
qed

lemma transcoder_process_ok:
  assumes "Transcoder_run_start api js deadline nows None None (Transcoder_New conf name) h = (Some (Inr (w1, w2)), h1)"
    and "process_reach (stream_round api js) (transcoder_other api js) snaps (process_start w2 (Transcoder_New conf name, h1)) p"
    and "\<forall>pairs. snaps pairs \<longrightarrow> distinct (map kv_Key pairs) \<and> list_all (stream_pair js) pairs"
  shows "tsl.process_ok js p \<and> ttl.process_ok p"
proof
  have w2: "Consul_Watch None = Inr w2"
    using assms(1) by (auto simp: Transcoder_run_start_def Consul_Watch_def split: prod.splits publish_loop.splits)
  show "tsl.process_ok js p"
  proof (rule tsl.process_reach_ok [OF assms(2) w2])
    show "distinct (map kv_Key pairs) \<and> list_all (ts.readable js) pairs" if "snaps pairs" for pairs
      using assms(3) [rule_format, OF that]
      by (auto simp: list_all_iff stream_pair_def ts.readable_def stream_name_def decoded_def split: sum.splits)
  qed (simp add: Transcoder_New_def)
  show "ttl.process_ok p"
  proof (rule ttl.process_reach_ok [OF assms(2) w2])
    show "distinct (map kv_Key pairs) \<and> list_all tt.readable pairs" if "snaps pairs" for pairs
      using assms(3) that by (auto simp: list_all_iff tt.readable_def)
  qed (simp add: Transcoder_New_def)
qed

lemma transcoder_streams_held:
  assumes "tsl.process_ok js p" "pr_loop p = Looping (t, h')" "wt_sending (pr_watch p) = None"
  shows "tc_streams t slug = Some s \<longleftrightarrow> slug \<noteq> [] \<and>
    (\<exists>kv \<in> set (pr_last p). split slash (kv_Key kv) = [''stream'', slug] \<and> unmarshal_stream js (kv_Value kv) = Inr s)"
  using tsl.process_ok_holds [OF assms, of slug s] unfolding fst_conv stream_name_iff decoded_Some_iff by blast

lemma transcoder_claims_held:
  assumes "ttl.process_ok p" "pr_loop p = Looping (t, h')" "wt_sending (pr_watch p) = None"
  shows "tc_streamTranscoders t slug = Some owner \<longleftrightarrow> slug \<noteq> [] \<and>
    (\<exists>kv \<in> set (pr_last p). split slash (kv_Key kv) = [''stream'', slug, ''transcoder''] \<and> kv_Value kv = owner)"
  using ttl.process_ok_holds [OF assms, of slug owner] unfolding fst_conv stream_transcoder_name_iff option.inject by blast

text \<open>Processes that have received one snapshot.\<close>

lemma demo_auth_process:
  fixes kv :: KVPair
  obtains p0 p w where "auth_run_start None = Inr p0"
    "process_reach (\<lambda>msg w l. l = auth_round unmarshal msg w) (\<lambda>_ _. False) (\<lambda>pairs. pairs = [kv]) p0 p"
    "pr_loop p = Looping w" "wt_sending (pr_watch p) = None" "pr_last p = [kv]"
proof -
  obtain w0 where w0: "Consul_Watch None = Inr w0" by (simp add: Consul_Watch_def)
  then have "auth_run_start None = Inr (process_start w0 newWatcher)" by (simp add: auth_run_start_def)
  with first_delivery [OF w0, of "\<lambda>pairs. pairs = [kv]" kv "\<lambda>msg w l. l = auth_round unmarshal msg w" newWatcher
      "handleSettingsUpdates unmarshal [put_update kv] newWatcher" "\<lambda>_ _. False"]
  show thesis by (auto simp: auth_round_def intro: that)
qed

lemma demo_transcoder_process:
  fixes kv :: KVPair
  defines "kv \<equiv> \<lparr>kv_Key = ''stream/s1'', kv_Value = ''s1''\<rparr>"
  obtains w h1 p t where "Transcoder_run_start demo_api demo_js 1 [0] None None demo_transcoder demo_host = (Some (Inr (w, w)), h1)"
    "process_reach (stream_round demo_api demo_js) (transcoder_other demo_api demo_js) (\<lambda>pairs. pairs = [kv]) (process_start w (demo_transcoder, h1)) p"
    "pr_loop p = Looping (t, h1)" "wt_sending (pr_watch p) = None" "pr_last p = [kv]"
proof -
  let ?ch = "demo_choice\<lparr>cc_transcoders := []\<rparr>"
  obtain w where w: "Consul_Watch None = Inr w" by (simp add: Consul_Watch_def)
  obtain h1 where start: "Transcoder_run_start demo_api demo_js 1 [0] None None demo_transcoder demo_host = (Some (Inr (w, w)), h1)"
    using w by (simp add: Transcoder_run_start_def publishStatus_def demo_api_def demo_js_def)
  obtain t where h: "Transcoder_handleStream demo_api demo_js ?ch (put_update kv) (demo_transcoder, h1) = Inr (t, h1)"
    by (simp add: kv_def Transcoder_handleStream_def Transcoder_handleStreamUpdate_def claimStream_def shouldClaim_def
        put_update_def ParseStreamName_def PathIsStream_def demo_js_def Let_def)
  have "sorted_transcoders demo_transcoder []"
    by (simp add: sorted_transcoders_def demo_transcoder_def Transcoder_New_def sort_outcome_def)
  with h have round: "stream_round demo_api demo_js (Some [put_update kv]) (demo_transcoder, h1) (Looping (t, h1))"
    unfolding stream_round_def by (intro exI [of _ "[?ch]"]) (simp add: Transcoder_streams_round_def)
  from first_delivery [where round = "stream_round demo_api demo_js" and other = "transcoder_other demo_api demo_js" and kv = kv
      and snaps = "\<lambda>pairs. pairs = [kv]", OF w refl round]
  show thesis using that [OF start] by blast
qed

section \<open>Properties\<close>

text \<open>C28. The service decides by the settings in the store: whatever snapshots of the store its watch delivers
  and whenever the loop receives them, once it has received what was sent, a publisher is let
  through exactly if the last snapshot delivered has settings for the stream's name with the application
  and the secret that the publisher gives. The loop never ends the program, and returns only when the
  context has ended.\<close>

theorem auth_loop_follows:
  assumes "auth_run_start None = Inr p0" "process_reach (\<lambda>msg w l. l = auth_round unmarshal msg w) (\<lambda>_ _. False) snaps p0 p"
    and "\<forall>pairs. snaps pairs \<longrightarrow> distinct (map kv_Key pairs) \<and> list_all (settings_pair unmarshal) pairs"
  shows "(\<forall>msg. pr_loop p \<noteq> Exited msg) \<and> (\<forall>w. pr_loop p = Returned w \<longrightarrow> pr_done p)
    \<and> (\<forall>w f. pr_loop p = Looping w \<and> wt_sending (pr_watch p) = None \<longrightarrow>
         authHandler w (Inr f) =
           (if \<exists>kv \<in> set (pr_last p). \<exists>s. kv_Key kv = ''streamSettings/'' @ form_get f ''name'' \<and> unmarshal (kv_Value kv) = Inr s
                 \<and> se_IngestType s = form_get f ''app'' \<and> se_Secret s = form_get f ''auth''
            then 200 else StatusUnauthorized))"
proof -
  note ok = auth_process_ok [OF assms]
  have "authHandler w (Inr f) = (if \<exists>kv \<in> set (pr_last p). \<exists>s. kv_Key kv = ''streamSettings/'' @ form_get f ''name'' \<and> unmarshal (kv_Value kv) = Inr s
        \<and> se_IngestType s = form_get f ''app'' \<and> se_Secret s = form_get f ''auth'' then 200 else StatusUnauthorized)"
    if "pr_loop p = Looping w" "wt_sending (pr_watch p) = None" for w f
    unfolding authHandler_form auth_settings_held [OF ok that] by (rule if_cong) blast+
  with awl.process_ok_end [OF ok] show ?thesis by blast
qed

theorem auth_loop_follows_witness:
  "\<exists>p0 p w. auth_run_start None = Inr p0 \<and> process_reach (\<lambda>msg w l. l = auth_round demo_settings msg w) (\<lambda>_ _. False)
       (\<lambda>pairs. pairs = [\<lparr>kv_Key = ''streamSettings/s1'', kv_Value = ''pw''\<rparr>]) p0 p
     \<and> pr_loop p = Looping w \<and> authHandler w (Inr [''app'' \<mapsto> [''stream''], ''name'' \<mapsto> [''s1''], ''auth'' \<mapsto> [''pw'']]) = 200"
proof -
  let ?kv = "\<lparr>kv_Key = ''streamSettings/s1'', kv_Value = ''pw''\<rparr>" and ?f = "[''app'' \<mapsto> [''stream''], ''name'' \<mapsto> [''s1''], ''auth'' \<mapsto> [''pw'']]"
  obtain p0 p w where p: "auth_run_start None = Inr p0"
    "process_reach (\<lambda>msg w l. l = auth_round demo_settings msg w) (\<lambda>_ _. False) (\<lambda>pairs. pairs = [?kv]) p0 p"
    "pr_loop p = Looping w" "wt_sending (pr_watch p) = None" "pr_last p = [?kv]"
    by (rule demo_auth_process)
  have "settings_key ''streamSettings/s1''" using settings_key_iff [of "''streamSettings/s1''" "''s1''"] by simp
  then have snaps: "\<forall>pairs. pairs = [?kv] \<longrightarrow> distinct (map kv_Key pairs) \<and> list_all (settings_pair demo_settings) pairs"
    by (simp add: settings_pair_def decoded_def demo_settings_def)
  from auth_loop_follows [OF p(1,2) snaps, THEN conjunct2, THEN conjunct2, THEN spec [of _ w], THEN spec [of _ ?f], THEN mp, OF conjI [OF p(3,4)]]
  have "authHandler w (Inr ?f) = 200" unfolding p(5) by (simp add: form_get_def demo_settings_def)
  with p(1-3) show ?thesis by blast
qed

text \<open>C33. The loop of a transcoder keeps a copy of the store: however the snapshots of its watch, the ticks,
  the updates of other transcoders, the goroutines of its services and its claims interleave, once it
  has received what was sent it knows exactly the streams and exactly the claims of the last snapshot delivered.
  All it does are steps of \<open>transcoder_step\<close>; it never ends the program and returns only when the context has ended.\<close>

theorem transcoder_loop_current:
  assumes "Transcoder_run_start api js deadline nows None None (Transcoder_New conf name) h = (Some (Inr (w1, w2)), h1)"
    and "process_reach (stream_round api js) (transcoder_other api js) snaps (process_start w2 (Transcoder_New conf name, h1)) p"
    and "\<forall>pairs. snaps pairs \<longrightarrow> distinct (map kv_Key pairs) \<and> list_all (stream_pair js) pairs"
  shows "(\<forall>msg. pr_loop p \<noteq> Exited msg) \<and> (\<forall>th. pr_loop p = Returned th \<longrightarrow> pr_done p)
    \<and> (\<forall>t h'. pr_loop p = Looping (t, h') \<longrightarrow>
         transcoder_reach api js (\<lambda>_. True) (Transcoder_New conf name, h1) (t, h')
         \<and> (wt_sending (pr_watch p) = None \<longrightarrow>
              (\<forall>slug s. tc_streams t slug = Some s \<longleftrightarrow> slug \<noteq> [] \<and>
                 (\<exists>kv \<in> set (pr_last p). split slash (kv_Key kv) = [''stream'', slug] \<and> unmarshal_stream js (kv_Value kv) = Inr s))
              \<and> (\<forall>slug owner. tc_streamTranscoders t slug = Some owner \<longleftrightarrow> slug \<noteq> [] \<and>
                 (\<exists>kv \<in> set (pr_last p). split slash (kv_Key kv) = [''stream'', slug, ''transcoder''] \<and> kv_Value kv = owner))))"
proof -
  have ok: "tsl.process_ok js p" "ttl.process_ok p" using transcoder_process_ok [OF assms] by blast+
  show ?thesis
  proof (intro conjI allI impI)
    show "transcoder_reach api js (\<lambda>_. True) (Transcoder_New conf name, h1) (t, h')" if "pr_loop p = Looping (t, h')" for t h'
      by (rule transcoder_loop_reach [OF assms(2) disjI1 [OF that]])
  qed (use tsl.process_ok_end [OF ok(1)] transcoder_streams_held [OF ok(1)] transcoder_claims_held [OF ok(2)] in blast)+
qed

theorem transcoder_loop_current_witness:
  "\<exists>h1 w p t h'. process_reach (stream_round demo_api demo_js) (transcoder_other demo_api demo_js)
       (\<lambda>pairs. pairs = [\<lparr>kv_Key = ''stream/s1'', kv_Value = ''s1''\<rparr>]) (process_start w (demo_transcoder, h1)) p
     \<and> pr_loop p = Looping (t, h') \<and> (\<exists>s. tc_streams t ''s1'' = Some s)"
proof -
  let ?kv = "\<lparr>kv_Key = ''stream/s1'', kv_Value = ''s1''\<rparr>"
  obtain w h1 p t where start: "Transcoder_run_start demo_api demo_js 1 [0] None None demo_transcoder demo_host = (Some (Inr (w, w)), h1)"
    and p: "process_reach (stream_round demo_api demo_js) (transcoder_other demo_api demo_js) (\<lambda>pairs. pairs = [?kv]) (process_start w (demo_transcoder, h1)) p"
    "pr_loop p = Looping (t, h1)" "wt_sending (pr_watch p) = None" "pr_last p = [?kv]"
    by (rule demo_transcoder_process)
  have snaps: "\<forall>pairs. pairs = [?kv] \<longrightarrow> distinct (map kv_Key pairs) \<and> list_all (stream_pair demo_js) pairs"
    by (simp add: stream_pair_def demo_js_def)
  from transcoder_loop_current [OF start [unfolded demo_transcoder_def] p(1) [unfolded demo_transcoder_def] snaps, THEN conjunct2, THEN conjunct2,
      THEN spec [of _ t], THEN spec [of _ h1], THEN mp, OF p(2)] p(3,4)
  have "\<exists>s. tc_streams t ''s1'' = Some s" by (simp add: demo_js_def)
  with p(1,2) show ?thesis by blast
qed

end
