(* ===== verification/LogReceiver.thy ===== *)
theory LogReceiver
  imports Playlist
begin

text \<open>
  Package \<open>logreceiver\<close>: it counts the viewers of each stream on a relay from the access log of nginx
  (\<open>parser.go\<close>), knows the qualities of a stream from its master playlist (\<open>hls.go\<close>), and names the
  client from its user agent (\<open>useragent.go\<close>).

  The decoders of syslog messages and of JSON, the answers of the relay to requests for playlists and
  the test whether a playlist is a master are arguments. Times are readings of the clock, passed in the order
  in which the code takes them; a range over a map takes the order of its keys. The qualities of a
  stream live behind a pointer that a pending update of its playlist may hold longer than the parser
  itself, so streams are addressed by references into a heap. \<open>audioGroups\<close>, which is only written, and
  the unused types of \<open>parser.go\<close> are left out.
\<close>

section \<open>Streams and users\<close>

type_synonym StreamTransport = string
type_synonym StreamType = string

definition StreamTransportHLS :: StreamTransport where "StreamTransportHLS = ''hls''"
definition StreamTransportHLSLL :: StreamTransport where "StreamTransportHLSLL = ''hlsll''"
definition StreamTransportDASH :: StreamTransport where "StreamTransportDASH = ''dash''"
definition StreamTypeVideo :: StreamType where "StreamTypeVideo = ''video''"
definition StreamTypeAudio :: StreamType where "StreamTypeAudio = ''audio''"

record StreamId =
  si_Slug :: string
  si_Transport :: StreamTransport
  si_Type :: StreamType
  si_Variant :: string
  si_Quality :: string
  si_Meta :: string

record UserId =
  ui_Ip :: string
  ui_Agent :: string
  ui_Country :: string

record log_Segment =
  sg_Timestamp :: time
  sg_StreamId :: StreamId

record NginxLogEntry =
  ne_Address :: string
  ne_Method :: string
  ne_Uri :: string
  ne_Status :: string
  ne_BytesSent :: string
  ne_Upstream :: string
  ne_Protocol :: string
  ne_Scheme :: string
  ne_SSLCipher :: string
  ne_SSLProtocol :: string
  ne_UserAgent :: string
  ne_Country :: string

record ParserConfig =
  pc_SocketPath :: string
  pc_SlidingWindow :: duration
  pc_MinSegments :: int
  pc_StreamTimeout :: duration

section \<open>Qualities of a stream\<close>

record HLSStream =
  hq_transport :: StreamTransport
  hq_qualities :: "string \<rightharpoonup> StreamId"
  hq_lastUsed :: time

record log_HLSParser =
  lh_streams :: "string \<rightharpoonup> nat"
  lh_heap :: "nat \<rightharpoonup> HLSStream"
  lh_next :: nat

definition log_NewHLSParser :: "duration \<Rightarrow> log_HLSParser \<times> duration" where
  "log_NewHLSParser streamTimeout =
     (\<lparr>lh_streams = Map.empty, lh_heap = Map.empty, lh_next = 0\<rparr>,
      if streamTimeout = 0 then 15 * minute else streamTimeout)"

definition masterPlaylistUrl :: "StreamTransport \<Rightarrow> string \<Rightarrow> string + string" where
  "masterPlaylistUrl transport slug =
     (if transport = StreamTransportHLS then Inr (''http://localhost/hls/'' @ slug @ ''/native_hd.m3u8'')
      else if transport = StreamTransportHLSLL then Inr (''http://localhost/hlsll/'' @ slug @ ''/index.m3u8'')
      else Inl (''unknown transport: '' @ transport))"

definition qualityFromSegmentURI :: "string \<Rightarrow> StreamTransport \<Rightarrow> string + string" where
  "qualityFromSegmentURI uri transport =
     (if transport = StreamTransportHLS then Inr (split (CHR ''_'') (base uri) ! 0)
      else if transport = StreamTransportHLSLL then
        let parts = split (CHR ''_'') (base uri)
        in if length parts < 2 then Inl (''unexpected segment uri '' @ uri) else Inr (parts ! 1)
      else Inl (''unknown transport: '' @ transport))"

text \<open>Decimal numbers, as \<open>%d\<close> prints them.\<close>

fun digits :: "nat \<Rightarrow> string" where
  "digits n = (if n < 10 then [char_of (48 + n)] else digits (n div 10) @ [char_of (48 + n mod 10)])"

declare digits.simps [simp del]

definition itoa :: "int \<Rightarrow> string" where
  "itoa i = (if i < 0 then ''-'' @ digits (nat (- i)) else digits (nat i))"

definition qualityName :: "string \<Rightarrow> string" where
  "qualityName uri = trimSuffix (split (CHR ''.'') uri ! 0) ''_stream''"

text \<open>One item of a master playlist.\<close>

definition addQuality :: "string \<Rightarrow> StreamTransport \<Rightarrow> item \<Rightarrow> (string \<rightharpoonup> StreamId) \<Rightarrow> (string \<rightharpoonup> StreamId)" where
  "addQuality slug transport item qualities =
     (case item of
        Media val \<Rightarrow>
          if mi_type val \<noteq> ''AUDIO'' then qualities
          else
            (let quality = \<lparr>si_Slug = slug, si_Transport = transport, si_Type = StreamTypeAudio, si_Variant = [], si_Quality = [],
                   si_Meta = (case mi_language val of None \<Rightarrow> [] | Some lang \<Rightarrow> lang)\<rparr>
             in case mi_uri val of
                  None \<Rightarrow> qualities
                | Some uri \<Rightarrow> qualities(qualityName uri \<mapsto> quality\<lparr>si_Quality := qualityName uri\<rparr>))
      | Variant val \<Rightarrow>
          qualities(qualityName (pi_uri val) \<mapsto>
            \<lparr>si_Slug = slug, si_Transport = transport, si_Type = StreamTypeVideo, si_Variant = [],
             si_Quality = qualityName (pi_uri val),
             si_Meta = (case (pi_height val, pi_width val) of
                          (Some h, Some w) \<Rightarrow> itoa w @ ''x'' @ itoa h
                        | _ \<Rightarrow> [])\<rparr>)
      | _ \<Rightarrow> qualities)"

text \<open>What the relay answers to the request for a playlist.\<close>

datatype playlist_answer = GetError string | BadStatus string | BadPlaylist string | Fetched Playlist

definition fetchPlaylist :: "(string \<Rightarrow> playlist_answer) \<Rightarrow> string \<Rightarrow> string + Playlist" where
  "fetchPlaylist get path =
     (case get path of
        GetError e \<Rightarrow> Inl (''get: '' @ e)
      | BadStatus e \<Rightarrow> Inl (''status: '' @ e)
      | BadPlaylist e \<Rightarrow> Inl (''read: '' @ e)
      | Fetched p \<Rightarrow> Inr p)"

definition updateMasterPlaylist :: "(Playlist \<Rightarrow> bool) \<Rightarrow> (string \<Rightarrow> playlist_answer) \<Rightarrow> string \<Rightarrow> nat \<Rightarrow> log_HLSParser \<Rightarrow> log_HLSParser" where
  "updateMasterPlaylist isMaster get slug ref h =
     (case lh_heap h ref of
        None \<Rightarrow> h
      | Some stream \<Rightarrow>
          (case masterPlaylistUrl (hq_transport stream) slug of
             Inl _ \<Rightarrow> h
           | Inr playlistUrl \<Rightarrow>
               (case fetchPlaylist get playlistUrl of
                  Inl _ \<Rightarrow> h
                | Inr playlist \<Rightarrow>
                    if \<not> isMaster playlist then h
                    else h\<lparr>lh_heap := (lh_heap h)(ref \<mapsto>
                           stream\<lparr>hq_qualities := fold (addQuality slug (hq_transport stream)) (pl_items playlist) Map.empty\<rparr>)\<rparr>)))"

definition log_addStream :: "time \<Rightarrow> string \<Rightarrow> StreamTransport \<Rightarrow> log_HLSParser \<Rightarrow> log_HLSParser" where
  "log_addStream now slug transport h =
     (if lh_streams h slug \<noteq> None then h
      else h\<lparr>lh_streams := (lh_streams h)(slug \<mapsto> lh_next h),
             lh_heap := (lh_heap h)(lh_next h \<mapsto> \<lparr>hq_transport = transport, hq_qualities = Map.empty, hq_lastUsed = now\<rparr>),
             lh_next := lh_next h + 1\<rparr>)"

definition isSegmentFile :: "string \<Rightarrow> bool" where
  "isSegmentFile file \<longleftrightarrow> hasSuffix file ''.ts'' \<or> hasSuffix file ''.m4s'' \<or> hasSuffix file ''.mp4''"

definition GetQuality :: "time \<Rightarrow> string \<Rightarrow> StreamTransport \<Rightarrow> string \<Rightarrow> log_HLSParser \<Rightarrow> StreamId option \<times> log_HLSParser" where
  "GetQuality now slug transport file h =
     (if \<not> isSegmentFile file then (None, h)
      else
        (case lh_streams h slug of
           None \<Rightarrow> (None, log_addStream now slug transport h)
         | Some ref \<Rightarrow>
             (case lh_heap h ref of
                None \<Rightarrow> (None, h)
              | Some stream \<Rightarrow>
                  let h1 = h\<lparr>lh_heap := (lh_heap h)(ref \<mapsto> stream\<lparr>hq_lastUsed := now\<rparr>)\<rparr>
                  in (case qualityFromSegmentURI file transport of
                        Inl _ \<Rightarrow> (None, h1)
                      | Inr name \<Rightarrow> (hq_qualities stream name, h1)))))"

text \<open>The tick of \<open>updatePlaylists\<close>: the parser, and the updates it starts.\<close>

definition refreshStream :: "(string \<Rightarrow> time) \<Rightarrow> duration \<Rightarrow> string \<Rightarrow> log_HLSParser \<times> (string \<times> nat) list \<Rightarrow> log_HLSParser \<times> (string \<times> nat) list" where
  "refreshStream now streamTimeout slug st =
     (case st of (h, started) \<Rightarrow>
        (case lh_streams h slug of
           None \<Rightarrow> (h, started)
         | Some ref \<Rightarrow>
             (case lh_heap h ref of
                None \<Rightarrow> (h, started)
              | Some stream \<Rightarrow>
                  if now slug - hq_lastUsed stream > streamTimeout
                  then (h\<lparr>lh_streams := (lh_streams h)(slug := None)\<rparr>, started)
                  else (h, started @ [(slug, ref)]))))"

definition updatePlaylists :: "(string \<Rightarrow> time) \<Rightarrow> duration \<Rightarrow> string list \<Rightarrow> log_HLSParser \<Rightarrow> log_HLSParser \<times> (string \<times> nat) list" where
  "updatePlaylists now streamTimeout order h = fold (refreshStream now streamTimeout) order (h, [])"

section \<open>The log parser\<close>

record log_Parser =
  lg_hls :: log_HLSParser
  lg_conf :: ParserConfig
  lg_segments :: "UserId \<rightharpoonup> log_Segment list"
  lg_viewers :: "StreamId \<rightharpoonup> int"
  lg_lastCount :: time

text \<open>The zero time, before any count: the year 1 in nanoseconds of the Unix clock.\<close>

definition zero_time :: time where
  "zero_time = - 62135596800 * second"

definition NewParser :: "ParserConfig \<Rightarrow> log_Parser \<times> duration" where
  "NewParser conf =
     (case log_NewHLSParser (pc_StreamTimeout conf) of
        (hls, timeout) \<Rightarrow>
          (\<lparr>lg_hls = hls, lg_conf = conf, lg_segments = Map.empty, lg_viewers = Map.empty, lg_lastCount = zero_time\<rparr>, timeout))"

text \<open>The regular expression \<open>\/(dash|hls|hlsll)\/([^\/]+)\/(.+)$\<close>: the groups of a match that begins here,
  and of the leftmost match. A dot matches no newline.\<close>

definition uri_groups :: "string \<Rightarrow> string \<Rightarrow> (string \<times> string \<times> string) option" where
  "uri_groups uri transport =
     (if hasPrefix uri (slash # transport @ [slash]) then
        let rest = drop (length transport + 2) uri;
            slug = takeWhile (\<lambda>c. c \<noteq> slash) rest;
            file = drop (length slug + 1) rest
        in if slug \<noteq> [] \<and> file \<noteq> [] \<and> CHR 0x0A \<notin> set file then Some (transport, slug, file) else None
      else None)"

definition uri_here :: "string \<Rightarrow> (string \<times> string \<times> string) option" where
  "uri_here uri =
     (case uri_groups uri ''dash'' of
        Some g \<Rightarrow> Some g
      | None \<Rightarrow> (case uri_groups uri ''hls'' of Some g \<Rightarrow> Some g | None \<Rightarrow> uri_groups uri ''hlsll''))"

fun FindStringSubmatch :: "string \<Rightarrow> (string \<times> string \<times> string) option" where
  "FindStringSubmatch [] = None"
| "FindStringSubmatch (c # uri) = (case uri_here (c # uri) of Some g \<Rightarrow> Some g | None \<Rightarrow> FindStringSubmatch uri)"

definition addSegment :: "time \<Rightarrow> UserId \<Rightarrow> StreamId \<Rightarrow> log_Parser \<Rightarrow> log_Parser" where
  "addSegment now userId stream p =
     (let segments = (case lg_segments p userId of None \<Rightarrow> [] | Some s \<Rightarrow> s)
      in p\<lparr>lg_segments := (lg_segments p)(userId \<mapsto> segments @ [\<lparr>sg_Timestamp = now, sg_StreamId = stream\<rparr>])\<rparr>)"

definition entry_user :: "NginxLogEntry \<Rightarrow> UserId" where
  "entry_user point = \<lparr>ui_Ip = ne_Address point, ui_Agent = ne_UserAgent point, ui_Country = ne_Country point\<rparr>"

text \<open>The two times are those that \<open>GetQuality\<close> and \<open>addSegment\<close> read.\<close>

definition parseEntry :: "time \<Rightarrow> time \<Rightarrow> NginxLogEntry \<Rightarrow> log_Parser \<Rightarrow> log_Parser" where
  "parseEntry now1 now2 point p =
     (if ne_Method point \<noteq> ''GET'' then p
      else
        (case FindStringSubmatch (ne_Uri point) of
           None \<Rightarrow> p
         | Some (streamTransport, slug, file) \<Rightarrow>
             if streamTransport = ''dash'' then p
             else if streamTransport = ''hlsll'' \<or> streamTransport = ''hls'' then
               (case GetQuality now1 slug streamTransport file (lg_hls p) of
                  (None, hls) \<Rightarrow> p\<lparr>lg_hls := hls\<rparr>
                | (Some stream, hls) \<Rightarrow> addSegment now2 (entry_user point) stream (p\<lparr>lg_hls := hls\<rparr>))
             else p))"

text \<open>A round of \<open>run\<close>: what the socket gives, cut to the size of the buffer, decoded twice. A syslog
  message without text is \<open>None\<close>.\<close>

definition receive :: "(string \<Rightarrow> string + string option) \<Rightarrow> (string \<Rightarrow> string + NginxLogEntry) \<Rightarrow> time \<Rightarrow> time \<Rightarrow>
    string + string \<Rightarrow> log_Parser \<Rightarrow> log_Parser" where
  "receive sysParse unmarshal now1 now2 datagram p =
     (case datagram of
        Inl _ \<Rightarrow> p
      | Inr data \<Rightarrow>
          (case sysParse (take 16384 data) of
             Inl _ \<Rightarrow> p
           | Inr None \<Rightarrow> p
           | Inr (Some message) \<Rightarrow>
               (case unmarshal message of
                  Inl _ \<Rightarrow> p
                | Inr point \<Rightarrow> parseEntry now1 now2 point p)))"

section \<open>Counting\<close>

type_synonym counts = "StreamId \<rightharpoonup> int"

definition incr :: "StreamId \<Rightarrow> counts \<Rightarrow> counts" where
  "incr s m = m(s \<mapsto> (case m s of None \<Rightarrow> 0 | Some n \<Rightarrow> n) + 1)"

definition no_stream :: StreamId where
  "no_stream = \<lparr>si_Slug = [], si_Transport = [], si_Type = [], si_Variant = [], si_Quality = [], si_Meta = []\<rparr>"

definition maxQuality :: "int \<Rightarrow> StreamId list \<Rightarrow> counts \<Rightarrow> StreamId \<times> bool" where
  "maxQuality minSegments order qualities =
     (case fold (\<lambda>quality (mx, maxq). case qualities quality of
                   None \<Rightarrow> (mx, maxq)
                 | Some n \<Rightarrow> if n > mx then (n, quality) else (mx, maxq)) order (0, no_stream)
      of (mx, maxq) \<Rightarrow> (maxq, mx > minSegments))"

text \<open>One round of the loop over the segments of a user: the two counts and \<open>removeSegments\<close>.\<close>

definition countSegment :: "(nat \<Rightarrow> time) \<Rightarrow> duration \<Rightarrow> nat \<times> log_Segment \<Rightarrow> counts \<times> counts \<times> nat \<Rightarrow> counts \<times> counts \<times> nat" where
  "countSegment now window iseg st =
     (case (iseg, st) of ((i, segment), (videoStreams, audioStreams, removeSegments)) \<Rightarrow>
        if now i - sg_Timestamp segment > window then (videoStreams, audioStreams, i + 1)
        else if si_Type (sg_StreamId segment) = StreamTypeVideo
          then (incr (sg_StreamId segment) videoStreams, audioStreams, removeSegments)
        else (videoStreams, incr (sg_StreamId segment) audioStreams, removeSegments))"

definition countSegments :: "(nat \<Rightarrow> time) \<Rightarrow> duration \<Rightarrow> log_Segment list \<Rightarrow> counts \<times> counts \<times> nat" where
  "countSegments now window segments = fold (countSegment now window) (enumerate 0 segments) (Map.empty, Map.empty, 0)"

text \<open>A count reads the clock for \<open>lastCount\<close> and once for each segment of each user, and ranges over the
  users and over the two counts of each user.\<close>

record count_choice =
  ch_now :: time
  ch_since :: "UserId \<Rightarrow> nat \<Rightarrow> time"
  ch_users :: "UserId list"
  ch_video :: "UserId \<Rightarrow> StreamId list"
  ch_audio :: "UserId \<Rightarrow> StreamId list"

definition countUser :: "count_choice \<Rightarrow> UserId \<Rightarrow> log_Parser \<Rightarrow> log_Parser" where
  "countUser ch userId p =
     (case lg_segments p userId of
        None \<Rightarrow> p
      | Some segments \<Rightarrow>
          (case countSegments (ch_since ch userId) (pc_SlidingWindow (lg_conf p)) segments of
             (videoStreams, audioStreams, removeSegments) \<Rightarrow>
               if removeSegments = length segments then p\<lparr>lg_segments := (lg_segments p)(userId := None)\<rparr>
               else
                 (let p1 = p\<lparr>lg_segments := (lg_segments p)(userId \<mapsto> drop removeSegments segments)\<rparr>;
                      (videoStream, videoOk) = maxQuality (pc_MinSegments (lg_conf p)) (ch_video ch userId) videoStreams;
                      p2 = (if videoOk then p1\<lparr>lg_viewers := incr videoStream (lg_viewers p1)\<rparr> else p1);
                      (audioStream, audioOk) = maxQuality (pc_MinSegments (lg_conf p)) (ch_audio ch userId) audioStreams
                  in if audioOk then p2\<lparr>lg_viewers := incr audioStream (lg_viewers p2)\<rparr> else p2)))"

definition log_count :: "count_choice \<Rightarrow> log_Parser \<Rightarrow> log_Parser" where
  "log_count ch p = fold (countUser ch) (ch_users ch) (p\<lparr>lg_lastCount := ch_now ch, lg_viewers := Map.empty\<rparr>)"

text \<open>\<open>Collect\<close>: the metrics it sends for the viewers in some order, and the parser.\<close>

definition log_Collect :: "time \<Rightarrow> count_choice \<Rightarrow> StreamId list \<Rightarrow> log_Parser \<Rightarrow> (StreamId \<times> int) list \<times> log_Parser" where
  "log_Collect now ch order p =
     (let p1 = (if now - lg_lastCount p > 3 * second then log_count ch p else p)
      in (concat (map (\<lambda>s. case lg_viewers p1 s of None \<Rightarrow> [] | Some n \<Rightarrow> [(s, n)]) order), p1))"

section \<open>User agents\<close>

datatype ClientType = ClientTypeChrome | ClientTypeFirefox | ClientTypeSafari | ClientTypeMPV | ClientTypeVLC | ClientTypeFFmpeg | ClientTypeOther

definition ParseUserAgent :: "string \<Rightarrow> ClientType" where
  "ParseUserAgent userAgent =
     (if userAgent = [] then ClientTypeOther
      else if contains userAgent ''Chrome'' then ClientTypeChrome
      else if contains userAgent ''Firefox'' then ClientTypeFirefox
      else if contains userAgent ''libmpv'' then ClientTypeMPV
      else if contains userAgent ''VLC'' then ClientTypeVLC
      else if contains userAgent ''Lavf'' then ClientTypeFFmpeg
      else if contains userAgent ''Safari'' then ClientTypeSafari
      else ClientTypeOther)"

section \<open>Runs\<close>

text \<open>The parser with the updates of playlists under way, the clock, and the entries it has handled with the
  time of each. The steps are those of \<open>run\<close>, of the ticker, of an update that ends, and of \<open>Collect\<close>;
  the clock does not go back.\<close>

record log_world =
  lw_parser :: log_Parser
  lw_started :: "(string \<times> nat) list"
  lw_clock :: time
  lw_trace :: "(time \<times> NginxLogEntry) list"

definition count_ok :: "time \<Rightarrow> count_choice \<Rightarrow> log_Parser \<Rightarrow> bool" where
  "count_ok now ch p \<longleftrightarrow> ch_now ch = now \<and> ch_since ch = (\<lambda>_ _. now) \<and> range_order (lg_segments p) (ch_users ch)
     \<and> (\<forall>u segs v a r. lg_segments p u = Some segs \<longrightarrow>
          countSegments (\<lambda>_. now) (pc_SlidingWindow (lg_conf p)) segs = (v, a, r) \<longrightarrow>
          range_order v (ch_video ch u) \<and> range_order a (ch_audio ch u))"

inductive log_step :: "(Playlist \<Rightarrow> bool) \<Rightarrow> duration \<Rightarrow> log_world \<Rightarrow> log_world \<Rightarrow> bool" for isMaster timeout where
  entry: "lw_clock w \<le> now1 \<Longrightarrow> now1 \<le> now2 \<Longrightarrow>
    log_step isMaster timeout w (w\<lparr>lw_parser := parseEntry now1 now2 point (lw_parser w), lw_clock := now2,
      lw_trace := lw_trace w @ [(now2, point)]\<rparr>)"
| tick: "updatePlaylists now timeout order (lg_hls (lw_parser w)) = (hls, started) \<Longrightarrow> range_order (lh_streams (lg_hls (lw_parser w))) order \<Longrightarrow>
    log_step isMaster timeout w (w\<lparr>lw_parser := (lw_parser w)\<lparr>lg_hls := hls\<rparr>, lw_started := lw_started w @ started\<rparr>)"
| updated: "(slug, ref) \<in> set (lw_started w) \<Longrightarrow>
    log_step isMaster timeout w (w\<lparr>lw_parser := (lw_parser w)\<lparr>lg_hls := updateMasterPlaylist isMaster get slug ref (lg_hls (lw_parser w))\<rparr>,
      lw_started := remove1 (slug, ref) (lw_started w)\<rparr>)"
| collect: "lw_clock w \<le> now \<Longrightarrow> count_ok now ch (lw_parser w) \<Longrightarrow>
    log_step isMaster timeout w (w\<lparr>lw_parser := snd (log_Collect now ch order (lw_parser w)), lw_clock := now\<rparr>)"

inductive log_reach :: "(Playlist \<Rightarrow> bool) \<Rightarrow> ParserConfig \<Rightarrow> log_world \<Rightarrow> bool" for isMaster conf where
  start: "log_reach isMaster conf \<lparr>lw_parser = fst (NewParser conf), lw_started = [], lw_clock = now, lw_trace = []\<rparr>"
| step: "log_reach isMaster conf w \<Longrightarrow> log_step isMaster (snd (NewParser conf)) w w' \<Longrightarrow> log_reach isMaster conf w'"

end
