(* ===== verification/LogCorrect.thy ===== *)
theory LogCorrect
  imports LogReceiver
begin

text \<open>
  What the log receiver guarantees: a count gives each user of the sliding window at most one viewer of a
  video and one of an audio stream, the one watched most; viewers are backed by requests in the log; and
  the name in a segment's path finds the quality the master playlist gives.
\<close>

section \<open>Tallies\<close>

definition tally :: "StreamId list \<Rightarrow> counts" where
  "tally xs = fold incr xs Map.empty"

lemma tally_snoc: "tally (xs @ [x]) = incr x (tally xs)"
  by (simp add: tally_def)

lemma tally_apply: "tally xs s = (if s \<in> set xs then Some (int (count_list xs s)) else None)"
proof (induction xs rule: rev_induct)
  case (snoc x xs)
  then show ?case by (auto simp: tally_snoc incr_def count_list_0_iff)
qed (simp add: tally_def)

lemma fold_incr_tally: "fold incr ys (tally xs) = tally (xs @ ys)"
  by (simp add: tally_def)

definition number :: "counts \<Rightarrow> StreamId \<Rightarrow> int" where
  "number m s = (case m s of None \<Rightarrow> 0 | Some n \<Rightarrow> n)"

lemma number_tally [simp]: "number (tally xs) s = int (count_list xs s)"
  by (simp add: number_def tally_apply count_list_0_iff)

text \<open>The search for the maximum: it ends with a stream of the largest number, if any number is positive.\<close>

abbreviation max_round :: "counts \<Rightarrow> StreamId \<Rightarrow> int \<times> StreamId \<Rightarrow> int \<times> StreamId" where
  "max_round qualities \<equiv> (\<lambda>quality (mx, maxq). case qualities quality of
     None \<Rightarrow> (mx, maxq) | Some n \<Rightarrow> if n > mx then (n, quality) else (mx, maxq))"

lemma max_rounds:
  assumes "fold (max_round m) order (mx0, q0) = (mx, q)"
  shows "mx0 \<le> mx \<and> (\<forall>x \<in> set order. m x \<noteq> None \<longrightarrow> number m x \<le> mx) \<and> ((mx, q) = (mx0, q0) \<or> m q = Some mx)"
  using assms
proof (induction order arbitrary: mx0 q0)
  case (Cons x order)
  obtain mx1 q1 where one: "max_round m x (mx0, q0) = (mx1, q1)" by fastforce
  have first: "mx0 \<le> mx1" "m x \<noteq> None \<longrightarrow> number m x \<le> mx1" "(mx1, q1) = (mx0, q0) \<or> m q1 = Some mx1"
    using one by (auto simp: number_def split: option.splits if_splits)
  from Cons.IH [of mx1 q1] Cons.prems one
  have "mx1 \<le> mx \<and> (\<forall>x \<in> set order. m x \<noteq> None \<longrightarrow> number m x \<le> mx) \<and> ((mx, q) = (mx1, q1) \<or> m q = Some mx)" by simp
  with first show ?case by auto
qed simp

lemma maxQuality_tally:
  assumes "range_order (tally xs) order" "0 \<le> mn" "maxQuality mn order (tally xs) = (q, ok)"
  shows "ok \<longleftrightarrow> (\<exists>s. int (count_list xs s) > mn)"
    and "ok \<Longrightarrow> int (count_list xs q) > mn \<and> (\<forall>s. count_list xs s \<le> count_list xs q)"
proof -
  obtain mx where f: "fold (max_round (tally xs)) order (0, no_stream) = (mx, q)" and ok: "ok \<longleftrightarrow> mn < mx"
    using assms(3) by (auto simp: maxQuality_def split: prod.splits)
  note r = max_rounds [OF f]
  have le: "int (count_list xs s) \<le> mx" for s
  proof (cases "s \<in> set xs")
    case True
    then have "s \<in> set order" "tally xs s \<noteq> None" using assms(1) by (auto simp: range_order_def tally_apply dom_def)
    with r show ?thesis by fastforce
  qed (use r in \<open>simp add: count_list_0_iff\<close>)
  have eq: "int (count_list xs q) = mx" if "0 < mx"
    using r that by (auto simp: tally_apply split: if_splits)
  show "ok \<longleftrightarrow> (\<exists>s. int (count_list xs s) > mn)" using ok le eq assms(2) by (metis order_le_less_trans order_less_le_trans)
  show "int (count_list xs q) > mn \<and> (\<forall>s. count_list xs s \<le> count_list xs q)" if ok
    using ok eq le assms(2) that by (metis of_nat_le_iff order_le_less_trans)
qed

section \<open>The segments of a user\<close>

definition young :: "time \<Rightarrow> duration \<Rightarrow> log_Segment \<Rightarrow> bool" where
  "young now window seg \<longleftrightarrow> now - sg_Timestamp seg \<le> window"

definition video :: "StreamId \<Rightarrow> bool" where
  "video s \<longleftrightarrow> si_Type s = StreamTypeVideo"

definition watched_ids :: "time \<Rightarrow> duration \<Rightarrow> log_Segment list \<Rightarrow> StreamId list" where
  "watched_ids now window segs = map sg_StreamId (filter (young now window) segs)"

lemma countSegments_snoc:
  "countSegments now window (segs @ [x]) = countSegment now window (length segs, x) (countSegments now window segs)"
  by (simp add: countSegments_def enumerate_append_eq)

lemma countSegments_eq:
  assumes "countSegments (\<lambda>_. now) window segs = (v, a, r)"
  shows "v = tally (filter video (watched_ids now window segs)) \<and> a = tally (filter (\<lambda>s. \<not> video s) (watched_ids now window segs))
    \<and> r \<le> length segs
    \<and> (sorted (map sg_Timestamp segs) \<longrightarrow> drop r segs = filter (young now window) segs)"
  using assms
proof (induction segs arbitrary: v a r rule: rev_induct)
  case Nil
  then show ?case by (auto simp: countSegments_def tally_def watched_ids_def)
next
  case (snoc x segs)
  obtain v0 a0 r0 where c: "countSegments (\<lambda>_. now) window segs = (v0, a0, r0)" by (metis prod_cases3)
  note IH = snoc.IH [OF c]
  have one: "countSegment (\<lambda>_. now) window (length segs, x) (v0, a0, r0) = (v, a, r)"
    using snoc.prems c by (simp add: countSegments_snoc)
  show ?case
  proof (cases "young now window x")
    case True
    with one have res: "r = r0" "v = (if video (sg_StreamId x) then incr (sg_StreamId x) v0 else v0)"
      "a = (if video (sg_StreamId x) then a0 else incr (sg_StreamId x) a0)"
      by (auto simp: countSegment_def young_def video_def split: if_splits)
    with True IH show ?thesis by (auto simp: watched_ids_def tally_snoc sorted_append)
  next
    case False
    with one have res: "r = Suc (length segs)" "v = v0" "a = a0" by (auto simp: countSegment_def young_def split: if_splits)
    have "filter (young now window) segs = []" if "sorted (map sg_Timestamp (segs @ [x]))"
      using that False by (force simp: sorted_append young_def filter_empty_conv)
    with False IH res show ?thesis by (auto simp: watched_ids_def)
  qed
qed

section \<open>What a count does\<close>

definition picked :: "int \<Rightarrow> StreamId list \<Rightarrow> counts \<Rightarrow> StreamId list" where
  "picked mn order m = (case maxQuality mn order m of (q, ok) \<Rightarrow> if ok then [q] else [])"

text \<open>The streams a user is counted for, and the segments that are left.\<close>

definition user_picks :: "count_choice \<Rightarrow> ParserConfig \<Rightarrow> UserId \<Rightarrow> log_Segment list option \<Rightarrow> StreamId list" where
  "user_picks ch conf u segs =
     (case segs of None \<Rightarrow> []
      | Some s \<Rightarrow> (case countSegments (ch_since ch u) (pc_SlidingWindow conf) s of (v, a, r) \<Rightarrow>
          if r = length s then []
          else picked (pc_MinSegments conf) (ch_video ch u) v @ picked (pc_MinSegments conf) (ch_audio ch u) a))"

definition user_left :: "count_choice \<Rightarrow> ParserConfig \<Rightarrow> UserId \<Rightarrow> log_Segment list \<Rightarrow> log_Segment list option" where
  "user_left ch conf u s = (case countSegments (ch_since ch u) (pc_SlidingWindow conf) s of (v, a, r) \<Rightarrow>
     if r = length s then None else Some (drop r s))"

lemma countUser_eq:
  "countUser ch u p = p\<lparr>lg_segments := (lg_segments p)(u := Option.bind (lg_segments p u) (user_left ch (lg_conf p) u)),
     lg_viewers := fold incr (user_picks ch (lg_conf p) u (lg_segments p u)) (lg_viewers p)\<rparr>"
  by (auto simp: countUser_def user_picks_def user_left_def picked_def Let_def fun_upd_idem split: option.splits prod.splits)

lemma count_fold:
  assumes "distinct us"
  shows "fold (countUser ch) us p = p\<lparr>lg_segments := (\<lambda>u. if u \<in> set us then Option.bind (lg_segments p u) (user_left ch (lg_conf p) u) else lg_segments p u),
    lg_viewers := fold incr (concat (map (\<lambda>u. user_picks ch (lg_conf p) u (lg_segments p u)) us)) (lg_viewers p)\<rparr>"
  using assms
proof (induction us arbitrary: p)
  case (Cons u us)
  let ?q = "countUser ch u p"
  have q: "lg_conf ?q = lg_conf p" "lg_segments ?q = (lg_segments p)(u := Option.bind (lg_segments p u) (user_left ch (lg_conf p) u))"
    "lg_viewers ?q = fold incr (user_picks ch (lg_conf p) u (lg_segments p u)) (lg_viewers p)"
    "?q\<lparr>lg_segments := s, lg_viewers := v\<rparr> = p\<lparr>lg_segments := s, lg_viewers := v\<rparr>" for s v
    by (simp_all add: countUser_eq)
  have segs: "(\<lambda>x. if x \<in> set us then Option.bind (lg_segments ?q x) (user_left ch (lg_conf ?q) x) else lg_segments ?q x)
      = (\<lambda>x. if x \<in> set (u # us) then Option.bind (lg_segments p x) (user_left ch (lg_conf p) x) else lg_segments p x)"
    using Cons.prems by (auto simp: fun_eq_iff q)
  have picks: "map (\<lambda>x. user_picks ch (lg_conf ?q) x (lg_segments ?q x)) us = map (\<lambda>x. user_picks ch (lg_conf p) x (lg_segments p x)) us"
    using Cons.prems by (intro map_cong) (auto simp: q)
  have "fold (countUser ch) (u # us) p = ?q\<lparr>lg_segments := (\<lambda>x. if x \<in> set us then Option.bind (lg_segments ?q x) (user_left ch (lg_conf ?q) x) else lg_segments ?q x),
      lg_viewers := fold incr (concat (map (\<lambda>x. user_picks ch (lg_conf ?q) x (lg_segments ?q x)) us)) (lg_viewers ?q)\<rparr>"
    using Cons.IH [of ?q] Cons.prems by simp
  then show ?case unfolding segs picks q(4) by (simp add: q(3))
qed simp

lemma log_count_eq:
  assumes "range_order (lg_segments p) (ch_users ch)"
  shows "lg_viewers (log_count ch p) = tally (concat (map (\<lambda>u. user_picks ch (lg_conf p) u (lg_segments p u)) (ch_users ch)))"
    and "lg_segments (log_count ch p) u = Option.bind (lg_segments p u) (user_left ch (lg_conf p) u)"
    and "lg_conf (log_count ch p) = lg_conf p" "lg_hls (log_count ch p) = lg_hls p"
  using assms count_fold [of "ch_users ch" ch "p\<lparr>lg_lastCount := ch_now ch, lg_viewers := Map.empty\<rparr>"]
  by (auto simp: log_count_def range_order_def tally_def dom_def)

section \<open>Counting users\<close>

definition watches :: "time \<Rightarrow> log_Parser \<Rightarrow> UserId \<Rightarrow> StreamId \<Rightarrow> nat" where
  "watches now p u s = (case lg_segments p u of None \<Rightarrow> 0
     | Some segs \<Rightarrow> count_list (watched_ids now (pc_SlidingWindow (lg_conf p)) segs) s)"

definition sorted_segments :: "log_Parser \<Rightarrow> bool" where
  "sorted_segments p \<longleftrightarrow> (\<forall>u segs. lg_segments p u = Some segs \<longrightarrow> sorted (map sg_Timestamp segs))"

lemma count_list_filter: "count_list (filter P xs) s = (if P s then count_list xs s else 0)"
  by (induction xs) auto

text \<open>The picks of one user: at most one of each kind, watched most of all of the kind, and one if any is
  watched enough.\<close>

lemma user_picks_kind:
  assumes "count_ok now ch p" "sorted_segments p" "0 \<le> pc_MinSegments (lg_conf p)"
  shows "filter (\<lambda>s. video s = b) (user_picks ch (lg_conf p) u (lg_segments p u)) = [] \<and> (\<forall>s. video s = b \<longrightarrow> int (watches now p u s) \<le> pc_MinSegments (lg_conf p))
    \<or> (\<exists>q. filter (\<lambda>s. video s = b) (user_picks ch (lg_conf p) u (lg_segments p u)) = [q] \<and> video q = b
         \<and> pc_MinSegments (lg_conf p) < int (watches now p u q) \<and> (\<forall>s. video s = b \<longrightarrow> watches now p u s \<le> watches now p u q))"
proof (cases "lg_segments p u")
  case None
  with assms(3) show ?thesis by (simp add: user_picks_def watches_def)
next
  case (Some segs)
  let ?w = "watched_ids now (pc_SlidingWindow (lg_conf p)) segs" and ?mn = "pc_MinSegments (lg_conf p)"
  obtain v a r where c: "countSegments (\<lambda>_. now) (pc_SlidingWindow (lg_conf p)) segs = (v, a, r)" by (metis prod_cases3)
  then have since: "countSegments (ch_since ch u) (pc_SlidingWindow (lg_conf p)) segs = (v, a, r)" using assms(1) by (simp add: count_ok_def)
  have o: "range_order v (ch_video ch u)" "range_order a (ch_audio ch u)" using assms(1) Some c unfolding count_ok_def by blast+
  have va: "v = tally (filter video ?w)" "a = tally (filter (\<lambda>s. \<not> video s) ?w)"
    and r: "drop r segs = filter (young now (pc_SlidingWindow (lg_conf p))) segs" "r \<le> length segs"
    using countSegments_eq [OF c] assms(2) Some by (auto simp: sorted_segments_def)
  have kind: "picked ?mn order (tally (filter P ?w)) = [] \<and> (\<forall>s. P s \<longrightarrow> int (count_list ?w s) \<le> ?mn)
    \<or> (\<exists>q. picked ?mn order (tally (filter P ?w)) = [q] \<and> P q \<and> ?mn < int (count_list ?w q) \<and> (\<forall>s. P s \<longrightarrow> count_list ?w s \<le> count_list ?w q))"
    if "range_order (tally (filter P ?w)) order" for P order
  proof -
    obtain q ok where m: "maxQuality ?mn order (tally (filter P ?w)) = (q, ok)" by fastforce
    from maxQuality_tally [OF that assms(3) m] assms(3) m show ?thesis
      by (cases ok) (auto simp: picked_def count_list_filter split: if_splits)
  qed
  have V: "picked ?mn (ch_video ch u) v = [] \<and> (\<forall>s. video s \<longrightarrow> int (count_list ?w s) \<le> ?mn)
    \<or> (\<exists>q. picked ?mn (ch_video ch u) v = [q] \<and> video q \<and> ?mn < int (count_list ?w q) \<and> (\<forall>s. video s \<longrightarrow> count_list ?w s \<le> count_list ?w q))"
    using kind [of video] o(1) unfolding va(1) by blast
  have A: "picked ?mn (ch_audio ch u) a = [] \<and> (\<forall>s. \<not> video s \<longrightarrow> int (count_list ?w s) \<le> ?mn)
    \<or> (\<exists>q. picked ?mn (ch_audio ch u) a = [q] \<and> \<not> video q \<and> ?mn < int (count_list ?w q) \<and> (\<forall>s. \<not> video s \<longrightarrow> count_list ?w s \<le> count_list ?w q))"
    using kind [of "\<lambda>s. \<not> video s"] o(2) unfolding va(2) by blast
  show ?thesis
  proof (cases "r = length segs")
    case True
    then have "?w = []" using r(1) by (simp add: watched_ids_def)
    with True since Some assms(3) show ?thesis by (simp add: user_picks_def watches_def)
  next
    case False
    with since Some have "user_picks ch (lg_conf p) u (lg_segments p u) = picked ?mn (ch_video ch u) v @ picked ?mn (ch_audio ch u) a"
      by (simp add: user_picks_def)
    moreover have "watches now p u = count_list ?w" using Some by (simp add: watches_def fun_eq_iff)
    ultimately show ?thesis using V A by (cases b) auto
  qed
qed

lemma count_list_concat: "count_list (concat (map f xs)) s = (\<Sum>x \<leftarrow> xs. count_list (f x) s)"
  by (induction xs) auto

lemma sum_list_indicator: "distinct xs \<Longrightarrow> (\<Sum>x \<leftarrow> xs. if P x then 1 else 0 :: nat) = card {x \<in> set xs. P x}"
proof (induction xs)
  case (Cons x xs)
  then have "{y \<in> set (x # xs). P y} = (if P x then insert x {y \<in> set xs. P y} else {y \<in> set xs. P y})" by auto
  with Cons show ?case by simp
qed simp

abbreviation picks_of :: "count_choice \<Rightarrow> log_Parser \<Rightarrow> UserId \<Rightarrow> StreamId list" where
  "picks_of ch p u \<equiv> user_picks ch (lg_conf p) u (lg_segments p u)"

lemma picks_once:
  assumes "count_ok now ch p" "sorted_segments p" "0 \<le> pc_MinSegments (lg_conf p)"
  shows "count_list (picks_of ch p u) s = (if s \<in> set (picks_of ch p u) then 1 else 0)"
    and "length (filter (\<lambda>s. video s = b) (picks_of ch p u)) = (if \<exists>s. video s = b \<and> pc_MinSegments (lg_conf p) < int (watches now p u s) then 1 else 0)"
    and "s \<in> set (picks_of ch p u) \<Longrightarrow> pc_MinSegments (lg_conf p) < int (watches now p u s) \<and> (\<forall>x. video x = video s \<longrightarrow> watches now p u x \<le> watches now p u s)"
    and "pc_MinSegments (lg_conf p) < int (watches now p u s) \<Longrightarrow> \<forall>x. x \<noteq> s \<and> video x = video s \<longrightarrow> watches now p u x < watches now p u s \<Longrightarrow> s \<in> set (picks_of ch p u)"
proof -
  note k = user_picks_kind [OF assms, of _ u]
  have f: "count_list (picks_of ch p u) s = count_list (filter (\<lambda>x. video x = video s) (picks_of ch p u)) s"
    "s \<in> set (picks_of ch p u) \<longleftrightarrow> s \<in> set (filter (\<lambda>x. video x = video s) (picks_of ch p u))"
    by (simp_all add: count_list_filter)
  from k [of "video s"] show "count_list (picks_of ch p u) s = (if s \<in> set (picks_of ch p u) then 1 else 0)"
    unfolding f by (auto simp del: set_filter)
  from k [of b] show "length (filter (\<lambda>s. video s = b) (picks_of ch p u)) = (if \<exists>s. video s = b \<and> pc_MinSegments (lg_conf p) < int (watches now p u s) then 1 else 0)"
    by (auto simp: not_less)
  show "pc_MinSegments (lg_conf p) < int (watches now p u s) \<and> (\<forall>x. video x = video s \<longrightarrow> watches now p u x \<le> watches now p u s)"
    if "s \<in> set (picks_of ch p u)"
    using k [of "video s"] that unfolding f by (auto simp del: set_filter)
  show "s \<in> set (picks_of ch p u)"
    if "pc_MinSegments (lg_conf p) < int (watches now p u s)" "\<forall>x. x \<noteq> s \<and> video x = video s \<longrightarrow> watches now p u x < watches now p u s"
  proof -
    from k [of "video s"] that(1) obtain q where q: "filter (\<lambda>x. video x = video s) (picks_of ch p u) = [q]" "video q = video s"
      "\<forall>x. video x = video s \<longrightarrow> watches now p u x \<le> watches now p u q" by (auto simp: not_less [symmetric])
    then have "q = s" using that(2) by (metis not_less)
    with q(1) show ?thesis unfolding f(2) by simp
  qed
qed

lemma viewers_card:
  assumes "count_ok now ch p" "sorted_segments p" "0 \<le> pc_MinSegments (lg_conf p)"
  shows "number (lg_viewers (log_count ch p)) s = int (card {u. s \<in> set (picks_of ch p u)})"
proof -
  have o: "range_order (lg_segments p) (ch_users ch)" using assms(1) by (simp add: count_ok_def)
  have "u \<in> set (ch_users ch)" if "s \<in> set (picks_of ch p u)" for u
    using o that by (cases "lg_segments p u") (auto simp: range_order_def user_picks_def)
  then have "{u. s \<in> set (picks_of ch p u)} = {u \<in> set (ch_users ch). s \<in> set (picks_of ch p u)}" by blast
  moreover have "distinct (ch_users ch)" using o by (simp add: range_order_def)
  ultimately show ?thesis
    using sum_list_indicator [of "ch_users ch" "\<lambda>u. s \<in> set (picks_of ch p u)"]
    by (simp add: log_count_eq(1) [OF o] count_list_concat picks_once(1) [OF assms])
qed

lemma viewers_total:
  assumes "count_ok now ch p" "sorted_segments p" "0 \<le> pc_MinSegments (lg_conf p)"
  shows "(\<Sum>s | s \<in> dom (lg_viewers (log_count ch p)) \<and> video s = b. number (lg_viewers (log_count ch p)) s)
    = int (card {u. \<exists>s. video s = b \<and> pc_MinSegments (lg_conf p) < int (watches now p u s)})"
proof -
  have o: "range_order (lg_segments p) (ch_users ch)" using assms(1) by (simp add: count_ok_def)
  let ?xs = "concat (map (picks_of ch p) (ch_users ch))" and ?B = "\<lambda>s. video s = b"
  let ?U = "\<lambda>u. \<exists>s. video s = b \<and> pc_MinSegments (lg_conf p) < int (watches now p u s)"
  have D: "{s. s \<in> dom (lg_viewers (log_count ch p)) \<and> video s = b} = set (filter ?B ?xs)"
    by (auto simp: log_count_eq(1) [OF o] tally_apply dom_def split: if_splits)
  have "(\<Sum>s \<in> set (filter ?B ?xs). number (lg_viewers (log_count ch p)) s) = (\<Sum>s \<in> set (filter ?B ?xs). int (count_list (filter ?B ?xs) s))"
    by (rule sum.cong) (auto simp: log_count_eq(1) [OF o] count_list_filter)
  also have "\<dots> = int (length (filter ?B ?xs))"
    unfolding of_nat_sum [symmetric] by (subst sum_count_set) simp_all
  also have "length (filter ?B ?xs) = (\<Sum>u \<leftarrow> ch_users ch. length (filter ?B (picks_of ch p u)))"
    by (simp add: filter_concat length_concat comp_def)
  also have "\<dots> = (\<Sum>u \<leftarrow> ch_users ch. if ?U u then 1 else 0)" by (simp add: picks_once(2) [OF assms])
  also have "\<dots> = card {u \<in> set (ch_users ch). ?U u}" using o by (intro sum_list_indicator) (simp add: range_order_def)
  also have "{u \<in> set (ch_users ch). ?U u} = {u. ?U u}"
    using o assms(3) by (auto simp: range_order_def watches_def split: option.splits)
  finally show ?thesis unfolding D .
qed

section \<open>Invariants of runs\<close>

definition requests :: "string \<Rightarrow> NginxLogEntry \<Rightarrow> bool" where
  "requests slug e \<longleftrightarrow> ne_Method e = ''GET'' \<and>
     (\<exists>tr file. FindStringSubmatch (ne_Uri e) = Some (tr, slug, file) \<and> (tr = ''hls'' \<or> tr = ''hlsll'') \<and> isSegmentFile file)"

text \<open>The entries of a user for a stream since some time.\<close>

definition requested :: "(time \<times> NginxLogEntry) list \<Rightarrow> UserId \<Rightarrow> string \<Rightarrow> time \<Rightarrow> nat" where
  "requested trace u slug t0 = length (filter (\<lambda>(t, e). t0 \<le> t \<and> entry_user e = u \<and> requests slug e) trace)"

text \<open>Every reference belongs to one slug, and the qualities behind it carry that slug.\<close>

definition hls_ok :: "(nat \<Rightarrow> string) \<Rightarrow> log_HLSParser \<Rightarrow> (string \<times> nat) list \<Rightarrow> bool" where
  "hls_ok slug_of h started \<longleftrightarrow>
     (\<forall>slug ref. lh_streams h slug = Some ref \<or> (slug, ref) \<in> set started \<longrightarrow> slug_of ref = slug \<and> ref < lh_next h \<and> lh_heap h ref \<noteq> None)
     \<and> (\<forall>ref stream name q. lh_heap h ref = Some stream \<longrightarrow> hq_qualities stream name = Some q \<longrightarrow> si_Slug q = slug_of ref)"

lemma addQuality_slug:
  assumes "fold (addQuality slug tr) items m name = Some q" "\<forall>n q. m n = Some q \<longrightarrow> si_Slug q = slug"
  shows "si_Slug q = slug"
  using assms
proof (induction items arbitrary: m)
  case (Cons i items)
  have "\<forall>n q. addQuality slug tr i m n = Some q \<longrightarrow> si_Slug q = slug"
    using Cons.prems(2) by (auto simp: addQuality_def Let_def split: item.splits option.splits if_splits)
  with Cons.IH [of "addQuality slug tr i m"] Cons.prems(1) show ?case by simp
qed simp

lemma updateMaster_ok:
  assumes "hls_ok slug_of h started" "(slug, ref) \<in> set started"
  shows "hls_ok slug_of (updateMasterPlaylist isMaster get slug ref h) (remove1 (slug, ref) started)"
proof -
  have sub: "set (remove1 (slug, ref) started) \<subseteq> set started" by (rule set_remove1_subset)
  have same: "hls_ok slug_of h (remove1 (slug, ref) started)" using assms(1) sub unfolding hls_ok_def by blast
  show ?thesis
  proof (cases "updateMasterPlaylist isMaster get slug ref h = h")
    case False
    then obtain stream where s: "lh_heap h ref = Some stream" by (cases "lh_heap h ref") (auto simp: updateMasterPlaylist_def)
    with False obtain url pl where "masterPlaylistUrl (hq_transport stream) slug = Inr url" "fetchPlaylist get url = Inr pl" "isMaster pl"
      by (auto simp: updateMasterPlaylist_def split: sum.splits if_splits)
    with s have u: "updateMasterPlaylist isMaster get slug ref h = h\<lparr>lh_heap := (lh_heap h)(ref \<mapsto>
        stream\<lparr>hq_qualities := fold (addQuality slug (hq_transport stream)) (pl_items pl) Map.empty\<rparr>)\<rparr>"
      by (simp add: updateMasterPlaylist_def)
    have own: "slug_of ref = slug" using assms by (simp add: hls_ok_def)
    have "si_Slug q = slug" if "fold (addQuality slug (hq_transport stream)) (pl_items pl) Map.empty name = Some q" for name q
      using addQuality_slug [OF that] by simp
    with same own show ?thesis unfolding u hls_ok_def by auto
  qed (use same in simp)
qed

lemma refresh_ok:
  assumes "hls_ok slug_of h (old @ started)" "fold (refreshStream now timeout) order (h, started) = (h', started')"
  shows "hls_ok slug_of h' (old @ started')"
  using assms
proof (induction order arbitrary: h started)
  case (Cons slug order)
  obtain h1 st1 where one: "refreshStream now timeout slug (h, started) = (h1, st1)" by fastforce
  have "hls_ok slug_of h1 (old @ st1)"
    using one Cons.prems(1) by (auto simp: refreshStream_def hls_ok_def split: option.splits if_splits)
  with Cons.IH [of h1 st1] Cons.prems(2) one show ?case by simp
qed simp

lemma addStream_ok:
  assumes "hls_ok slug_of h started"
  shows "\<exists>so. hls_ok so (log_addStream now slug tr h) started"
proof (cases "lh_streams h slug")
  case None
  have "hls_ok (slug_of(lh_next h := slug)) (log_addStream now slug tr h) started"
    unfolding hls_ok_def
  proof (intro conjI allI impI)
    fix x ref
    assume "lh_streams (log_addStream now slug tr h) x = Some ref \<or> (x, ref) \<in> set started"
    then have "x = slug \<and> ref = lh_next h \<or> lh_streams h x = Some ref \<or> (x, ref) \<in> set started"
      using None by (auto simp: log_addStream_def split: if_splits)
    with assms None show "(slug_of(lh_next h := slug)) ref = x" "ref < lh_next (log_addStream now slug tr h)"
      "lh_heap (log_addStream now slug tr h) ref \<noteq> None"
      by (auto simp: hls_ok_def log_addStream_def less_Suc_eq)
  next
    fix ref stream name q
    assume "lh_heap (log_addStream now slug tr h) ref = Some stream" "hq_qualities stream name = Some q"
    with None assms show "si_Slug q = (slug_of(lh_next h := slug)) ref"
      by (auto simp: hls_ok_def log_addStream_def split: if_splits)
  qed
  then show ?thesis by blast
qed (use assms in \<open>auto simp: log_addStream_def\<close>)

lemma GetQuality_ok:
  assumes "hls_ok slug_of h started" "GetQuality now slug tr file h = (res, h')"
  shows "\<exists>so. hls_ok so h' started" "res = Some q \<Longrightarrow> si_Slug q = slug \<and> isSegmentFile file"
proof -
  show "\<exists>so. hls_ok so h' started"
  proof (cases "isSegmentFile file \<and> lh_streams h slug = None")
    case True
    then have "h' = log_addStream now slug tr h" using assms(2) by (simp add: GetQuality_def)
    with addStream_ok [OF assms(1)] show ?thesis by simp
  next
    case False
    then have "hls_ok slug_of h' started"
      using assms by (auto simp: GetQuality_def hls_ok_def Let_def split: if_splits option.splits sum.splits)
    then show ?thesis by blast
  qed
  show "si_Slug q = slug \<and> isSegmentFile file" if "res = Some q"
    using assms that by (auto simp: GetQuality_def hls_ok_def Let_def split: if_splits option.splits sum.splits)
qed

definition segments_ok :: "log_world \<Rightarrow> bool" where
  "segments_ok w \<longleftrightarrow> (\<forall>u segs. lg_segments (lw_parser w) u = Some segs \<longrightarrow>
     sorted (map sg_Timestamp segs) \<and> (\<forall>seg \<in> set segs. sg_Timestamp seg \<le> lw_clock w)
     \<and> (\<forall>s t0. length (filter (\<lambda>seg. sg_StreamId seg = s \<and> t0 \<le> sg_Timestamp seg) segs) \<le> requested (lw_trace w) u (si_Slug s) t0))"

definition log_inv :: "ParserConfig \<Rightarrow> log_world \<Rightarrow> bool" where
  "log_inv conf w \<longleftrightarrow> lg_conf (lw_parser w) = conf \<and> (\<exists>so. hls_ok so (lg_hls (lw_parser w)) (lw_started w)) \<and> segments_ok w"

lemma requested_snoc:
  "requested (trace @ [(t, e)]) u slug t0 = requested trace u slug t0 + (if t0 \<le> t \<and> entry_user e = u \<and> requests slug e then 1 else 0)"
  by (simp add: requested_def)

lemma parseEntry_cases:
  obtains (none) h' where "parseEntry now1 now2 e p = p\<lparr>lg_hls := h'\<rparr>" "h' = lg_hls p \<or> (\<exists>slug tr file. GetQuality now1 slug tr file (lg_hls p) = (None, h'))"
  | (some) h' slug tr seg q where "GetQuality now1 slug tr seg (lg_hls p) = (Some q, h')" "ne_Method e = ''GET''"
      "FindStringSubmatch (ne_Uri e) = Some (tr, slug, seg)" "tr = ''hls'' \<or> tr = ''hlsll''"
      "parseEntry now1 now2 e p = addSegment now2 (entry_user e) q (p\<lparr>lg_hls := h'\<rparr>)"
proof (cases "ne_Method e = ''GET''")
  case False
  with none [of "lg_hls p"] show thesis by (simp add: parseEntry_def)
next
  case get: True
  show thesis
  proof (cases "FindStringSubmatch (ne_Uri e)")
    case None
    with get none [of "lg_hls p"] show thesis by (simp add: parseEntry_def)
  next
    case (Some g)
    obtain tr slug seg where g: "g = (tr, slug, seg)" by (cases g)
    obtain res h' where q: "GetQuality now1 slug tr seg (lg_hls p) = (res, h')" by fastforce
    show thesis
    proof (cases "tr = ''hls'' \<or> tr = ''hlsll''")
      case True
      then have "tr \<noteq> ''dash''" by auto
      with True get Some g q have eq: "parseEntry now1 now2 e p =
          (case res of None \<Rightarrow> p\<lparr>lg_hls := h'\<rparr> | Some stream \<Rightarrow> addSegment now2 (entry_user e) stream (p\<lparr>lg_hls := h'\<rparr>))"
        by (auto simp: parseEntry_def split: option.splits)
      show thesis
      proof (cases res)
        case None
        with q eq none show thesis by (metis option.simps(4))
      next
        case (Some stream)
        show thesis by (rule some) (use Some q eq get True g \<open>FindStringSubmatch (ne_Uri e) = Some g\<close> in simp_all)
      qed
    next
      case False
      with get Some g none [of "lg_hls p"] show thesis by (simp add: parseEntry_def)
    qed
  qed
qed

lemma entry_inv:
  assumes "log_inv conf w" "lw_clock w \<le> now1" "now1 \<le> now2"
  shows "log_inv conf (w\<lparr>lw_parser := parseEntry now1 now2 e (lw_parser w), lw_clock := now2, lw_trace := lw_trace w @ [(now2, e)]\<rparr>)"
proof -
  obtain so where so: "hls_ok so (lg_hls (lw_parser w)) (lw_started w)" using assms(1) by (auto simp: log_inv_def)
  have clock: "lw_clock w \<le> now2" using assms(2,3) by simp
  have segs: "segments_ok w" using assms(1) by (simp add: log_inv_def)
  have later: "x \<le> now2" if "x \<le> lw_clock w" for x using that clock by (rule order_trans)
  show ?thesis
  proof (cases rule: parseEntry_cases [of now1 now2 e "lw_parser w"])
    case (none h')
    have "\<exists>so. hls_ok so h' (lw_started w)" using none(2) so GetQuality_ok(1) [OF so] by blast
    moreover have more: "requested (lw_trace w) u slug t0 \<le> requested (lw_trace w @ [(now2, e)]) u slug t0" for u slug t0
      by (simp add: requested_snoc)
    from segs have "segments_ok (w\<lparr>lw_parser := (lw_parser w)\<lparr>lg_hls := h'\<rparr>, lw_clock := now2, lw_trace := lw_trace w @ [(now2, e)]\<rparr>)"
      by (auto simp: segments_ok_def intro: later order_trans [OF _ more])
    ultimately show ?thesis using none(1) assms(1) by (simp add: log_inv_def)
  next
    case (some h' slug tr seg q)
    note q = GetQuality_ok [OF so some(1)]
    have req: "requests (si_Slug q) e" using q(2) [OF refl] some(2-4) by (auto simp: requests_def)
    have "segments_ok (w\<lparr>lw_parser := addSegment now2 (entry_user e) q ((lw_parser w)\<lparr>lg_hls := h'\<rparr>), lw_clock := now2, lw_trace := lw_trace w @ [(now2, e)]\<rparr>)"
      unfolding segments_ok_def
    proof (intro allI impI)
      fix u xs
      assume x: "lg_segments (lw_parser (w\<lparr>lw_parser := addSegment now2 (entry_user e) q ((lw_parser w)\<lparr>lg_hls := h'\<rparr>), lw_clock := now2,
          lw_trace := lw_trace w @ [(now2, e)]\<rparr>)) u = Some xs"
      let ?old = "case lg_segments (lw_parser w) u of None \<Rightarrow> [] | Some s \<Rightarrow> s"
      have old: "sorted (map sg_Timestamp ?old)" "\<forall>seg \<in> set ?old. sg_Timestamp seg \<le> lw_clock w"
        "length (filter (\<lambda>seg. sg_StreamId seg = s \<and> t0 \<le> sg_Timestamp seg) ?old) \<le> requested (lw_trace w) u (si_Slug s) t0" for s t0
        using segs by (cases "lg_segments (lw_parser w) u"; simp add: segments_ok_def)+
      have xs: "xs = (if u = entry_user e then ?old @ [\<lparr>sg_Timestamp = now2, sg_StreamId = q\<rparr>] else ?old)"
        using x by (auto simp: addSegment_def Let_def split: if_splits)
      have sorted: "sorted (map sg_Timestamp xs)" "\<forall>seg \<in> set xs. sg_Timestamp seg \<le> now2"
        using old(1,2) later unfolding xs by (auto simp: sorted_append)
      have num: "length (filter (\<lambda>seg. sg_StreamId seg = s \<and> t0 \<le> sg_Timestamp seg) xs) \<le> requested (lw_trace w @ [(now2, e)]) u (si_Slug s) t0" for s t0
        using old(3) [of s t0] req unfolding xs by (auto simp: requested_snoc)
      show "sorted (map sg_Timestamp xs) \<and> (\<forall>seg \<in> set xs. sg_Timestamp seg \<le> lw_clock (w\<lparr>lw_parser := addSegment now2 (entry_user e) q ((lw_parser w)\<lparr>lg_hls := h'\<rparr>),
            lw_clock := now2, lw_trace := lw_trace w @ [(now2, e)]\<rparr>))
        \<and> (\<forall>s t0. length (filter (\<lambda>seg. sg_StreamId seg = s \<and> t0 \<le> sg_Timestamp seg) xs)
            \<le> requested (lw_trace (w\<lparr>lw_parser := addSegment now2 (entry_user e) q ((lw_parser w)\<lparr>lg_hls := h'\<rparr>), lw_clock := now2,
                lw_trace := lw_trace w @ [(now2, e)]\<rparr>)) u (si_Slug s) t0)"
        using sorted num by simp
    qed
    with q(1) some(5) assms(1) show ?thesis by (auto simp: log_inv_def addSegment_def Let_def)
  qed
qed

lemma collect_inv:
  assumes "log_inv conf w" "lw_clock w \<le> now" "count_ok now ch (lw_parser w)"
  shows "log_inv conf (w\<lparr>lw_parser := snd (log_Collect now ch order (lw_parser w)), lw_clock := now\<rparr>)"
proof -
  let ?p = "lw_parser w" and ?p' = "snd (log_Collect now ch order (lw_parser w))"
  have segs: "segments_ok w" using assms(1) by (simp add: log_inv_def)
  have o: "range_order (lg_segments ?p) (ch_users ch)" using assms(3) by (simp add: count_ok_def)
  have p': "?p' = ?p \<or> ?p' = log_count ch ?p" by (auto simp: log_Collect_def Let_def)
  then have keep: "lg_conf ?p' = lg_conf ?p" "lg_hls ?p' = lg_hls ?p" using log_count_eq(3,4) [OF o] by auto
  have sub: "\<exists>ys n. lg_segments ?p u = Some ys \<and> xs = drop n ys" if "lg_segments ?p' u = Some xs" for u xs
    using p'
  proof
    assume "?p' = ?p"
    with that show ?thesis by (metis drop0)
  next
    assume "?p' = log_count ch ?p"
    with that log_count_eq(2) [OF o] obtain ys where ys: "lg_segments ?p u = Some ys" "user_left ch (lg_conf ?p) u ys = Some xs"
      by (cases "lg_segments ?p u") auto
    from ys(2) have "\<exists>n. xs = drop n ys" by (auto simp: user_left_def split: prod.splits if_splits)
    with ys(1) show ?thesis by blast
  qed
  have "segments_ok (w\<lparr>lw_parser := ?p', lw_clock := now\<rparr>)"
    unfolding segments_ok_def
  proof (intro allI impI)
    fix u xs
    assume "lg_segments (lw_parser (w\<lparr>lw_parser := ?p', lw_clock := now\<rparr>)) u = Some xs"
    then have "lg_segments ?p' u = Some xs" by simp
    from sub [OF this] obtain ys n where ys: "lg_segments ?p u = Some ys" "xs = drop n ys" by blast
    have ok: "sorted (map sg_Timestamp ys)" "\<forall>seg \<in> set ys. sg_Timestamp seg \<le> now"
      "length (filter (\<lambda>seg. sg_StreamId seg = s \<and> t0 \<le> sg_Timestamp seg) ys) \<le> requested (lw_trace w) u (si_Slug s) t0" for s t0
      using segs ys(1) assms(2) by (auto simp: segments_ok_def intro: order_trans)
    have fewer: "length (filter P xs) \<le> length (filter P ys)" for P
      using ys(2) by (metis append_take_drop_id filter_append le_add2 length_append)
    have "sorted (map sg_Timestamp xs)" using ok(1) ys(2) by (metis drop_map sorted_wrt_drop)
    moreover have "set xs \<subseteq> set ys" using ys(2) by (simp add: set_drop_subset)
    ultimately show "sorted (map sg_Timestamp xs) \<and> (\<forall>seg \<in> set xs. sg_Timestamp seg \<le> lw_clock (w\<lparr>lw_parser := ?p', lw_clock := now\<rparr>))
      \<and> (\<forall>s t0. length (filter (\<lambda>seg. sg_StreamId seg = s \<and> t0 \<le> sg_Timestamp seg) xs)
           \<le> requested (lw_trace (w\<lparr>lw_parser := ?p', lw_clock := now\<rparr>)) u (si_Slug s) t0)"
      using ok(2) order_trans [OF fewer ok(3)] by auto
  qed
  with assms(1) keep show ?thesis by (simp add: log_inv_def)
qed

lemma log_step_inv:
  assumes "log_step isMaster timeout w w'" "log_inv conf w"
  shows "log_inv conf w'"
  using assms(1)
proof (cases rule: log_step.cases)
  case (entry now1 now2 point)
  with entry_inv [OF assms(2)] show ?thesis by simp
next
  case (tick now order hls started)
  obtain so where "hls_ok so (lg_hls (lw_parser w)) (lw_started w)" using assms(2) by (auto simp: log_inv_def)
  then have "hls_ok so hls (lw_started w @ started)"
    using refresh_ok [of so "lg_hls (lw_parser w)" "lw_started w" "[]"] tick(2) by (simp add: updatePlaylists_def)
  with tick(1) assms(2) show ?thesis by (auto simp: log_inv_def segments_ok_def)
next
  case (updated slug ref get)
  obtain so where "hls_ok so (lg_hls (lw_parser w)) (lw_started w)" using assms(2) by (auto simp: log_inv_def)
  from updateMaster_ok [OF this updated(2)] updated(1) assms(2) show ?thesis by (auto simp: log_inv_def segments_ok_def)
next
  case (collect now ch order)
  with collect_inv [OF assms(2)] show ?thesis by simp
qed

lemma log_reach_inv: "log_reach isMaster conf w \<Longrightarrow> log_inv conf w"
proof (induction rule: log_reach.induct)
  case (start now)
  show ?case by (simp add: log_inv_def NewParser_def log_NewHLSParser_def hls_ok_def segments_ok_def)
next
  case (step w w')
  then show ?case by (blast intro: log_step_inv)
qed

lemma reach_sorted:
  assumes "log_reach isMaster conf w"
  shows "sorted_segments (lw_parser w)" "lg_conf (lw_parser w) = conf"
  using log_reach_inv [OF assms] by (auto simp: log_inv_def segments_ok_def sorted_segments_def)

lemma watches_requested:
  assumes "log_reach isMaster conf w"
  shows "watches now (lw_parser w) u s \<le> requested (lw_trace w) u (si_Slug s) (now - pc_SlidingWindow conf)"
proof (cases "lg_segments (lw_parser w) u")
  case (Some segs)
  have "count_list (watched_ids now (pc_SlidingWindow conf) segs) s
      = length (filter (\<lambda>seg. sg_StreamId seg = s \<and> now - pc_SlidingWindow conf \<le> sg_Timestamp seg) segs)"
    by (induction segs) (auto simp: watched_ids_def young_def)
  with Some log_reach_inv [OF assms] show ?thesis by (auto simp: log_inv_def segments_ok_def watches_def)
qed (simp add: watches_def)

section \<open>Names of qualities\<close>

lemma base_no_slash: "slash \<notin> set s \<Longrightarrow> s \<noteq> [] \<Longrightarrow> base s = s"
proof -
  assume s: "slash \<notin> set s" "s \<noteq> []"
  have "last s \<noteq> slash"
  proof
    assume last: "last s = slash"
    from last_in_set [OF s(2)] have "slash \<in> set s" unfolding last .
    with s(1) show False ..
  qed
  then have "dropWhile (\<lambda>c. c = slash) (rev s) = rev s" by (simp add: dropWhile_eq_self_iff hd_rev)
  moreover have "takeWhile (\<lambda>c. c \<noteq> slash) (rev s) = rev s" using s(1) by (auto simp: takeWhile_eq_all_conv)
  ultimately show "base s = s" using s(2) by (simp only: base_def Let_def if_False rev_is_Nil_conv rev_rev_ident)
qed

lemma addQuality_other:
  "(\<And>val. i = Variant val \<Longrightarrow> qualityName (pi_uri val) \<noteq> name) \<Longrightarrow> (\<And>val uri. i = Media val \<Longrightarrow> mi_uri val = Some uri \<Longrightarrow> qualityName uri \<noteq> name)
    \<Longrightarrow> addQuality slug tr i m name = m name"
  by (auto simp: addQuality_def Let_def split: item.splits option.splits)

text \<open>The items of a playlist that give a quality this name.\<close>

fun gives_name :: "string \<Rightarrow> item \<Rightarrow> bool" where
  "gives_name name (Variant val) \<longleftrightarrow> qualityName (pi_uri val) = name"
| "gives_name name (Media val) \<longleftrightarrow> (\<exists>uri. mi_uri val = Some uri \<and> qualityName uri = name)"
| "gives_name name _ \<longleftrightarrow> False"

lemma add_qualities_other: "\<forall>i \<in> set items. \<not> gives_name name i \<Longrightarrow> fold (addQuality slug tr) items m name = m name"
proof (induction items arbitrary: m)
  case (Cons i items)
  have "addQuality slug tr i m name = m name" using Cons.prems by (intro addQuality_other) auto
  with Cons show ?case by simp
qed simp

lemma quality_of_variant:
  assumes "items = before @ Variant val # after" "qualityName (pi_uri val) = name" "\<forall>i \<in> set after. \<not> gives_name name i"
  shows "\<exists>q. fold (addQuality slug tr) items m name = Some q \<and> si_Slug q = slug \<and> si_Transport q = tr \<and> video q \<and> si_Quality q = name"
  using assms add_qualities_other [OF assms(3)] by (auto simp: addQuality_def video_def)

lemma segment_name:
  assumes "slash \<notin> set file" "file = name @ CHR ''_'' # rest" "CHR ''_'' \<notin> set name"
  shows "qualityFromSegmentURI file StreamTransportHLS = Inr name"
  using assms by (simp add: qualityFromSegmentURI_def base_no_slash split_append)

section \<open>The regular expression\<close>

text \<open>What the expression says, declaratively: a path that goes on with a match after some prefix.\<close>

definition uri_matches :: "string \<Rightarrow> string \<Rightarrow> string \<Rightarrow> string \<Rightarrow> string \<Rightarrow> bool" where
  "uri_matches uri pre tr slug seg \<longleftrightarrow> uri = pre @ slash # tr @ slash # slug @ slash # seg
     \<and> tr \<in> {''dash'', ''hls'', ''hlsll''} \<and> slug \<noteq> [] \<and> slash \<notin> set slug \<and> seg \<noteq> [] \<and> CHR 0x0A \<notin> set seg"

lemma uri_groups_iff:
  "uri_groups uri tr = Some g \<longleftrightarrow> (\<exists>slug seg. g = (tr, slug, seg) \<and> uri = slash # tr @ slash # slug @ slash # seg
     \<and> slug \<noteq> [] \<and> slash \<notin> set slug \<and> seg \<noteq> [] \<and> CHR 0x0A \<notin> set seg)" (is "?L \<longleftrightarrow> ?R")
proof
  assume L: ?L
  then have "hasPrefix uri (slash # tr @ [slash])" by (simp add: uri_groups_def split: if_splits)
  then obtain rest where uri: "uri = slash # tr @ slash # rest" unfolding hasPrefix_iff_prefix prefix_def by auto
  let ?slug = "takeWhile (\<lambda>c. c \<noteq> slash) rest"
  from L have g: "g = (tr, ?slug, drop (length ?slug + 1) rest)" "?slug \<noteq> []" "drop (length ?slug + 1) rest \<noteq> []" "CHR 0x0A \<notin> set (drop (length ?slug + 1) rest)"
    by (simp_all add: uri_groups_def uri Let_def split: if_splits)
  have len: "length ?slug < length rest" using g(3) by simp
  then have "rest ! length ?slug = slash" using nth_length_takeWhile [OF len] by simp
  moreover have "rest = take (length ?slug) rest @ rest ! length ?slug # drop (Suc (length ?slug)) rest" using len by (rule id_take_nth_drop)
  moreover have "take (length ?slug) rest = ?slug" by (metis append_eq_conv_conj takeWhile_dropWhile_id)
  ultimately have rest: "rest = ?slug @ slash # drop (length ?slug + 1) rest" by simp
  have "slash \<notin> set ?slug" using set_takeWhileD by fastforce
  with g uri rest show ?R by (intro exI [of _ ?slug] exI [of _ "drop (length ?slug + 1) rest"]) simp
next
  assume ?R
  then obtain slug seg where r: "g = (tr, slug, seg)" "uri = slash # tr @ slash # slug @ slash # seg" "slug \<noteq> []" "slash \<notin> set slug" "seg \<noteq> []" "CHR 0x0A \<notin> set seg" by blast
  have "takeWhile (\<lambda>c. c \<noteq> slash) (slug @ slash # seg) = slug" by (rule takeWhile_append_stop) (use r(4) in auto)
  with r show ?L by (simp add: uri_groups_def hasPrefix_def Let_def)
qed

lemma transport_unique:
  assumes "uri = slash # tr @ slash # x" "uri = slash # tr' @ slash # x'" "slash \<notin> set tr" "slash \<notin> set tr'"
  shows "tr = tr' \<and> x = x'"
  using assms append_eq_append_conv2 by (auto simp: append_eq_append_conv2 append_eq_Cons_conv Cons_eq_append_conv)

lemma transports_plain: "tr \<in> {''dash'', ''hls'', ''hlsll''} \<Longrightarrow> slash \<notin> set tr"
  by auto

lemma uri_groups_transport:
  assumes "uri_groups uri tr = Some g" "uri_groups uri tr' = Some g'" "tr \<in> {''dash'', ''hls'', ''hlsll''}" "tr' \<in> {''dash'', ''hls'', ''hlsll''}"
  shows "tr = tr'"
  using assms(1,2) transport_unique transports_plain [OF assms(3)] transports_plain [OF assms(4)] unfolding uri_groups_iff by blast

lemma uri_here_iff: "uri_here uri = Some (tr, slug, seg) \<longleftrightarrow> uri_matches uri [] tr slug seg"
proof -
  have "uri_here uri = Some (tr, slug, seg) \<longleftrightarrow> tr \<in> {''dash'', ''hls'', ''hlsll''} \<and> uri_groups uri tr = Some (tr, slug, seg)" (is "?L \<longleftrightarrow> ?R")
  proof
    assume ?L
    then obtain t where "t \<in> {''dash'', ''hls'', ''hlsll''}" "uri_groups uri t = Some (tr, slug, seg)" by (auto simp: uri_here_def split: option.splits)
    moreover from this(2) have "t = tr" by (auto simp: uri_groups_iff)
    ultimately show ?R by simp
  next
    assume R: ?R
    have other: "uri_groups uri t = None" if "t \<in> {''dash'', ''hls'', ''hlsll''}" "t \<noteq> tr" for t
    proof (rule ccontr)
      assume "uri_groups uri t \<noteq> None"
      then obtain g where "uri_groups uri t = Some g" by blast
      from uri_groups_transport [OF this conjunct2 [OF R] that(1) conjunct1 [OF R]] that(2) show False by contradiction
    qed
    from R consider "tr = ''dash''" | "tr = ''hls''" | "tr = ''hlsll''" by blast
    then show ?L using R other by cases (simp_all add: uri_here_def)
  qed
  then show ?thesis by (auto simp: uri_groups_iff uri_matches_def)
qed

lemma uri_matches_Cons: "uri_matches (c # uri) (c' # pre) tr slug seg \<longleftrightarrow> c' = c \<and> uri_matches uri pre tr slug seg"
  by (auto simp: uri_matches_def)

section \<open>Properties\<close>

text \<open>C35. A count is exact: in every state the log receiver can reach, a count gives each user with enough
  recent segments of some video exactly one viewer of a video, and likewise for audio; the viewer goes
  to a stream of which the user has fetched the most segments within the sliding window, so the number of a
  stream lies between the users who watch it most strictly and those who watch none more; and
  exactly the segments within the window are kept.\<close>

theorem viewers_exact:
  assumes "log_reach isMaster conf w" "0 \<le> pc_MinSegments conf" "count_ok now ch (lw_parser w)"
  shows "let p = lw_parser w; viewers = lg_viewers (log_count ch p); enough = (\<lambda>u s. pc_MinSegments conf < int (watches now p u s))
    in (\<forall>b. (\<Sum>s | s \<in> dom viewers \<and> video s = b. number viewers s) = int (card {u. \<exists>s. video s = b \<and> enough u s}))
     \<and> (\<forall>s. int (card {u. enough u s \<and> (\<forall>x. x \<noteq> s \<and> video x = video s \<longrightarrow> watches now p u x < watches now p u s)}) \<le> number viewers s
          \<and> number viewers s \<le> int (card {u. enough u s \<and> (\<forall>x. video x = video s \<longrightarrow> watches now p u x \<le> watches now p u s)}))
     \<and> (\<forall>u. (case lg_segments (log_count ch p) u of None \<Rightarrow> [] | Some segs \<Rightarrow> segs)
          = filter (young now (pc_SlidingWindow conf)) (case lg_segments p u of None \<Rightarrow> [] | Some segs \<Rightarrow> segs))"
proof -
  let ?p = "lw_parser w" and ?viewers = "lg_viewers (log_count ch (lw_parser w))"
  note so = reach_sorted [OF assms(1)]
  have ok: "count_ok now ch ?p" "sorted_segments ?p" "0 \<le> pc_MinSegments (lg_conf ?p)" using assms(2,3) so by simp_all
  have o: "range_order (lg_segments ?p) (ch_users ch)" using ok(1) by (simp add: count_ok_def)
  have fin: "finite {u. pc_MinSegments conf < int (watches now ?p u s) \<and> Q u}" for s Q
  proof (rule finite_subset)
    show "{u. pc_MinSegments conf < int (watches now ?p u s) \<and> Q u} \<subseteq> dom (lg_segments ?p)"
      using assms(2) by (auto simp: watches_def split: option.splits)
    show "finite (dom (lg_segments ?p))" using range_order_finite [OF o] .
  qed
  have total: "\<forall>b. (\<Sum>s | s \<in> dom ?viewers \<and> video s = b. number ?viewers s)
      = int (card {u. \<exists>s. video s = b \<and> pc_MinSegments conf < int (watches now ?p u s)})"
    using viewers_total [OF ok] so(2) by simp
  have most: "\<forall>s. int (card {u. pc_MinSegments conf < int (watches now ?p u s) \<and> (\<forall>x. x \<noteq> s \<and> video x = video s \<longrightarrow> watches now ?p u x < watches now ?p u s)}) \<le> number ?viewers s
      \<and> number ?viewers s \<le> int (card {u. pc_MinSegments conf < int (watches now ?p u s) \<and> (\<forall>x. video x = video s \<longrightarrow> watches now ?p u x \<le> watches now ?p u s)})"
  proof (intro allI conjI)
    fix s
    have up: "{u. s \<in> set (picks_of ch ?p u)} \<subseteq> {u. pc_MinSegments conf < int (watches now ?p u s) \<and> (\<forall>x. video x = video s \<longrightarrow> watches now ?p u x \<le> watches now ?p u s)}"
      using picks_once(3) [OF ok] so(2) by auto
    have down: "{u. pc_MinSegments conf < int (watches now ?p u s) \<and> (\<forall>x. x \<noteq> s \<and> video x = video s \<longrightarrow> watches now ?p u x < watches now ?p u s)} \<subseteq> {u. s \<in> set (picks_of ch ?p u)}"
      using picks_once(4) [OF ok] so(2) by auto
    note v = viewers_card [OF ok, of s]
    show "number ?viewers s \<le> int (card {u. pc_MinSegments conf < int (watches now ?p u s) \<and> (\<forall>x. video x = video s \<longrightarrow> watches now ?p u x \<le> watches now ?p u s)})"
      unfolding v of_nat_le_iff by (rule card_mono [OF fin up])
    show "int (card {u. pc_MinSegments conf < int (watches now ?p u s) \<and> (\<forall>x. x \<noteq> s \<and> video x = video s \<longrightarrow> watches now ?p u x < watches now ?p u s)}) \<le> number ?viewers s"
      unfolding v of_nat_le_iff by (rule card_mono [OF finite_subset [OF up fin] down])
  qed
  have left: "(case lg_segments (log_count ch ?p) u of None \<Rightarrow> [] | Some segs \<Rightarrow> segs)
      = filter (young now (pc_SlidingWindow conf)) (case lg_segments ?p u of None \<Rightarrow> [] | Some segs \<Rightarrow> segs)" for u
  proof (cases "lg_segments ?p u")
    case (Some segs)
    obtain v a r where c: "countSegments (\<lambda>_. now) (pc_SlidingWindow conf) segs = (v, a, r)" by (metis prod_cases3)
    have "sorted (map sg_Timestamp segs)" using so(1) Some by (simp add: sorted_segments_def)
    then have d: "drop r segs = filter (young now (pc_SlidingWindow conf)) segs" using countSegments_eq [OF c] by simp
    have "user_left ch (lg_conf ?p) u segs = (if r = length segs then None else Some (drop r segs))"
      using c ok(1) so(2) by (simp add: user_left_def count_ok_def)
    with Some show ?thesis by (simp add: log_count_eq(2) [OF o] d [symmetric])
  qed (simp add: log_count_eq(2) [OF o])
  from total most left show ?thesis by (simp only: Let_def) blast
qed

text \<open>C36. Viewers are backed by the log: no stream is counted with more viewers than there are users who,
  within the sliding window, have each asked for more than the minimum number of segments of that
  stream's slug.\<close>

theorem viewers_backed_by_log:
  assumes "log_reach isMaster conf w" "0 \<le> pc_MinSegments conf" "count_ok now ch (lw_parser w)"
  shows "number (lg_viewers (log_count ch (lw_parser w))) s
    \<le> int (card {u. pc_MinSegments conf < int (requested (lw_trace w) u (si_Slug s) (now - pc_SlidingWindow conf))})"
proof -
  note so = reach_sorted [OF assms(1)]
  have ok: "count_ok now ch (lw_parser w)" "sorted_segments (lw_parser w)" "0 \<le> pc_MinSegments (lg_conf (lw_parser w))" using assms(2,3) so by simp_all
  have "u \<in> (\<lambda>(t, e). entry_user e) ` set (lw_trace w)" if "0 < requested (lw_trace w) u slug t0" for u slug t0
    using that by (force simp: requested_def filter_empty_conv)
  then have "{u. pc_MinSegments conf < int (requested (lw_trace w) u (si_Slug s) (now - pc_SlidingWindow conf))} \<subseteq> (\<lambda>(t, e). entry_user e) ` set (lw_trace w)"
    using assms(2) by (intro subsetI) (simp only: mem_Collect_eq, metis le_less_trans of_nat_0_less_iff)
  then have fin: "finite {u. pc_MinSegments conf < int (requested (lw_trace w) u (si_Slug s) (now - pc_SlidingWindow conf))}"
    by (rule finite_subset) simp
  have "{u. s \<in> set (picks_of ch (lw_parser w) u)} \<subseteq> {u. pc_MinSegments conf < int (requested (lw_trace w) u (si_Slug s) (now - pc_SlidingWindow conf))}"
  proof (intro subsetI CollectI)
    fix u
    assume "u \<in> {u. s \<in> set (picks_of ch (lw_parser w) u)}"
    then have "pc_MinSegments conf < int (watches now (lw_parser w) u s)" using picks_once(3) [OF ok] so(2) by simp
    with watches_requested [OF assms(1), of now u s]
    show "pc_MinSegments conf < int (requested (lw_trace w) u (si_Slug s) (now - pc_SlidingWindow conf))" by linarith
  qed
  from card_mono [OF fin this] show ?thesis using viewers_card [OF ok, of s] by simp
qed

text \<open>A run in which one user asks twice for a segment of \<open>s1\<close>; in between the master playlist is fetched.\<close>

definition relay_conf :: ParserConfig where
  "relay_conf = \<lparr>pc_SocketPath = ''sock'', pc_SlidingWindow = 30, pc_MinSegments = 0, pc_StreamTimeout = 100\<rparr>"

definition relay_entry :: NginxLogEntry where
  "relay_entry = \<lparr>ne_Address = ''::1'', ne_Method = ''GET'', ne_Uri = ''/hls/s1/hd_7.ts'', ne_Status = ''200'', ne_BytesSent = ''1'', ne_Upstream = [],
     ne_Protocol = [], ne_Scheme = [], ne_SSLCipher = [], ne_SSLProtocol = [], ne_UserAgent = ''mpv'', ne_Country = ''DE''\<rparr>"

definition relay_variant :: PlaylistItem where
  "relay_variant = \<lparr>pi_uri = ''hd.m3u8'', pi_resolution = None, pi_codecs = None, pi_width = None, pi_height = None\<rparr>"

definition relay_master :: Playlist where
  "relay_master = \<lparr>pl_items = [Variant relay_variant], pl_sequence = 0, pl_discontinuity = None, pl_target = 0, pl_version = None, pl_live = False\<rparr>"

definition relay_id :: StreamId where
  "relay_id = \<lparr>si_Slug = ''s1'', si_Transport = ''hls'', si_Type = ''video'', si_Variant = [], si_Quality = ''hd'', si_Meta = []\<rparr>"

definition relay_stream :: "time \<Rightarrow> HLSStream" where
  "relay_stream t = \<lparr>hq_transport = ''hls'', hq_qualities = Map.empty, hq_lastUsed = t\<rparr>"

definition relay_world :: log_world where
  "relay_world = \<lparr>lw_parser = \<lparr>lg_hls = \<lparr>lh_streams = [''s1'' \<mapsto> 0], lh_heap = [0 \<mapsto> (relay_stream 3)\<lparr>hq_qualities := [''hd'' \<mapsto> relay_id]\<rparr>], lh_next = 1\<rparr>,
       lg_conf = relay_conf, lg_segments = [entry_user relay_entry \<mapsto> [\<lparr>sg_Timestamp = 4, sg_StreamId = relay_id\<rparr>]],
       lg_viewers = Map.empty, lg_lastCount = zero_time\<rparr>,
     lw_started = [], lw_clock = 4, lw_trace = [(2, relay_entry), (4, relay_entry)]\<rparr>"

lemma relay_match: "FindStringSubmatch ''/hls/s1/hd_7.ts'' = Some (''hls'', ''s1'', ''hd_7.ts'')"
  by (simp add: uri_here_def uri_groups_def hasPrefix_def Let_def)

lemma relay_segment: "isSegmentFile ''hd_7.ts''" "qualityFromSegmentURI ''hd_7.ts'' ''hls'' = Inr ''hd''"
  by (simp_all add: isSegmentFile_def hasSuffix_def qualityFromSegmentURI_def base_def StreamTransportHLS_def Let_def)

lemma relay_reach: "log_reach (\<lambda>_. True) relay_conf relay_world"
proof -
  let ?p0 = "fst (NewParser relay_conf)" and ?timeout = "snd (NewParser relay_conf)"
  let ?w0 = "\<lparr>lw_parser = ?p0, lw_started = [], lw_clock = 0, lw_trace = []\<rparr>"
  let ?h1 = "\<lparr>lh_streams = [''s1'' \<mapsto> 0], lh_heap = [0 \<mapsto> relay_stream 1], lh_next = 1\<rparr>"
  let ?w1 = "?w0\<lparr>lw_parser := ?p0\<lparr>lg_hls := ?h1\<rparr>, lw_clock := 2, lw_trace := [(2, relay_entry)]\<rparr>"
  let ?w2 = "?w1\<lparr>lw_started := [(''s1'', 0)]\<rparr>"
  let ?h3 = "?h1\<lparr>lh_heap := [0 \<mapsto> (relay_stream 1)\<lparr>hq_qualities := [''hd'' \<mapsto> relay_id]\<rparr>]\<rparr>"
  let ?w3 = "?w1\<lparr>lw_parser := ?p0\<lparr>lg_hls := ?h3\<rparr>\<rparr>"
  have e1: "parseEntry 1 2 relay_entry ?p0 = ?p0\<lparr>lg_hls := ?h1\<rparr>"
    by (simp add: parseEntry_def relay_entry_def relay_match GetQuality_def relay_segment NewParser_def log_NewHLSParser_def log_addStream_def relay_stream_def del: FindStringSubmatch.simps)
  have s1: "log_step (\<lambda>_. True) ?timeout ?w0 ?w1"
    using log_step.entry [of ?w0 1 2 "\<lambda>_. True" ?timeout relay_entry] by (simp add: e1)
  have "updatePlaylists (\<lambda>_. 3) ?timeout [''s1''] ?h1 = (?h1, [(''s1'', 0)])"
    by (simp add: updatePlaylists_def refreshStream_def NewParser_def log_NewHLSParser_def relay_conf_def relay_stream_def)
  then have s2: "log_step (\<lambda>_. True) ?timeout ?w1 ?w2"
    using log_step.tick [of "\<lambda>_. 3" ?timeout "[''s1'']" ?w1 ?h1 "[(''s1'', 0)]" "\<lambda>_. True"] by (simp add: range_order_def)
  have "updateMasterPlaylist (\<lambda>_. True) (\<lambda>_. Fetched relay_master) ''s1'' 0 ?h1 = ?h3"
    by (simp add: updateMasterPlaylist_def masterPlaylistUrl_def StreamTransportHLS_def fetchPlaylist_def relay_master_def relay_variant_def relay_stream_def
        addQuality_def qualityName_def trimSuffix_def hasSuffix_def relay_id_def StreamTypeVideo_def)
  then have s3: "log_step (\<lambda>_. True) ?timeout ?w2 ?w3"
    using log_step.updated [of "''s1''" 0 ?w2 "\<lambda>_. True" ?timeout "\<lambda>_. Fetched relay_master"] by simp
  have "parseEntry 3 4 relay_entry (?p0\<lparr>lg_hls := ?h3\<rparr>) = lw_parser relay_world"
    by (simp add: parseEntry_def relay_match GetQuality_def relay_segment NewParser_def log_NewHLSParser_def relay_stream_def
        addSegment_def relay_world_def relay_entry_def Let_def del: FindStringSubmatch.simps)
  then have s4: "log_step (\<lambda>_. True) ?timeout ?w3 relay_world"
    using log_step.entry [of ?w3 3 4 "\<lambda>_. True" ?timeout relay_entry] by (simp add: relay_world_def)
  show ?thesis
    by (rule log_reach.step [OF log_reach.step [OF log_reach.step [OF log_reach.step [OF log_reach.start s1] s2] s3] s4])
qed

definition relay_count :: count_choice where
  "relay_count = \<lparr>ch_now = 5, ch_since = \<lambda>_ _. 5, ch_users = [entry_user relay_entry], ch_video = \<lambda>_. [relay_id], ch_audio = \<lambda>_. []\<rparr>"

lemma relay_count_ok: "count_ok 5 relay_count (lw_parser relay_world)"
  unfolding count_ok_def
proof (intro conjI allI impI)
  fix u segs v a r
  assume "lg_segments (lw_parser relay_world) u = Some segs"
    and c: "countSegments (\<lambda>_. 5) (pc_SlidingWindow (lg_conf (lw_parser relay_world))) segs = (v, a, r)"
  then have "segs = [\<lparr>sg_Timestamp = 4, sg_StreamId = relay_id\<rparr>]" by (simp add: relay_world_def split: if_splits)
  with c have va: "v = [relay_id \<mapsto> 1]" "a = Map.empty"
    by (auto simp: countSegments_def countSegment_def relay_world_def relay_conf_def relay_id_def StreamTypeVideo_def incr_def)
  show "range_order v (ch_video relay_count u)" "range_order a (ch_audio relay_count u)"
    by (simp_all add: va relay_count_def range_order_def)
qed (simp_all add: relay_count_def relay_world_def range_order_def)

lemma relay_watches: "watches 5 (lw_parser relay_world) u s = (if u = entry_user relay_entry \<and> s = relay_id then 1 else 0)"
  by (simp add: watches_def relay_world_def relay_conf_def watched_ids_def young_def)

theorem viewers_exact_witness:
  "log_reach (\<lambda>_. True) relay_conf relay_world \<and> 0 \<le> pc_MinSegments relay_conf
   \<and> (let viewers = lg_viewers (log_count relay_count (lw_parser relay_world))
      in (\<Sum>s | s \<in> dom viewers \<and> video s = True. number viewers s) = 1)"
proof -
  have min: "0 \<le> pc_MinSegments relay_conf" by (simp add: relay_conf_def)
  have "{u. \<exists>s. video s = True \<and> pc_MinSegments relay_conf < int (watches 5 (lw_parser relay_world) u s)} = {entry_user relay_entry}"
    by (auto simp: relay_watches relay_conf_def video_def relay_id_def StreamTypeVideo_def)
  then have "int (card {u. \<exists>s. video s = True \<and> pc_MinSegments relay_conf < int (watches 5 (lw_parser relay_world) u s)}) = 1" by simp
  with viewers_exact [OF relay_reach min relay_count_ok, unfolded Let_def, THEN conjunct1, rule_format, of True] relay_reach min
  show ?thesis by (simp only: Let_def simp_thms)
qed

theorem viewers_backed_by_log_witness:
  "requested (lw_trace relay_world) (entry_user relay_entry) ''s1'' (- 25) = 2
   \<and> number (lg_viewers (log_count relay_count (lw_parser relay_world))) relay_id \<le> 1"
proof -
  have min: "0 \<le> pc_MinSegments relay_conf" by (simp add: relay_conf_def)
  have r: "requests ''s1'' relay_entry" using relay_match relay_segment(1) by (auto simp: requests_def relay_entry_def simp del: FindStringSubmatch.simps)
  then have two: "requested (lw_trace relay_world) (entry_user relay_entry) ''s1'' (- 25) = 2" by (simp add: requested_def relay_world_def)
  have "requested (lw_trace relay_world) u ''s1'' (- 25) = 0" if "u \<noteq> entry_user relay_entry" for u
    using that by (simp add: requested_def relay_world_def)
  with two have "{u. pc_MinSegments relay_conf < int (requested (lw_trace relay_world) u (si_Slug relay_id) (5 - pc_SlidingWindow relay_conf))} = {entry_user relay_entry}"
    by (auto simp: relay_conf_def relay_id_def) (metis less_irrefl)
  with viewers_backed_by_log [OF relay_reach min relay_count_ok, of relay_id] two show ?thesis by simp
qed

text \<open>The name in the path of a segment finds its quality: once the master playlist of a stream has been
  fetched, a request for a segment that begins with the name of a variant, up to the first underscore,
  is a request for that variant.\<close>

lemma segment_finds_variant:
  assumes "lh_streams h slug = Some ref" "lh_heap h ref = Some stream" "hq_transport stream = StreamTransportHLS"
    and "get (''http://localhost/hls/'' @ slug @ ''/native_hd.m3u8'') = Fetched pl" "isMaster pl"
    and "pl_items pl = before @ Variant val # after" "pi_uri val = name @ ''.m3u8''" "\<forall>i \<in> set after. \<not> gives_name name i"
    and "CHR ''.'' \<notin> set name" "CHR ''_'' \<notin> set name" "seg = name @ CHR ''_'' # rest" "slash \<notin> set seg" "isSegmentFile seg"
  shows "\<exists>q. fst (GetQuality now slug StreamTransportHLS seg (updateMasterPlaylist isMaster get slug ref h)) = Some q
    \<and> si_Slug q = slug \<and> si_Transport q = StreamTransportHLS \<and> video q \<and> si_Quality q = name"
proof -
  have "\<not> hasSuffix name ''_stream''" using assms(10) by (auto simp: hasSuffix_iff_suffix suffix_def)
  moreover have "split (CHR ''.'') (name @ ''.m3u8'') ! 0 = name" using split_append [OF assms(9), of "''m3u8''"] by simp
  ultimately have "qualityName (pi_uri val) = name" using assms(7) by (simp only: qualityName_def trimSuffix_def if_False)
  from quality_of_variant [OF assms(6) this assms(8), of slug StreamTransportHLS Map.empty] obtain q
    where q: "fold (addQuality slug StreamTransportHLS) (pl_items pl) Map.empty name = Some q"
      "si_Slug q = slug" "si_Transport q = StreamTransportHLS" "video q" "si_Quality q = name" by blast
  have "masterPlaylistUrl StreamTransportHLS slug = Inr (''http://localhost/hls/'' @ slug @ ''/native_hd.m3u8'')" by (simp only: masterPlaylistUrl_def refl if_True)
  moreover have "fetchPlaylist get (''http://localhost/hls/'' @ slug @ ''/native_hd.m3u8'') = Inr pl" by (simp only: fetchPlaylist_def assms(4) playlist_answer.simps)
  ultimately have "updateMasterPlaylist isMaster get slug ref h = h\<lparr>lh_heap := (lh_heap h)(ref \<mapsto>
      stream\<lparr>hq_qualities := fold (addQuality slug StreamTransportHLS) (pl_items pl) Map.empty\<rparr>)\<rparr>"
    using assms(2,3,5) by (simp add: updateMasterPlaylist_def)
  with assms(1,13) q segment_name [OF assms(12,11,10)] show ?thesis by (simp add: GetQuality_def Let_def)
qed

text \<open>The table of streams is keyed by the slug alone: a stream keeps the transport of the first request, so
  requests over the other transport are counted under it.\<close>

lemma transport_of_first_request:
  assumes "lh_streams h slug = Some ref" "lh_heap h ref = Some stream" "hq_qualities stream name = Some q"
    and "isSegmentFile seg" "qualityFromSegmentURI seg tr = Inr name"
  shows "fst (GetQuality now slug tr seg h) = Some q"
  using assms by (simp add: GetQuality_def Let_def)



end
