(* ===== verification/Dash.thy ===== *)
theory Dash
  imports LogReceiver
begin

text \<open>
  \<open>src/logreceiver/dash.go\<close>: a cache of the qualities of DASH streams, by the directory of a segment. A lookup stores an
  empty manifest for a new directory and fetches the real one in the background; a routine refreshes what is older than an hour.
  Nothing in the program uses it yet.

  The cache is a \<open>sync.Map\<close>, a map here. Joining and fetching URLs and reading a manifest are parameters, gathered in
  \<open>dash_net\<close>; of a manifest there are the parts the code looks at, with \<open>None\<close> for a nil pointer.
\<close>

section \<open>Manifests\<close>

record mpd_representation =
  rp_ID :: "string option"
  rp_Height :: "int option"

record mpd_set =
  as_ContentType :: "string option"
  as_Representations :: "mpd_representation option list"

type_synonym mpd_period = "mpd_set option list"

record DashManifest =
  dm_LastRefresh :: time
  dm_Qualities :: "string \<rightharpoonup> string"

type_synonym dash_cache = "string \<rightharpoonup> DashManifest"

datatype dash_error = PathError string | GetFailed string | BadStatus nat | BodyFailed string | DecodeFailed string | NotOnePeriod

record dash_net =
  dn_joinPath :: "string list \<Rightarrow> string + string"
  dn_get :: "string \<Rightarrow> string + nat \<times> (string + string)"
  dn_read :: "string \<Rightarrow> string + mpd_period list"

text \<open>The two loops over the adaptation sets of the period and their representations.\<close>

definition add_representation :: "mpd_representation option \<Rightarrow> (string \<rightharpoonup> string) \<Rightarrow> (string \<rightharpoonup> string)" where
  "add_representation r q =
     (case r of
        None \<Rightarrow> q
      | Some r' \<Rightarrow>
          (case (rp_Height r', rp_ID r') of
             (Some h, Some i) \<Rightarrow> q(i \<mapsto> itoa h)
           | _ \<Rightarrow> q))"

definition add_set :: "mpd_set option \<Rightarrow> (string \<rightharpoonup> string) \<Rightarrow> (string \<rightharpoonup> string)" where
  "add_set a q =
     (case a of
        None \<Rightarrow> q
      | Some a' \<Rightarrow> if as_ContentType a' \<noteq> Some ''video'' then q else fold add_representation (as_Representations a') q)"

definition fetch_manifest :: "dash_net \<Rightarrow> string \<Rightarrow> dash_error + mpd_period list" where
  "fetch_manifest net b =
     (case dn_joinPath net [''http://127.0.0.1/'', b, ''manifest.mpd''] of
        Inl e \<Rightarrow> Inl (PathError e)
      | Inr path \<Rightarrow>
          (case dn_get net path of
             Inl e \<Rightarrow> Inl (GetFailed e)
           | Inr (status, body) \<Rightarrow>
               if status \<noteq> 200 then Inl (BadStatus status)
               else (case body of
                       Inl e \<Rightarrow> Inl (BodyFailed e)
                     | Inr content \<Rightarrow> (case dn_read net content of Inl e \<Rightarrow> Inl (DecodeFailed e) | Inr ps \<Rightarrow> Inr ps))))"

definition getManifestInBackground :: "dash_net \<Rightarrow> time \<Rightarrow> string \<Rightarrow> dash_cache \<Rightarrow> dash_error option \<times> dash_cache" where
  "getManifestInBackground net now b cache =
     (case fetch_manifest net b of
        Inl e \<Rightarrow> (Some e, cache)
      | Inr periods \<Rightarrow>
          if length periods \<noteq> 1 then (Some NotOnePeriod, cache)
          else (None, cache(b \<mapsto> \<lparr>dm_LastRefresh = now, dm_Qualities = fold add_set (periods ! 0) Map.empty\<rparr>)))"

text \<open>A lookup: the manifest, the cache, and the directory whose manifest is now fetched in the background, if any. When that
  fails the entry is deleted.\<close>

definition getManifest :: "string \<Rightarrow> dash_cache \<Rightarrow> DashManifest \<times> dash_cache \<times> string option" where
  "getManifest segmentPath cache =
     (let b = dir segmentPath; empty = \<lparr>dm_LastRefresh = zero_time, dm_Qualities = Map.empty\<rparr>
      in case cache b of
           Some m \<Rightarrow> (m, cache, None)
         | None \<Rightarrow> (empty, cache(b \<mapsto> empty), Some b))"

definition background :: "dash_net \<Rightarrow> time \<Rightarrow> string \<Rightarrow> dash_cache \<Rightarrow> dash_cache" where
  "background net now b cache =
     (case getManifestInBackground net now b cache of
        (None, cache') \<Rightarrow> cache'
      | (Some e, cache') \<Rightarrow> cache'(b := None))"

text \<open>A tick of \<open>RefreshRoutine\<close>: \<open>Range\<close> visits every key once; \<open>clk\<close> and \<open>net\<close> are read anew for every key.\<close>

definition refresh_entry :: "(string \<Rightarrow> dash_net) \<Rightarrow> (string \<Rightarrow> time) \<Rightarrow> string \<Rightarrow> dash_cache \<Rightarrow> dash_cache" where
  "refresh_entry net clk b cache =
     (case cache b of
        None \<Rightarrow> cache
      | Some m \<Rightarrow> if clk b - dm_LastRefresh m < 60 * minute then cache else background (net b) (clk b) b cache)"

definition RefreshRoutine :: "(string \<Rightarrow> dash_net) \<Rightarrow> (string \<Rightarrow> time) \<Rightarrow> string list \<Rightarrow> dash_cache \<Rightarrow> dash_cache" where
  "RefreshRoutine net clk order cache = fold (refresh_entry net clk) order cache"

section \<open>What the cache holds\<close>

text \<open>The representations that count, in order.\<close>

definition rep_pair :: "mpd_representation option \<Rightarrow> (string \<times> string) option" where
  "rep_pair r = Option.bind r (\<lambda>r. Option.bind (rp_Height r) (\<lambda>h. map_option (\<lambda>i. (i, itoa h)) (rp_ID r)))"

definition video_heights :: "mpd_period \<Rightarrow> (string \<times> string) list" where
  "video_heights p = concat (map (\<lambda>a. case a of
       None \<Rightarrow> []
     | Some a \<Rightarrow> if as_ContentType a = Some ''video'' then List.map_filter rep_pair (as_Representations a) else []) p)"

lemma add_representation_pair: "add_representation r q = (case rep_pair r of None \<Rightarrow> q | Some (i, h) \<Rightarrow> q(i \<mapsto> h))"
  by (auto simp: add_representation_def rep_pair_def split: option.splits)

lemma fold_representations: "fold add_representation rs q = q ++ map_of (rev (List.map_filter rep_pair rs))"
proof (induction rs arbitrary: q)
  case Nil
  then show ?case by (simp add: List.map_filter_def)
next
  case (Cons r rs)
  show ?case
    by (cases "rep_pair r") (auto simp: Cons.IH map_filter_simps add_representation_pair [of r])
qed

lemma fold_sets: "fold add_set p q = q ++ map_of (rev (video_heights p))"
proof (induction p arbitrary: q)
  case Nil
  then show ?case by (simp add: video_heights_def)
next
  case (Cons a p)
  have "video_heights (a # p) = video_heights [a] @ video_heights p" by (simp add: video_heights_def)
  moreover have "add_set a q = q ++ map_of (rev (video_heights [a]))"
    by (cases a) (simp_all add: add_set_def video_heights_def fold_representations)
  ultimately show ?case by (simp add: Cons)
qed

text \<open>The manifest of a directory as its server has it now, if it has a proper one.\<close>

definition manifest_of :: "dash_net \<Rightarrow> time \<Rightarrow> string \<Rightarrow> DashManifest option" where
  "manifest_of net now b =
     (case fetch_manifest net b of
        Inr [p] \<Rightarrow> Some \<lparr>dm_LastRefresh = now, dm_Qualities = map_of (rev (video_heights p))\<rparr>
      | _ \<Rightarrow> None)"

lemma background_eq: "background net now b cache = cache(b := manifest_of net now b)"
  by (auto simp: background_def getManifestInBackground_def manifest_of_def fold_sets length_Suc_conv split: sum.splits list.splits)

text \<open>After a lookup and its background fetch the directory has the manifest of its server, or no entry; after a refresh, in
  whatever order, an entry is younger than an hour, or the manifest of its server now, or gone.\<close>

lemma lookup_then_fetch:
  "getManifest path cache = (m, cache', Some b) \<Longrightarrow> background net now b cache' = cache(dir path := manifest_of net now (dir path))"
  by (auto simp: getManifest_def background_eq Let_def split: option.splits)

lemma refresh_exact:
  assumes "range_order cache order"
  shows "RefreshRoutine net clk order cache b =
    (case cache b of
       None \<Rightarrow> None
     | Some m \<Rightarrow> if clk b - dm_LastRefresh m < 60 * minute then Some m else manifest_of (net b) (clk b) b)"
proof -
  let ?f = "\<lambda>b m. if clk b - dm_LastRefresh m < 60 * minute then Some m else manifest_of (net b) (clk b) b"
  have "refresh_entry net clk k c = c(k := Option.bind (c k) (?f k))" for k c
    by (auto simp: refresh_entry_def background_eq fun_upd_idem split: option.splits)
  then have "refresh_entry net clk = (\<lambda>k c. c(k := Option.bind (c k) (?f k)))" by blast
  then have "RefreshRoutine net clk order cache = map_entries ?f order cache"
    by (simp only: RefreshRoutine_def map_entries_def)
  with map_entries_range_order [OF assms] show ?thesis by (simp split: option.splits)
qed

end
