(* ===== verification/Exporter.thy ===== *)
theory Exporter
  imports Complex_Main GoPath
begin

text \<open>
  The transcoding exporter (\<open>src/cmd/transcoding-exporter\<close>): ffmpeg sends its progress as the body of one long
  request (\<open>progress.go\<close>), and the exporter turns it into Prometheus metrics with one label, the stream
  (\<open>metrics.go\<close>).

  Numbers are real; \<open>parseFloat\<close> is \<open>strconv.ParseFloat\<close> for values that are numbers. A vector of metrics maps the
  label to its value; a counter that is asked for begins at zero, and adding a negative number panics. The
  lines of the body come from \<open>bufio.Scanner\<close>, which ends with an error at a line that does not fit its
  buffer. Registration with Prometheus and the HTTP server are left out.
\<close>

section \<open>Metrics\<close>

type_synonym metric_vec = "string \<rightharpoonup> real"

record Metrics =
  totalFrames :: metric_vec
  totalDroppedFrames :: metric_vec
  totalDuplicatedFrames :: metric_vec
  totalBytes :: metric_vec
  totalDuration :: metric_vec
  currentBitrate :: metric_vec
  currentFPS :: metric_vec
  currentSpeed :: metric_vec

definition NewMetrics :: Metrics where
  "NewMetrics = \<lparr>totalFrames = Map.empty, totalDroppedFrames = Map.empty, totalDuplicatedFrames = Map.empty,
     totalBytes = Map.empty, totalDuration = Map.empty, currentBitrate = Map.empty, currentFPS = Map.empty, currentSpeed = Map.empty\<rparr>"

definition vec_value :: "metric_vec \<Rightarrow> string \<Rightarrow> real" where
  "vec_value v label = (case v label of None \<Rightarrow> 0 | Some x \<Rightarrow> x)"

definition counter_add :: "string \<Rightarrow> real \<Rightarrow> metric_vec \<Rightarrow> metric_vec go" where
  "counter_add label x v = (if x < 0 then Inl NegativeCounter else Inr (v(label \<mapsto> vec_value v label + x)))"

definition RecordFrames :: "string \<Rightarrow> real \<Rightarrow> Metrics \<Rightarrow> Metrics go" where
  "RecordFrames streamID count m = go_bind (counter_add streamID count (totalFrames m)) (\<lambda>v. Inr (m\<lparr>totalFrames := v\<rparr>))"

definition RecordDroppedFrames :: "string \<Rightarrow> real \<Rightarrow> Metrics \<Rightarrow> Metrics go" where
  "RecordDroppedFrames streamID count m = go_bind (counter_add streamID count (totalDroppedFrames m)) (\<lambda>v. Inr (m\<lparr>totalDroppedFrames := v\<rparr>))"

definition RecordDuplicatedFrames :: "string \<Rightarrow> real \<Rightarrow> Metrics \<Rightarrow> Metrics go" where
  "RecordDuplicatedFrames streamID count m = go_bind (counter_add streamID count (totalDuplicatedFrames m)) (\<lambda>v. Inr (m\<lparr>totalDuplicatedFrames := v\<rparr>))"

definition RecordBytes :: "string \<Rightarrow> real \<Rightarrow> Metrics \<Rightarrow> Metrics go" where
  "RecordBytes streamID count m = go_bind (counter_add streamID count (totalBytes m)) (\<lambda>v. Inr (m\<lparr>totalBytes := v\<rparr>))"

definition RecordDuration :: "string \<Rightarrow> real \<Rightarrow> Metrics \<Rightarrow> Metrics go" where
  "RecordDuration streamID seconds m = go_bind (counter_add streamID seconds (totalDuration m)) (\<lambda>v. Inr (m\<lparr>totalDuration := v\<rparr>))"

definition SetBitrate :: "string \<Rightarrow> real \<Rightarrow> Metrics \<Rightarrow> Metrics" where
  "SetBitrate streamID kbps m = m\<lparr>currentBitrate := (currentBitrate m)(streamID \<mapsto> kbps)\<rparr>"

definition SetFPS :: "string \<Rightarrow> real \<Rightarrow> Metrics \<Rightarrow> Metrics" where
  "SetFPS streamID fps m = m\<lparr>currentFPS := (currentFPS m)(streamID \<mapsto> fps)\<rparr>"

definition SetSpeed :: "string \<Rightarrow> real \<Rightarrow> Metrics \<Rightarrow> Metrics" where
  "SetSpeed streamID speed m = m\<lparr>currentSpeed := (currentSpeed m)(streamID \<mapsto> speed)\<rparr>"

definition DeleteStream :: "string \<Rightarrow> Metrics \<Rightarrow> Metrics" where
  "DeleteStream streamID m =
     \<lparr>totalFrames = (totalFrames m)(streamID := None), totalDroppedFrames = (totalDroppedFrames m)(streamID := None),
      totalDuplicatedFrames = (totalDuplicatedFrames m)(streamID := None), totalBytes = (totalBytes m)(streamID := None),
      totalDuration = (totalDuration m)(streamID := None), currentBitrate = (currentBitrate m)(streamID := None),
      currentFPS = (currentFPS m)(streamID := None), currentSpeed = (currentSpeed m)(streamID := None)\<rparr>"

section \<open>Progress\<close>

record activeStream =
  as_streamID :: string
  as_lastFrame :: real
  as_lastDropped :: real
  as_lastDup :: real
  as_lastBytes :: real
  as_lastDuration :: real

definition new_stream :: "string \<Rightarrow> activeStream" where
  "new_stream streamID = \<lparr>as_streamID = streamID, as_lastFrame = 0, as_lastDropped = 0, as_lastDup = 0, as_lastBytes = 0, as_lastDuration = 0\<rparr>"

text \<open>\<open>record\<close> passes on how much the value has grown; it returns the new state of the value.\<close>

definition progress_record :: "real \<Rightarrow> real \<Rightarrow> (string \<Rightarrow> real \<Rightarrow> Metrics \<Rightarrow> Metrics go) \<Rightarrow> string \<Rightarrow> Metrics \<Rightarrow> (real \<times> Metrics) go" where
  "progress_record state newvalue recordFunc streamID m =
     (if newvalue > state then go_bind (recordFunc streamID (newvalue - state) m) (\<lambda>m'. Inr (newvalue, m'))
      else Inr (state, m))"

definition updateMetrics :: "string \<Rightarrow> real \<Rightarrow> activeStream \<times> Metrics \<Rightarrow> (activeStream \<times> Metrics) go" where
  "updateMetrics key val sm =
     (case sm of (stream, m) \<Rightarrow>
        if key = ''frame'' then
          go_bind (progress_record (as_lastFrame stream) val RecordFrames (as_streamID stream) m) (\<lambda>(x, m'). Inr (stream\<lparr>as_lastFrame := x\<rparr>, m'))
        else if key = ''drop_frames'' then
          go_bind (progress_record (as_lastDropped stream) val RecordDroppedFrames (as_streamID stream) m) (\<lambda>(x, m'). Inr (stream\<lparr>as_lastDropped := x\<rparr>, m'))
        else if key = ''dup_frames'' then
          go_bind (progress_record (as_lastDup stream) val RecordDuplicatedFrames (as_streamID stream) m) (\<lambda>(x, m'). Inr (stream\<lparr>as_lastDup := x\<rparr>, m'))
        else if key = ''total_size'' then
          go_bind (progress_record (as_lastBytes stream) val RecordBytes (as_streamID stream) m) (\<lambda>(x, m'). Inr (stream\<lparr>as_lastBytes := x\<rparr>, m'))
        else if key = ''out_time_us'' then
          go_bind (progress_record (as_lastDuration stream) (val / 1000000) RecordDuration (as_streamID stream) m) (\<lambda>(x, m'). Inr (stream\<lparr>as_lastDuration := x\<rparr>, m'))
        else if key = ''bitrate'' then Inr (stream, SetBitrate (as_streamID stream) val m)
        else if key = ''fps'' then Inr (stream, SetFPS (as_streamID stream) val m)
        else if key = ''speed'' then Inr (stream, SetSpeed (as_streamID stream) val m)
        else Inr (stream, m))"

text \<open>\<open>strings.SplitN\<close> at the first equals sign, and \<open>strings.TrimSpace\<close> for ASCII.\<close>

definition split_pair :: "string \<Rightarrow> (string \<times> string) option" where
  "split_pair line = (if CHR ''='' \<in> set line
     then Some (takeWhile (\<lambda>c. c \<noteq> CHR ''='') line, tl (dropWhile (\<lambda>c. c \<noteq> CHR ''='') line)) else None)"

definition is_space :: "char \<Rightarrow> bool" where
  "is_space c \<longleftrightarrow> c \<in> {CHR '' '', CHR 0x09, CHR 0x0A, CHR 0x0B, CHR 0x0C, CHR 0x0D}"

definition trimSpace :: "string \<Rightarrow> string" where
  "trimSpace s = rev (dropWhile is_space (rev (dropWhile is_space s)))"

definition parseLine :: "(string \<Rightarrow> real option) \<Rightarrow> string \<Rightarrow> (string \<times> real) option" where
  "parseLine parseFloat line =
     (if line = [] then None
      else
        (case split_pair line of
           None \<Rightarrow> None
         | Some (key, v) \<Rightarrow>
             let v1 = trimSpace v;
                 v2 = (if key = ''speed'' then trimSuffix v1 ''x'' else v1)
             in map_option (Pair key) (parseFloat v2)))"

definition progressLine :: "(string \<Rightarrow> real option) \<Rightarrow> string \<Rightarrow> activeStream \<times> Metrics \<Rightarrow> (activeStream \<times> Metrics) go" where
  "progressLine parseFloat line sm =
     (case parseLine parseFloat line of
        None \<Rightarrow> Inr sm
      | Some (key, val) \<Rightarrow> updateMetrics key val sm)"

text \<open>The scanner: the lines before one that is too long, without line ends, and whether there was none.\<close>

definition scan_limit :: nat where "scan_limit = 65536"

definition scan_lines :: "string \<Rightarrow> string list \<times> bool" where
  "scan_lines body =
     (let parts = split (CHR 0x0A) body;
          ls = (if last parts = [] then butlast parts else parts);
          fitting = takeWhile (\<lambda>l. length l < scan_limit) ls
      in (map (\<lambda>l. trimSuffix l [CHR 0x0D]) fitting, length fitting = length ls))"

text \<open>The handler: the status, the metrics when the lines have been read, and the metrics in the end. The body is the
  text that arrives and whether the connection ended without error.\<close>

definition ServeProgress :: "(string \<Rightarrow> real option) \<Rightarrow> string \<Rightarrow> string \<Rightarrow> string \<times> bool \<Rightarrow> Metrics \<Rightarrow> (nat \<times> Metrics \<times> Metrics) go" where
  "ServeProgress parseFloat verb path body m =
     (if verb \<noteq> ''POST'' \<and> verb \<noteq> ''PUT'' then Inr (405, m, m)
      else
        (let streamID = split slash (trimPrefix path ''/progress/'') ! 0
         in if streamID = [] then Inr (400, m, m)
            else
              (case scan_lines (fst body) of
                 (ls, whole) \<Rightarrow>
                   go_bind (go_fold (progressLine parseFloat) ls (new_stream streamID, m)) (\<lambda>(stream, m').
                     Inr (if whole \<and> snd body then 200 else 400, m', DeleteStream streamID m')))))"

section \<open>The counters and gauges\<close>

text \<open>The five counters and three gauges under one name each, so that a fact about all of them is stated once.\<close>

datatype counter = Frames | Dropped | Duplicated | Bytes | Duration

datatype gauge = Bitrate | FPS | Speed

fun counter_key :: "counter \<Rightarrow> string" where
  "counter_key Frames = ''frame''"
| "counter_key Dropped = ''drop_frames''"
| "counter_key Duplicated = ''dup_frames''"
| "counter_key Bytes = ''total_size''"
| "counter_key Duration = ''out_time_us''"

fun scaled :: "counter \<Rightarrow> real \<Rightarrow> real" where
  "scaled Duration x = x / 1000000"
| "scaled _ x = x"

fun counter_vec :: "counter \<Rightarrow> Metrics \<Rightarrow> metric_vec" where
  "counter_vec Frames m = totalFrames m"
| "counter_vec Dropped m = totalDroppedFrames m"
| "counter_vec Duplicated m = totalDuplicatedFrames m"
| "counter_vec Bytes m = totalBytes m"
| "counter_vec Duration m = totalDuration m"

fun counter_last :: "counter \<Rightarrow> activeStream \<Rightarrow> real" where
  "counter_last Frames s = as_lastFrame s"
| "counter_last Dropped s = as_lastDropped s"
| "counter_last Duplicated s = as_lastDup s"
| "counter_last Bytes s = as_lastBytes s"
| "counter_last Duration s = as_lastDuration s"

fun gauge_key :: "gauge \<Rightarrow> string" where
  "gauge_key Bitrate = ''bitrate''"
| "gauge_key FPS = ''fps''"
| "gauge_key Speed = ''speed''"

fun gauge_vec :: "gauge \<Rightarrow> Metrics \<Rightarrow> metric_vec" where
  "gauge_vec Bitrate m = currentBitrate m"
| "gauge_vec FPS m = currentFPS m"
| "gauge_vec Speed m = currentSpeed m"

lemmas metric_defs = RecordFrames_def RecordDroppedFrames_def RecordDuplicatedFrames_def RecordBytes_def RecordDuration_def
  SetBitrate_def SetFPS_def SetSpeed_def counter_add_def progress_record_def vec_value_def

text \<open>One value: the counter of its key grows by what the value exceeds the largest one so far; a gauge is set.\<close>

definition one_update :: "string \<Rightarrow> real \<Rightarrow> activeStream \<times> Metrics \<Rightarrow> activeStream \<times> Metrics \<Rightarrow> bool" where
  "one_update key val sm sm' \<longleftrightarrow> as_streamID (fst sm') = as_streamID (fst sm)
     \<and> (\<forall>c. counter_last c (fst sm') = (if key = counter_key c then max (counter_last c (fst sm)) (scaled c val) else counter_last c (fst sm))
          \<and> vec_value (counter_vec c (snd sm')) (as_streamID (fst sm)) - vec_value (counter_vec c (snd sm)) (as_streamID (fst sm))
              = counter_last c (fst sm') - counter_last c (fst sm))
     \<and> (\<forall>g. gauge_vec g (snd sm') (as_streamID (fst sm)) = (if key = gauge_key g then Some val else gauge_vec g (snd sm) (as_streamID (fst sm))))
     \<and> (\<forall>l. l \<noteq> as_streamID (fst sm) \<longrightarrow> (\<forall>c. counter_vec c (snd sm') l = counter_vec c (snd sm) l) \<and> (\<forall>g. gauge_vec g (snd sm') l = gauge_vec g (snd sm) l))"

lemma all_counters: "(\<forall>c. P c) \<longleftrightarrow> P Frames \<and> P Dropped \<and> P Duplicated \<and> P Bytes \<and> P Duration"
  by (metis counter.exhaust)

lemma all_gauges: "(\<forall>g. P g) \<longleftrightarrow> P Bitrate \<and> P FPS \<and> P Speed"
  by (metis gauge.exhaust)

lemma updateMetrics_one: "\<exists>sm'. updateMetrics key val sm = Inr sm' \<and> one_update key val sm sm'"
proof (cases sm)
  case (Pair s m)
  consider c where "key = counter_key c" | g where "key = gauge_key g" | "\<forall>c. key \<noteq> counter_key c" "\<forall>g. key \<noteq> gauge_key g" by blast
  then show ?thesis
  proof cases
    case 1
    then show ?thesis
      by (cases c; cases "scaled c val > counter_last c s")
        (auto simp: Pair updateMetrics_def metric_defs one_update_def all_counters all_gauges max_def)
  next
    case 2
    then show ?thesis
      by (cases g) (auto simp: Pair updateMetrics_def metric_defs one_update_def all_counters all_gauges)
  next
    case 3
    then have "updateMetrics key val sm = Inr sm"
      by (simp add: Pair updateMetrics_def all_counters all_gauges)
    with 3 show ?thesis by (auto simp: one_update_def)
  qed
qed

section \<open>A whole request\<close>

definition readings :: "(string \<Rightarrow> real option) \<Rightarrow> string list \<Rightarrow> (string \<times> real) list" where
  "readings parseFloat ls = List.map_filter (parseLine parseFloat) ls"

definition reported :: "(string \<Rightarrow> real option) \<Rightarrow> string \<Rightarrow> string list \<Rightarrow> real list" where
  "reported parseFloat key ls = map snd (filter (\<lambda>r. fst r = key) (readings parseFloat ls))"

definition high_water :: "real list \<Rightarrow> real" where
  "high_water xs = fold max xs 0"

text \<open>What the values of a request amount to, key by key.\<close>

definition totals :: "(string \<times> real) list \<Rightarrow> activeStream \<times> Metrics \<Rightarrow> activeStream \<times> Metrics \<Rightarrow> bool" where
  "totals rs sm sm' \<longleftrightarrow> as_streamID (fst sm') = as_streamID (fst sm)
     \<and> (\<forall>c. counter_last c (fst sm') = fold max (map (scaled c \<circ> snd) (filter (\<lambda>r. fst r = counter_key c) rs)) (counter_last c (fst sm))
          \<and> vec_value (counter_vec c (snd sm')) (as_streamID (fst sm)) - vec_value (counter_vec c (snd sm)) (as_streamID (fst sm))
              = counter_last c (fst sm') - counter_last c (fst sm))
     \<and> (\<forall>g. gauge_vec g (snd sm') (as_streamID (fst sm))
          = fold (\<lambda>x _. Some x) (map snd (filter (\<lambda>r. fst r = gauge_key g) rs)) (gauge_vec g (snd sm) (as_streamID (fst sm))))
     \<and> (\<forall>l. l \<noteq> as_streamID (fst sm) \<longrightarrow> (\<forall>c. counter_vec c (snd sm') l = counter_vec c (snd sm) l) \<and> (\<forall>g. gauge_vec g (snd sm') l = gauge_vec g (snd sm) l))"

lemma totals_Nil: "totals [] sm sm"
  by (simp add: totals_def)

lemma totals_Cons:
  assumes "one_update key val sm sm1" "totals rs sm1 sm2"
  shows "totals ((key, val) # rs) sm sm2"
proof -
  have one: "as_streamID (fst sm1) = as_streamID (fst sm)"
    "counter_last c (fst sm1) = (if key = counter_key c then max (counter_last c (fst sm)) (scaled c val) else counter_last c (fst sm))"
    "vec_value (counter_vec c (snd sm1)) (as_streamID (fst sm)) - vec_value (counter_vec c (snd sm)) (as_streamID (fst sm))
       = counter_last c (fst sm1) - counter_last c (fst sm)"
    "gauge_vec g (snd sm1) (as_streamID (fst sm)) = (if key = gauge_key g then Some val else gauge_vec g (snd sm) (as_streamID (fst sm)))"
    "l \<noteq> as_streamID (fst sm) \<Longrightarrow> counter_vec c (snd sm1) l = counter_vec c (snd sm) l"
    "l \<noteq> as_streamID (fst sm) \<Longrightarrow> gauge_vec g (snd sm1) l = gauge_vec g (snd sm) l" for c g l
    using assms(1) by (simp_all add: one_update_def)
  have two: "as_streamID (fst sm2) = as_streamID (fst sm)"
    "counter_last c (fst sm2) = fold max (map (scaled c \<circ> snd) (filter (\<lambda>r. fst r = counter_key c) rs)) (counter_last c (fst sm1))"
    "vec_value (counter_vec c (snd sm2)) (as_streamID (fst sm)) - vec_value (counter_vec c (snd sm1)) (as_streamID (fst sm))
       = counter_last c (fst sm2) - counter_last c (fst sm1)"
    "gauge_vec g (snd sm2) (as_streamID (fst sm))
       = fold (\<lambda>x _. Some x) (map snd (filter (\<lambda>r. fst r = gauge_key g) rs)) (gauge_vec g (snd sm1) (as_streamID (fst sm)))"
    "l \<noteq> as_streamID (fst sm) \<Longrightarrow> counter_vec c (snd sm2) l = counter_vec c (snd sm1) l"
    "l \<noteq> as_streamID (fst sm) \<Longrightarrow> gauge_vec g (snd sm2) l = gauge_vec g (snd sm1) l" for c g l
    using assms(2) one(1) by (simp_all add: totals_def)
  have sum: "vec_value (counter_vec c (snd sm2)) (as_streamID (fst sm)) - vec_value (counter_vec c (snd sm)) (as_streamID (fst sm))
      = counter_last c (fst sm2) - counter_last c (fst sm)" for c
    using one(3) [of c] two(3) [of c] by linarith
  show ?thesis
    unfolding totals_def
    by (intro conjI allI impI) (simp_all only: sum, simp_all add: one two max.commute)
qed

lemma readings_simps:
  "readings parseFloat [] = []"
  "readings parseFloat (l # ls) = (case parseLine parseFloat l of None \<Rightarrow> readings parseFloat ls | Some r \<Rightarrow> r # readings parseFloat ls)"
  by (simp_all add: readings_def List.map_filter_def split: option.splits)

lemma progress_lines: "\<exists>sm'. go_fold (progressLine parseFloat) ls sm = Inr sm' \<and> totals (readings parseFloat ls) sm sm'"
proof (induction ls arbitrary: sm)
  case Nil
  show ?case by (simp add: readings_simps totals_Nil)
next
  case (Cons l ls)
  show ?case
  proof (cases "parseLine parseFloat l")
    case None
    with Cons.IH [of sm] show ?thesis by (simp add: progressLine_def readings_simps)
  next
    case (Some r)
    obtain key val where r: "r = (key, val)" by fastforce
    obtain sm1 where 1: "updateMetrics key val sm = Inr sm1" "one_update key val sm sm1" using updateMetrics_one by blast
    obtain sm2 where 2: "go_fold (progressLine parseFloat) ls sm1 = Inr sm2" "totals (readings parseFloat ls) sm1 sm2" using Cons.IH by blast
    have "progressLine parseFloat l sm = Inr sm1" using Some r 1(1) by (simp add: progressLine_def)
    with 2(1) Some r totals_Cons [OF 1(2) 2(2)] show ?thesis by (simp add: readings_simps)
  qed
qed

lemma gauge_last: "fold (\<lambda>x _. Some x) xs e = (if xs = [] then e else Some (last xs))"
  by (induction xs arbitrary: e) auto

lemma DeleteStream_vecs:
  "counter_vec c (DeleteStream x m) = (counter_vec c m)(x := None)" "gauge_vec g (DeleteStream x m) = (gauge_vec g m)(x := None)"
  by (cases c; simp add: DeleteStream_def) (cases g; simp add: DeleteStream_def)

section \<open>Properties\<close>

text \<open>C37. The exporter's counters are high-water marks: whatever lines ffmpeg sends, the request is handled without a
  panic; while it lasts each counter of its stream has grown by exactly the largest value reported under its
  key, however the values go up and down, each gauge shows the last value; and when it ends the
  stream has no metrics any more. Other streams are never touched.\<close>

theorem progress_high_water:
  assumes "verb = ''POST'' \<or> verb = ''PUT''" "streamID = split slash (trimPrefix path ''/progress/'') ! 0" "streamID \<noteq> []"
    and "ls = fst (scan_lines (fst body))"
  shows "\<exists>code m' m''. ServeProgress parseFloat verb path body m = Inr (code, m', m'')
    \<and> (code = 200 \<longleftrightarrow> snd (scan_lines (fst body)) \<and> snd body)
    \<and> (\<forall>c. vec_value (counter_vec c m') streamID = vec_value (counter_vec c m) streamID + high_water (map (scaled c) (reported parseFloat (counter_key c) ls))
         \<and> counter_vec c m'' streamID = None)
    \<and> (\<forall>g. gauge_vec g m' streamID = (let xs = reported parseFloat (gauge_key g) ls in if xs = [] then gauge_vec g m streamID else Some (last xs))
         \<and> gauge_vec g m'' streamID = None)
    \<and> (\<forall>l. l \<noteq> streamID \<longrightarrow> (\<forall>c. counter_vec c m' l = counter_vec c m l \<and> counter_vec c m'' l = counter_vec c m l)
         \<and> (\<forall>g. gauge_vec g m' l = gauge_vec g m l \<and> gauge_vec g m'' l = gauge_vec g m l))"
proof -
  obtain s m' where run: "go_fold (progressLine parseFloat) ls (new_stream streamID, m) = Inr (s, m')"
    and tot: "totals (readings parseFloat ls) (new_stream streamID, m) (s, m')"
    using progress_lines [of parseFloat ls "(new_stream streamID, m)"] by fastforce
  have new: "as_streamID (new_stream streamID) = streamID" "counter_last c (new_stream streamID) = 0" for c
    by (simp add: new_stream_def) (cases c; simp add: new_stream_def)
  have serve: "ServeProgress parseFloat verb path body m =
      Inr (if snd (scan_lines (fst body)) \<and> snd body then 200 else 400, m', DeleteStream streamID m')"
    using assms run by (auto simp: ServeProgress_def Let_def split: prod.splits)
  have counters: "vec_value (counter_vec c m') streamID = vec_value (counter_vec c m) streamID + high_water (map (scaled c) (reported parseFloat (counter_key c) ls))" for c
  proof -
    have "counter_last c s = high_water (map (scaled c) (reported parseFloat (counter_key c) ls))"
      "vec_value (counter_vec c m') streamID - vec_value (counter_vec c m) streamID = counter_last c s"
      using tot by (simp_all add: totals_def new reported_def high_water_def)
    then show ?thesis by linarith
  qed
  have gauges: "gauge_vec g m' streamID = (let xs = reported parseFloat (gauge_key g) ls in if xs = [] then gauge_vec g m streamID else Some (last xs))" for g
    using tot by (simp add: totals_def new reported_def gauge_last Let_def)
  have others: "counter_vec c m' l = counter_vec c m l" "gauge_vec g m' l = gauge_vec g m l" if "l \<noteq> streamID" for l c g
    using tot that by (simp_all add: totals_def new)
  show ?thesis unfolding serve
    by (intro exI [of _ "if snd (scan_lines (fst body)) \<and> snd body then 200 else 400"] exI [of _ m'] exI [of _ "DeleteStream streamID m'"])
      (simp add: counters gauges others DeleteStream_vecs)
qed

text \<open>Two digits are enough for an example of \<open>ParseFloat\<close>.\<close>

definition demo_float :: "string \<Rightarrow> real option" where
  "demo_float v = (if v = ''7'' then Some 7 else if v = ''4'' then Some 4 else None)"

theorem progress_high_water_witness:
  "\<exists>code m' m''. ServeProgress demo_float ''PUT'' ''/progress/s1'' (''frame=4'' @ [CHR 0x0A] @ ''frame= 7'' @ [CHR 0x0A] @ ''frame=4'' @ [CHR 0x0A], True) NewMetrics
     = Inr (code, m', m'') \<and> vec_value (totalFrames m') ''s1'' = 7 \<and> totalFrames m'' ''s1'' = None"
proof -
  let ?body = "(''frame=4'' @ [CHR 0x0A] @ ''frame= 7'' @ [CHR 0x0A] @ ''frame=4'' @ [CHR 0x0A], True)"
  have ls: "fst (scan_lines (fst ?body)) = [''frame=4'', ''frame= 7'', ''frame=4'']"
    by (simp add: scan_lines_def scan_limit_def trimSuffix_def hasSuffix_def)
  have rs: "reported demo_float (counter_key Frames) [''frame=4'', ''frame= 7'', ''frame=4''] = [4, 7, 4]"
    by (simp add: reported_def readings_simps parseLine_def split_pair_def trimSpace_def is_space_def demo_float_def)
  have id: "''s1'' = split slash (trimPrefix ''/progress/s1'' ''/progress/'') ! 0" by (simp add: trimPrefix_def hasPrefix_def)
  have pre: "''PUT'' = ''POST'' \<or> ''PUT'' = ''PUT''" "''s1'' \<noteq> []" by simp_all
  from progress_high_water [where verb = "''PUT''" and path = "''/progress/s1''" and streamID = "''s1''" and body = ?body and parseFloat = demo_float and m = NewMetrics,
      OF pre(1) id pre(2) refl] obtain code m' m'' where r: "ServeProgress demo_float ''PUT'' ''/progress/s1'' ?body NewMetrics = Inr (code, m', m'')"
    "\<forall>c. vec_value (counter_vec c m') ''s1'' = vec_value (counter_vec c NewMetrics) ''s1'' + high_water (map (scaled c) (reported demo_float (counter_key c) (fst (scan_lines (fst ?body)))))
       \<and> counter_vec c m'' ''s1'' = None" by (elim exE conjE) (rule that)
  from spec [OF r(2), of Frames] have "vec_value (totalFrames m') ''s1'' = 7 \<and> totalFrames m'' ''s1'' = None"
    unfolding ls rs by (simp add: high_water_def NewMetrics_def vec_value_def)
  with r(1) show ?thesis by blast
qed

text \<open>Two requests for one stream share its label: the end of the first deletes the counters, and what the
  second adds then is only what has been added since.\<close>

lemma overlapping_requests_lose:
  assumes "as_streamID s = x" "as_lastFrame s = a" "a < b"
  shows "\<exists>s' m'. updateMetrics ''frame'' b (s, DeleteStream x m) = Inr (s', m') \<and> vec_value (totalFrames m') x = b - a"
  using assms by (simp add: updateMetrics_def metric_defs DeleteStream_def)

end
