(* ===== verification/HttpFront.thy ===== *)
theory HttpFront
  imports ServerRun Sink Exporter Loops
begin

text \<open>
  What stands before the handlers: the routing of requests in Go's \<open>http.ServeMux\<close>, with the patterns of the
  upload server (\<open>upload/server.go\<close>), the authentication service (\<open>auth/auth.go\<close>), the exporter and the
  unused API server (\<open>upload/api.go\<close>); and the monitor's router and websocket clients (\<open>monitor/server.go\<close>).

  A request has its path twice: as sent, with escapes, which \<open>ServeMux\<close> looks at, and decoded, which
  handlers see. The router of the monitor is a library: which templates match a path is a parameter. The websocket
  goroutines and the server's loop are the step relation \<open>ws_step\<close>, with the two channels of capacity one between them.

  Everything that reaches the upload handler has an absolute path, and one sent without escapes is clean; escaped dots are not
  looked at. The confinement of uploads is proved for the whole front, with the run in which escaped dots break it.
\<close>

section \<open>The multiplexer\<close>

definition cleanPath :: "string \<Rightarrow> string" where
  "cleanPath p =
     (if p = [] then [slash]
      else
        let p1 = (if hd p = slash then p else slash # p);
            np = clean p1
        in if last p1 = slash \<and> np \<noteq> [slash] then np @ [slash] else np)"

datatype 'h routed = Redirected string | Routed 'h | NotFound

text \<open>Paths are matched element by element, each decoded on its own. A pattern that ends in a slash stands for all
  paths below it, another one for itself; the longest one wins.\<close>

definition decoded_elems :: "string \<Rightarrow> string list" where
  "decoded_elems path = map (\<lambda>e. case unescapePath e of None \<Rightarrow> e | Some d \<Rightarrow> d) (split slash path)"

definition pattern_matches :: "string \<Rightarrow> string \<Rightarrow> bool" where
  "pattern_matches pat path \<longleftrightarrow>
     (if hasSuffix pat [slash]
      then length (split slash pat) \<le> length (split slash path)
        \<and> take (length (split slash pat) - 1) (decoded_elems path) = butlast (split slash pat)
      else decoded_elems path = split slash pat)"

text \<open>A match is exact if the path is not merely below the pattern.\<close>

definition exactMatch :: "(string \<times> 'h) option \<Rightarrow> string \<Rightarrow> bool" where
  "exactMatch n path \<longleftrightarrow>
     (case n of
        None \<Rightarrow> False
      | Some (pat, _) \<Rightarrow> hasSuffix pat [slash] \<longrightarrow> hasSuffix path [slash] \<and> length (split slash path) = length (split slash pat))"

fun best_pattern :: "(string \<times> 'h) list \<Rightarrow> string \<Rightarrow> (string \<times> 'h) option" where
  "best_pattern [] path = None"
| "best_pattern ((pat, h) # pats) path =
     (let rest = best_pattern pats path
      in if pattern_matches pat path \<and> (case rest of None \<Rightarrow> True | Some (q, _) \<Rightarrow> length q < length pat) then Some (pat, h) else rest)"

definition matchOrRedirect :: "(string \<times> 'h) list \<Rightarrow> string \<Rightarrow> string + (string \<times> 'h) option" where
  "matchOrRedirect pats path =
     (let n = best_pattern pats path
      in if \<not> exactMatch n path \<and> \<not> hasSuffix path [slash] \<and> path \<noteq> [] \<and> exactMatch (best_pattern pats (path @ [slash])) (path @ [slash])
         then Inl (path @ [slash]) else Inr n)"

definition serveMux :: "(string \<times> 'h) list \<Rightarrow> string \<Rightarrow> string \<Rightarrow> 'h routed" where
  "serveMux pats verb escaped =
     (let path = (if verb = ''CONNECT'' then escaped else cleanPath escaped)
      in case matchOrRedirect pats path of
           Inl u \<Rightarrow> Redirected u
         | Inr n \<Rightarrow>
             if path \<noteq> escaped then Redirected path
             else (case n of None \<Rightarrow> NotFound | Some (_, h) \<Rightarrow> Routed h))"

lemma cleanPath_isAbs: "isAbs (cleanPath p)"
proof (cases p)
  case (Cons c q)
  have "isAbs (clean (if c = slash then p else slash # p))" by (rule clean_isAbs) (simp add: isAbs_iff Cons)
  then show ?thesis by (auto simp: cleanPath_def Cons isAbs_iff Let_def)
qed (simp add: cleanPath_def isAbs_iff)

lemma decoded_Nil: "(case unescapePath e of None \<Rightarrow> e | Some d \<Rightarrow> d) = [] \<longleftrightarrow> e = []"
proof (cases e)
  case (Cons c cs)
  have no: "map_option (Cons x) m \<noteq> Some []" for x :: char and m by (cases m) simp_all
  have "unescapePath (c # cs) \<noteq> Some []"
    by (subst unescapePath.simps) (simp add: no split: list.split option.split prod.split)
  then show ?thesis by (auto simp: Cons split: option.split)
qed simp

lemma split_first: "isAbs path \<longleftrightarrow> 2 \<le> length (split slash path) \<and> hd (split slash path) = []"
  by (cases path) (simp_all add: isAbs_iff Suc_le_eq split: list.split)

lemma pattern_matches_root [simp]: "pattern_matches [slash] path \<longleftrightarrow> isAbs path"
proof -
  have "take 1 (decoded_elems path) = [[]] \<longleftrightarrow> hd (split slash path) = []"
    by (cases "split slash path") (simp_all add: decoded_elems_def decoded_Nil)
  moreover have "split slash [slash] = [[], []]" "hasSuffix [slash] [slash]" by (simp_all add: hasSuffix_def)
  ultimately show ?thesis unfolding pattern_matches_def split_first by (simp add: numeral_2_eq_2)
qed

text \<open>A path that passes unchanged has no empty element, no dots, and at most one slash at its end.\<close>

lemma cleanPath_plain:
  assumes "cleanPath p = p"
  shows "\<exists>es. list_all plain_elem es \<and> (p = abs_path es \<or> es \<noteq> [] \<and> p = abs_path es @ [slash])"
proof -
  have "isAbs p" using cleanPath_isAbs [of p] assms by simp
  then obtain es where es: "list_all plain_elem es" "clean p = abs_path es" using clean_abs_elems by blast
  obtain q where q: "p = slash # q" using \<open>isAbs p\<close> by (auto simp: isAbs_iff)
  show ?thesis
  proof (cases "last p = slash \<and> clean p \<noteq> [slash]")
    case True
    then have "p = abs_path es @ [slash]" using assms q es(2) by (simp add: cleanPath_def Let_def)
    moreover have "es \<noteq> []" using True es(2) by (auto simp: abs_path_def)
    ultimately show ?thesis using es(1) by blast
  next
    case False
    then have "p = abs_path es" using assms q es(2) by (auto simp: cleanPath_def Let_def)
    with es(1) show ?thesis by blast
  qed
qed

section \<open>The upload server\<close>

datatype upload_route = UploadRoute | HealthRoute

definition server_mux :: "(string \<times> upload_route) list" where
  "server_mux = [(''/'', UploadRoute), (''/health'', HealthRoute)]"

definition HandleHealth :: "nat \<times> string" where
  "HandleHealth = (200, ''ok'')"

text \<open>A request as the server gets it: \<open>escaped\<close> is the path as sent, \<open>rq_path req\<close> the decoded one. The
  result has the status and the new state.\<close>

definition Server_ServeHTTP :: "nat \<Rightarrow> m3u8_api \<Rightarrow> (string \<Rightarrow> faults) \<Rightarrow> time \<Rightarrow>
    (string \<Rightarrow> string \<Rightarrow> string \<Rightarrow> (string \<times> bool) go) \<Rightarrow> string \<Rightarrow> string \<Rightarrow> upload_request \<Rightarrow> 's reader \<Rightarrow> 's \<Rightarrow>
    Handler \<times> io \<Rightarrow> (nat \<times> Handler \<times> io) go option" where
  "Server_ServeHTTP fuel api flt now auth outputPath escaped req R body st =
     (case serveMux server_mux (rq_method req) escaped of
        Redirected u \<Rightarrow> Some (Inr (301, st))
      | NotFound \<Rightarrow> Some (Inr (404, st))
      | Routed HealthRoute \<Rightarrow> Some (Inr (fst HandleHealth, st))
      | Routed UploadRoute \<Rightarrow> HandleUpload fuel api flt now auth outputPath req R body st)"

text \<open>\<open>NewServer\<close>: the handler has been made when the listener fails, and nobody stops its goroutines then.\<close>

definition NewServer :: "string option \<Rightarrow> ServerConfig \<Rightarrow> string + server" where
  "NewServer listenErr config =
     (case listenErr of
        Some err \<Rightarrow> Inl (''listen: '' @ err)
      | None \<Rightarrow> Inr (server_start config))"

text \<open>The path of the health check, however it is escaped.\<close>

definition health_path :: "string \<Rightarrow> bool" where
  "health_path path \<longleftrightarrow> decoded_elems path = [[], ''health'']"

lemma best_server_mux:
  "isAbs path \<Longrightarrow> best_pattern server_mux path = Some (if health_path path then (''/health'', HealthRoute) else (''/'', UploadRoute))"
proof -
  have "pattern_matches ''/health'' path \<longleftrightarrow> health_path path" by (simp add: pattern_matches_def hasSuffix_def health_path_def)
  moreover have "pattern_matches ''/'' path \<longleftrightarrow> isAbs path" using pattern_matches_root [of path] by simp
  ultimately show "isAbs path \<Longrightarrow> ?thesis" by (auto simp: server_mux_def Let_def)
qed

text \<open>The root pattern stands for every path below it and causes no redirect.\<close>

lemma root_not_exact:
  assumes "isAbs path" "path \<noteq> [slash]"
  shows "\<not> exactMatch (Some ([slash], h)) (path @ [slash])"
proof -
  obtain q where "path = slash # q" using assms(1) by (auto simp: isAbs_iff)
  then have "split slash (path @ [slash]) = [] # split slash q @ [[]]" using split_append_general [of slash path "[]"] by (simp add: split_abs)
  then show ?thesis by (simp add: exactMatch_def hasSuffix_def)
qed

lemma match_server_mux:
  assumes "isAbs path"
  shows "matchOrRedirect server_mux path = Inr (best_pattern server_mux path)"
proof (cases "hasSuffix path [slash] \<or> health_path path")
  case True
  have "health_path path \<Longrightarrow> exactMatch (best_pattern server_mux path) path"
    by (simp add: best_server_mux [OF assms] exactMatch_def hasSuffix_def)
  with True show ?thesis by (auto simp: matchOrRedirect_def Let_def)
next
  case False
  have "isAbs (path @ [slash])" using assms by (auto simp: isAbs_iff)
  moreover have "last (decoded_elems (path @ [slash])) = []"
    using split_append_general [of slash path "[]"] by (simp add: decoded_elems_def)
  then have "\<not> health_path (path @ [slash])" by (auto simp: health_path_def)
  ultimately have "best_pattern server_mux (path @ [slash]) = Some ([slash], UploadRoute)" by (simp add: best_server_mux)
  moreover have "path \<noteq> [slash]" using False by (auto simp: hasSuffix_def)
  ultimately show ?thesis using root_not_exact [OF assms, of UploadRoute] by (simp add: matchOrRedirect_def Let_def)
qed

text \<open>Every request is redirected to its clean path, or answered as a health check, or handled as an upload.\<close>

lemma server_mux_routes:
  assumes "verb \<noteq> ''CONNECT''"
  shows "serveMux server_mux verb escaped =
    (if cleanPath escaped \<noteq> escaped then Redirected (cleanPath escaped)
     else if health_path escaped then Routed HealthRoute else Routed UploadRoute)"
proof -
  have m: "matchOrRedirect server_mux (cleanPath escaped) = Inr (best_pattern server_mux (cleanPath escaped))"
    by (rule match_server_mux [OF cleanPath_isAbs])
  show ?thesis using assms unfolding serveMux_def by (auto simp: m best_server_mux [OF cleanPath_isAbs] Let_def)
qed

section \<open>The authentication service and the exporter\<close>

definition auth_mux :: "(string \<times> unit) list" where
  "auth_mux = [(''/'', ())]"

text \<open>\<open>Auth.run\<close> serves every path with the same handler.\<close>

definition auth_ServeHTTP :: "string \<Rightarrow> string \<Rightarrow> auth_watcher \<Rightarrow> string + form \<Rightarrow> nat" where
  "auth_ServeHTTP verb escaped w postForm =
     (case serveMux auth_mux verb escaped of
        Redirected u \<Rightarrow> 301
      | NotFound \<Rightarrow> 404
      | Routed _ \<Rightarrow> authHandler w postForm)"

datatype exporter_route = MetricsRoute | ProgressRoute

definition exporter_mux :: "(string \<times> exporter_route) list" where
  "exporter_mux = [(''/metrics'', MetricsRoute), (''/progress/'', ProgressRoute)]"

definition exporter_ServeHTTP :: "(string \<Rightarrow> real option) \<Rightarrow> string \<Rightarrow> string \<Rightarrow> string \<Rightarrow> string \<times> bool \<Rightarrow> Metrics \<Rightarrow> (nat \<times> Metrics) go" where
  "exporter_ServeHTTP parseFloat verb escaped path body m =
     (case serveMux exporter_mux verb escaped of
        Redirected u \<Rightarrow> Inr (301, m)
      | NotFound \<Rightarrow> Inr (404, m)
      | Routed MetricsRoute \<Rightarrow> Inr (200, m)
      | Routed ProgressRoute \<Rightarrow> go_bind (ServeProgress parseFloat verb path body m) (\<lambda>(code, m', m''). Inr (code, m'')))"

lemma auth_serves_all:
  assumes "verb \<noteq> ''CONNECT''" "cleanPath escaped = escaped"
  shows "auth_ServeHTTP verb escaped w postForm = authHandler w postForm"
proof -
  have a: "isAbs escaped" using cleanPath_isAbs [of escaped] assms(2) by simp
  have b: "best_pattern auth_mux p = Some ([slash], ())" if "isAbs p" for p
    using that pattern_matches_root [of p] by (simp add: auth_mux_def)
  have "isAbs (escaped @ [slash])" using a by (auto simp: isAbs_iff)
  moreover have "hasSuffix [slash] [slash]" by (simp add: hasSuffix_def)
  ultimately have "matchOrRedirect auth_mux escaped = Inr (Some ([slash], ()))"
    using root_not_exact [OF a, of "()"] a by (auto simp: matchOrRedirect_def Let_def b)
  then show ?thesis using assms by (simp add: auth_ServeHTTP_def serveMux_def)
qed

text \<open>The exporter's handler sees only paths below its prefix; without the slash the request is redirected.\<close>

lemma exporter_routes:
  "serveMux exporter_mux ''POST'' ''/progress/s1'' = Routed ProgressRoute"
  "serveMux exporter_mux ''POST'' ''/progress'' = Redirected ''/progress/''"
  "serveMux exporter_mux ''POST'' ''/progress/../metrics'' = Redirected ''/metrics''"
  "serveMux exporter_mux ''GET'' ''/metrics/x'' = NotFound"
  by code_simp+

section \<open>The API server\<close>

text \<open>A listener that cannot be opened is reported and used nevertheless; the goroutine that serves it calls a
  function of a nil interface.\<close>

definition NewAPIServer :: "string option \<Rightarrow> unit go" where
  "NewAPIServer listenErr = (case listenErr of Some _ \<Rightarrow> Inl NilPointer | None \<Rightarrow> Inr ())"

definition api_mux :: "(string \<times> unit) list" where
  "api_mux = [(''/v1/streams'', ())]"

text \<open>The handler writes nothing: an empty reply.\<close>

definition handleStreams :: "nat \<times> string" where
  "handleStreams = (200, [])"

definition api_ServeHTTP :: "string \<Rightarrow> string \<Rightarrow> nat" where
  "api_ServeHTTP verb escaped =
     (case serveMux api_mux verb escaped of
        Redirected u \<Rightarrow> 301
      | NotFound \<Rightarrow> 404
      | Routed _ \<Rightarrow> fst handleStreams)"

section \<open>The routes of the monitor\<close>

datatype mon_route = IndexRoute | WebsocketRoute | AllSettingsRoute | GetSettingsRoute | SetSettingsRoute | StaticRoute

text \<open>A template, whether it stands for all paths it begins, the verbs it is restricted to, and the handler.\<close>

definition mon_router :: "(string \<times> bool \<times> string list option \<times> mon_route) list" where
  "mon_router =
     [(''/'', False, Some [''GET''], IndexRoute),
      (''/ws'', False, None, WebsocketRoute),
      (''/stream/settings'', False, Some [''GET''], AllSettingsRoute),
      (''/stream/{slug}/settings'', False, Some [''GET''], GetSettingsRoute),
      (''/stream/{slug}/settings'', False, Some [''POST''], SetSettingsRoute),
      (''/'', True, None, StaticRoute)]"

text \<open>The router takes the first route that fits. \<open>matches\<close> is the library's matching of templates.\<close>

fun first_route :: "(string \<Rightarrow> bool \<Rightarrow> string \<Rightarrow> bool) \<Rightarrow> string \<Rightarrow> string \<Rightarrow> (string \<times> bool \<times> string list option \<times> 'h) list \<Rightarrow> 'h option" where
  "first_route matches verb path [] = None"
| "first_route matches verb path ((tmpl, pre, verbs, h) # routes) =
     (if matches tmpl pre path \<and> (case verbs of None \<Rightarrow> True | Some vs \<Rightarrow> verb \<in> set vs) then Some h else first_route matches verb path routes)"

definition mon_dispatch :: "(string \<Rightarrow> bool \<Rightarrow> string \<Rightarrow> bool) \<Rightarrow> string \<Rightarrow> string \<Rightarrow> mon_route option" where
  "mon_dispatch matches verb path = first_route matches verb path mon_router"

text \<open>What the library documents of the templates used: one without variables and no prefix matches itself, a
  prefix matches what it begins, and a variable stands for one element.\<close>

definition template_law :: "(string \<Rightarrow> bool \<Rightarrow> string \<Rightarrow> bool) \<Rightarrow> bool" where
  "template_law matches \<longleftrightarrow>
     (\<forall>path. matches ''/'' False path \<longleftrightarrow> path = ''/'') \<and> (\<forall>path. matches ''/ws'' False path \<longleftrightarrow> path = ''/ws'')
     \<and> (\<forall>path. matches ''/stream/settings'' False path \<longleftrightarrow> path = ''/stream/settings'')
     \<and> (\<forall>path. matches ''/'' True path \<longleftrightarrow> hasPrefix path ''/'')
     \<and> (\<forall>path. matches ''/stream/{slug}/settings'' False path \<longleftrightarrow>
          (\<exists>slug. slug \<noteq> [] \<and> slash \<notin> set slug \<and> path = ''/stream/'' @ slug @ ''/settings''))"

lemma mon_dispatch_cases:
  "mon_dispatch matches verb path =
     (if matches ''/'' False path \<and> verb = ''GET'' then Some IndexRoute
      else if matches ''/ws'' False path then Some WebsocketRoute
      else if matches ''/stream/settings'' False path \<and> verb = ''GET'' then Some AllSettingsRoute
      else if matches ''/stream/{slug}/settings'' False path \<and> verb = ''GET'' then Some GetSettingsRoute
      else if matches ''/stream/{slug}/settings'' False path \<and> verb = ''POST'' then Some SetSettingsRoute
      else if matches ''/'' True path then Some StaticRoute else None)"
  unfolding mon_dispatch_def mon_router_def first_route.simps option.case list.set by (simp only: singleton_iff simp_thms)

text \<open>Settings are changed by posts to the path of a stream only, and every request that begins with a slash is answered by some handler.\<close>

lemma mon_dispatch_set:
  assumes "template_law matches"
  shows "mon_dispatch matches verb path = Some SetSettingsRoute \<longleftrightarrow>
    verb = ''POST'' \<and> (\<exists>slug. slug \<noteq> [] \<and> slash \<notin> set slug \<and> path = ''/stream/'' @ slug @ ''/settings'')"
proof -
  have slug: "matches ''/stream/{slug}/settings'' False path \<longleftrightarrow> (\<exists>slug. slug \<noteq> [] \<and> slash \<notin> set slug \<and> path = ''/stream/'' @ slug @ ''/settings'')"
    using assms unfolding template_law_def by (elim conjE) (erule spec)
  have ws: "matches ''/ws'' False path \<longleftrightarrow> path = ''/ws''" using assms unfolding template_law_def by (elim conjE) (erule spec)
  have other: "''/stream/'' @ slug @ ''/settings'' \<noteq> ''/ws''" for slug by simp
  have no_ws: "\<not> matches ''/ws'' False path" if "matches ''/stream/{slug}/settings'' False path"
    using that unfolding slug ws by (elim exE conjE) (simp only: other not_False_eq_True)
  have no_get: "verb \<noteq> ''GET''" if "verb = ''POST''" using that by simp
  have "((if A \<and> G then Some IndexRoute else if W then Some WebsocketRoute else if C \<and> G then Some AllSettingsRoute
        else if S \<and> G then Some GetSettingsRoute else if S \<and> P then Some SetSettingsRoute else if E then Some StaticRoute else None) = Some SetSettingsRoute)
      \<longleftrightarrow> P \<and> S" if "S \<Longrightarrow> \<not> W" "P \<Longrightarrow> \<not> G" for A C E G P S W
    using that by auto
  from this [OF no_ws no_get] show ?thesis unfolding mon_dispatch_cases slug [symmetric] .
qed

lemma mon_dispatch_total:
  assumes "template_law matches" "hasPrefix path ''/''"
  shows "mon_dispatch matches verb path \<noteq> None"
proof -
  have "matches ''/'' True path \<longleftrightarrow> hasPrefix path ''/''" using assms(1) unfolding template_law_def by (elim conjE) (erule spec)
  with assms(2) have "matches ''/'' True path" by (simp only:)
  then show ?thesis unfolding mon_dispatch_cases by (simp only: if_True option.distinct simp_thms split: if_split)
qed

section \<open>The websocket clients of the monitor\<close>

text \<open>How far \<open>handleWebsocket\<close> has come with a client. A send to a channel of capacity one waits while the channel is full.\<close>

datatype ws_phase = Absent | Upgraded | Reading | Closing | Gone

record ws_world =
  ww_mon :: mon_world
  ww_phase :: "nat \<Rightarrow> ws_phase"
  ww_addClient :: "nat list"
  ww_removeClient :: "nat list"

definition ws_start :: ws_world where
  "ws_start = \<lparr>ww_mon = mon_start, ww_phase = (\<lambda>_. Absent), ww_addClient = [], ww_removeClient = []\<rparr>"

text \<open>Registering, reading until an error comes, and the deferred sign-off; the branches of \<open>server.run\<close> for the two
  channels; and everything else the monitor does, which leaves its clients alone.\<close>

inductive ws_step :: "codec \<Rightarrow> ws_world \<Rightarrow> ws_world \<Rightarrow> bool" for js where
  upgrade: "ww_phase w ws = Absent \<Longrightarrow> ws_step js w (w\<lparr>ww_phase := (ww_phase w)(ws := Upgraded)\<rparr>)"
| send_add: "ww_phase w ws = Upgraded \<Longrightarrow> ww_addClient w = [] \<Longrightarrow>
    ws_step js w (w\<lparr>ww_phase := (ww_phase w)(ws := Reading), ww_addClient := [ws]\<rparr>)"
| read_error: "ww_phase w ws = Reading \<Longrightarrow> ws_step js w (w\<lparr>ww_phase := (ww_phase w)(ws := Closing)\<rparr>)"
| send_remove: "ww_phase w ws = Closing \<Longrightarrow> ww_removeClient w = [] \<Longrightarrow>
    ws_step js w (w\<lparr>ww_phase := (ww_phase w)(ws := Gone), ww_removeClient := [ws]\<rparr>)"
| take_add: "ww_addClient w = [ws] \<Longrightarrow>
    ws_step js w (w\<lparr>ww_addClient := [], ww_mon := (ww_mon w)\<lparr>mo_server := server_add fails ws (mo_server (ww_mon w))\<rparr>\<rparr>)"
| take_remove: "ww_removeClient w = [ws] \<Longrightarrow>
    ws_step js w (w\<lparr>ww_removeClient := [], ww_mon := (ww_mon w)\<lparr>mo_server := server_remove ws (mo_server (ww_mon w))\<rparr>\<rparr>)"
| other: "mon_step js (ww_mon w) m \<Longrightarrow> ms_clients (mo_server m) = ms_clients (mo_server (ww_mon w)) \<Longrightarrow> ws_step js w (w\<lparr>ww_mon := m\<rparr>)"

inductive ws_reach :: "codec \<Rightarrow> ws_world \<Rightarrow> bool" for js where
  start: "ws_reach js ws_start"
| step: "ws_reach js w \<Longrightarrow> ws_step js w w' \<Longrightarrow> ws_reach js w'"

abbreviation ww_clients :: "ws_world \<Rightarrow> nat set" where
  "ww_clients w \<equiv> set (ms_clients (mo_server (ww_mon w)))"

definition ws_inv :: "ws_world \<Rightarrow> bool" where
  "ws_inv w \<longleftrightarrow>
     (\<forall>ws. (ww_phase w ws \<in> {Absent, Upgraded} \<longrightarrow> ws \<notin> ww_clients w \<union> set (ww_addClient w))
       \<and> (ww_phase w ws \<in> {Reading, Closing} \<longrightarrow> ws \<in> ww_clients w \<union> set (ww_addClient w))
       \<and> (ws \<in> set (ww_removeClient w) \<longrightarrow> ww_phase w ws = Gone)
       \<and> (ws \<in> set (ww_addClient w) \<longrightarrow> ws \<notin> ww_clients w))"

lemma clients_server_add [simp]: "set (ms_clients (server_add fails ws s)) = insert ws (set (ms_clients s))"
  by (simp add: server_add_def)

lemma clients_server_remove [simp]: "set (ms_clients (server_remove ws s)) = set (ms_clients s) - {ws}"
  by (simp add: server_remove_def)

text \<open>The goroutines of the clients use the server as \<open>mon_step\<close> lets them, and one that reads is registered, or is about to be.\<close>

lemma ws_step_ok:
  assumes "ws_step js w w'" "ws_inv w"
  shows "ws_inv w' \<and> (ww_mon w' = ww_mon w \<or> mon_step js (ww_mon w) (ww_mon w'))"
  using assms(1)
proof cases
  case (take_add ws fails)
  then have "ws \<notin> ww_clients w" using assms(2) by (simp add: ws_inv_def)
  from mon_step.add [OF this, of js fails] have "mon_step js (ww_mon w) (ww_mon w')" using take_add by simp
  moreover have "ws_inv w'" using assms(2) take_add unfolding ws_inv_def by auto
  ultimately show ?thesis by blast
next
  case (take_remove ws)
  have "mon_step js (ww_mon w) (ww_mon w')" using mon_step.remove [of js "ww_mon w" ws] take_remove by simp
  moreover have "ws_inv w'" using assms(2) take_remove unfolding ws_inv_def by auto
  ultimately show ?thesis by blast
qed (use assms(2) in \<open>auto simp: ws_inv_def\<close>)

lemma ws_reach_ok: "ws_reach js w \<Longrightarrow> ws_inv w \<and> mon_reach js (ww_mon w)"
proof (induction rule: ws_reach.induct)
  case start
  have "ms_clients (mo_server mon_start) = []" by (simp add: mon_start_def newServer_def)
  then show ?case by (simp add: ws_inv_def ws_start_def mon_reach.start)
next
  case (step w w')
  then show ?case using ws_step_ok mon_reach.step by metis
qed

text \<open>A client whose goroutine reads, once its registration has been taken, is among the clients that get messages.\<close>

lemma reading_client_registered:
  "ws_reach js w \<Longrightarrow> ww_phase w ws = Reading \<Longrightarrow> ws \<notin> set (ww_addClient w) \<Longrightarrow> ws \<in> ww_clients w \<and> mon_reach js (ww_mon w)"
  using ws_reach_ok [of js w] by (auto simp: ws_inv_def)

text \<open>The two channels are taken in any order: the sign-off of a client that leaves at once may come first. Then the
  client is registered when it has gone, and remains so: every later message is written to its closed connection.\<close>

lemma gone_client_stays:
  assumes "ws_step js w w'" "ww_phase w ws = Gone" "ws \<in> ww_clients w" "ws \<notin> set (ww_removeClient w)"
  shows "ww_phase w' ws = Gone \<and> ws \<in> ww_clients w' \<and> ws \<notin> set (ww_removeClient w')"
  using assms by cases auto

lemma gone_client_reachable:
  "\<exists>w. ws_reach js w \<and> ww_phase w 1 = Gone \<and> 1 \<in> ww_clients w \<and> ww_removeClient w = [] \<and> ww_addClient w = []"
proof -
  define w1 where "w1 = ws_start\<lparr>ww_phase := (\<lambda>_. Absent)(1 := Upgraded)\<rparr>"
  define w2 where "w2 = w1\<lparr>ww_phase := (ww_phase w1)(1 := Reading), ww_addClient := [1]\<rparr>"
  define w3 where "w3 = w2\<lparr>ww_phase := (ww_phase w2)(1 := Closing)\<rparr>"
  define w4 where "w4 = w3\<lparr>ww_phase := (ww_phase w3)(1 := Gone), ww_removeClient := [1]\<rparr>"
  define w5 where "w5 = w4\<lparr>ww_removeClient := [], ww_mon := (ww_mon w4)\<lparr>mo_server := server_remove 1 (mo_server (ww_mon w4))\<rparr>\<rparr>"
  define w6 where "w6 = w5\<lparr>ww_addClient := [], ww_mon := (ww_mon w5)\<lparr>mo_server := server_add (\<lambda>_. True) 1 (mo_server (ww_mon w5))\<rparr>\<rparr>"
  note defs = w1_def w2_def w3_def w4_def w5_def w6_def ws_start_def
  have "ws_step js ws_start w1" using ws_step.upgrade [of ws_start 1 js] by (simp add: defs)
  moreover have "ws_step js w1 w2" unfolding w2_def by (rule ws_step.send_add) (simp_all add: defs)
  moreover have "ws_step js w2 w3" unfolding w3_def by (rule ws_step.read_error) (simp add: defs)
  moreover have "ws_step js w3 w4" unfolding w4_def by (rule ws_step.send_remove) (simp_all add: defs)
  moreover have "ws_step js w4 w5" unfolding w5_def by (rule ws_step.take_remove) (simp add: defs)
  moreover have "ws_step js w5 w6" unfolding w6_def by (rule ws_step.take_add) (simp add: defs)
  ultimately have "ws_reach js w6" by (meson ws_reach.intros)
  moreover have "ww_phase w6 1 = Gone \<and> 1 \<in> ww_clients w6 \<and> ww_removeClient w6 = [] \<and> ww_addClient w6 = []" by (simp add: defs)
  ultimately show ?thesis by blast
qed

text \<open>C24. A client of the monitor sees the store: in every run of the watcher, the server's loop and the goroutines of any
  number of clients, when the watcher has handled the updates of its watch and no message is under way, what a client whose goroutine reads and whose
  registration has been taken has got, whenever it connected, shows exactly the streams and exactly the claims of the last snapshot.\<close>

theorem monitor_shows_store:
  assumes "ws_reach js w" "ww_phase w ws = Reading" "ws \<notin> set (ww_addClient w)"
    and "mo_queue (ww_mon w) = []" "no_failed_write ws (mo_server (ww_mon w))"
    and "mo_seen (ww_mon w) = fst (watch_all (snaps @ [(keys, pairs)]) Map.empty)" "watch_ok (stream_pair js) (snaps @ [(keys, pairs)]) Map.empty"
  shows "(shown_streams (client_view ws (mo_server (ww_mon w))) slug = Some s \<longleftrightarrow> slug \<noteq> '''' \<and>
      (\<exists>kv \<in> set pairs. split slash (kv_Key kv) = [''stream'', slug] \<and> unmarshal_stream js (kv_Value kv) = Inr s))
    \<and> (shown_claims (client_view ws (mo_server (ww_mon w))) slug = Some owner \<longleftrightarrow> slug \<noteq> '''' \<and>
      (\<exists>kv \<in> set pairs. split slash (kv_Key kv) = [''stream'', slug, ''transcoder''] \<and> kv_Value kv = owner))"
proof -
  have "ws \<in> ww_clients w" "mon_reach js (ww_mon w)" using reading_client_registered [OF assms(1-3)] by simp_all
  from registered_client_shows [OF this(2) assms(4) this(1) assms(5-7)] show ?thesis .
qed

theorem monitor_shows_store_witness:
  "\<exists>w s. ws_reach demo_js w \<and> ww_phase w 1 = Reading \<and> st_Slug s = ''s1''
     \<and> shown_streams (client_view 1 (mo_server (ww_mon w))) ''s1'' = Some s"
proof -
  let ?m1 = "mon_start\<lparr>mo_server := server_add (\<lambda>_. False) 1 newServer\<rparr>"
  obtain m2 m3 s where run: "mon_step demo_js ?m1 m2" "mon_step demo_js m2 m3" "ms_clients (mo_server m2) = [1]" "ms_clients (mo_server m3) = [1]"
      "mo_queue m3 = []" "no_failed_write 1 (mo_server m3)" "mo_seen m3 = fst (watch_all ([] @ [([], [demo_stream_pair])]) Map.empty)"
      "watch_ok (stream_pair demo_js) ([] @ [([], [demo_stream_pair])]) Map.empty" "unmarshal_stream demo_js ''s1'' = Inr s" "st_Slug s = ''s1''"
    using demo_mon_run by (elim exE conjE) (rule that)
  define ph where "ph = (\<lambda>p. (\<lambda>_. Absent)(1 := p) :: nat \<Rightarrow> ws_phase)"
  define w1 where "w1 = ws_start\<lparr>ww_phase := ph Upgraded\<rparr>"
  define w2 where "w2 = ws_start\<lparr>ww_phase := ph Reading, ww_addClient := [1]\<rparr>"
  define w3 where "w3 = (\<lambda>m. ws_start\<lparr>ww_phase := ph Reading, ww_mon := m\<rparr>)"
  note defs = w1_def w2_def w3_def ph_def ws_start_def
  have "ws_step demo_js ws_start w1" using ws_step.upgrade [of ws_start 1 demo_js] by (simp add: defs)
  moreover have "ws_step demo_js w1 w2" using ws_step.send_add [of w1 1 demo_js] by (simp add: defs)
  moreover have "ws_step demo_js w2 (w3 ?m1)"
    using ws_step.take_add [of w2 1 demo_js "\<lambda>_. False"] by (simp add: defs mon_start_def)
  moreover have "ms_clients (mo_server ?m1) = [1]" by (simp add: server_add_def newServer_def)
  then have "ws_step demo_js (w3 ?m1) (w3 m2)" using ws_step.other [of demo_js "w3 ?m1" m2] run(1,3) by (simp add: defs)
  moreover have "ws_step demo_js (w3 m2) (w3 m3)" using ws_step.other [of demo_js "w3 m2" m3] run(2-4) by (simp add: defs)
  ultimately have reach: "ws_reach demo_js (w3 m3)" by (meson ws_reach.intros)
  have st: "ww_phase (w3 m3) 1 = Reading" "1 \<notin> set (ww_addClient (w3 m3))" "ww_mon (w3 m3) = m3" by (simp_all add: defs)
  have kv: "split slash (kv_Key demo_stream_pair) = [''stream'', ''s1'']" "kv_Value demo_stream_pair = ''s1''" by (simp_all add: demo_stream_pair_def)
  have "shown_streams (client_view 1 (mo_server (ww_mon (w3 m3)))) ''s1'' = Some s" unfolding st(3)
    using monitor_shows_store [OF reach st(1,2), unfolded st(3), OF run(5-8), of "''s1''" s "[]"] kv run(9) by simp
  with reach st(1) run(10) show ?thesis by blast
qed

section \<open>Confinement of uploads\<close>

text \<open>Only absolute paths are handed to the upload handler, also for CONNECT, whose paths are not cleaned.\<close>

lemma routed_isAbs:
  assumes "serveMux server_mux verb escaped = Routed UploadRoute"
  shows "isAbs escaped"
proof (cases "verb = ''CONNECT''")
  case True
  have "pattern_matches ''/'' escaped \<longleftrightarrow> isAbs escaped" using pattern_matches_root [of escaped] by simp
  then have "best_pattern server_mux escaped = Some (pat, UploadRoute) \<Longrightarrow> isAbs escaped" for pat
    by (auto simp: server_mux_def Let_def split: if_splits)
  moreover have "matchOrRedirect server_mux escaped = Inr n \<Longrightarrow> n = best_pattern server_mux escaped" for n
    by (simp add: matchOrRedirect_def Let_def split: if_splits)
  moreover have "\<exists>pat. matchOrRedirect server_mux escaped = Inr (Some (pat, UploadRoute))"
    using assms unfolding serveMux_def if_P [OF True] Let_def by (simp split: sum.splits option.splits prod.splits)
  ultimately show ?thesis by metis
next
  case False
  then have "cleanPath escaped = escaped" using assms server_mux_routes [OF False, of escaped] by (auto split: if_splits)
  then show ?thesis using cleanPath_isAbs [of escaped] by simp
qed

lemma unescape_isAbs: "unescapePath escaped = Some path \<Longrightarrow> isAbs escaped \<Longrightarrow> isAbs path"
  by (auto simp: isAbs_iff)

lemma unescape_plain: "CHR ''%'' \<notin> set s \<Longrightarrow> unescapePath s = Some s"
proof (induction s)
  case (Cons c cs)
  then have "c \<noteq> CHR ''%''" "unescapePath cs = Some cs" by auto
  then show ?case by simp
qed simp

text \<open>A path without escapes that the multiplexer lets through never leads above the root.\<close>

lemma unescaped_stays_below:
  assumes "serveMux server_mux verb escaped = Routed UploadRoute" "verb \<noteq> ''CONNECT''" "CHR ''%'' \<notin> set escaped"
    and "unescapePath escaped = Some path"
  shows "stays_below 0 (split slash path)"
proof -
  have "cleanPath escaped = escaped" using assms(1) server_mux_routes [OF assms(2), of escaped] by (auto split: if_splits)
  then obtain es where es: "list_all plain_elem es" "escaped = abs_path es \<or> escaped = abs_path es @ [slash]" using cleanPath_plain by blast
  have "path = escaped" using unescape_plain [OF assms(3)] assms(4) by simp
  then obtain fs where fs: "split slash path = [] # es @ fs" "fs \<in> {[], [[]], [[], []]}"
  proof (cases "escaped = abs_path es")
    case True
    then show ?thesis using that [of "if es = [] then [[]] else []"] es(1) \<open>path = escaped\<close> by (simp add: split_abs_path)
  next
    case False
    then show ?thesis using that [of "if es = [] then [[], []] else [[]]"] es \<open>path = escaped\<close> split_append_general [of slash "abs_path es" "[]"]
      by (simp add: split_abs_path)
  qed
  have "stays_below 0 ([] # es @ fs) = stays_below (length es) fs" using plain_stays_below [OF es(1), of 0 fs] by simp
  moreover have "stays_below n []" "stays_below n [[]]" "stays_below n [[], []]" for n by simp_all
  ultimately show ?thesis unfolding fs(1) using fs(2) by (elim insertE emptyE) (simp_all only: simp_thms)
qed

text \<open>C5. Confinement of uploads. Whatever arrives at the upload server, with any credentials, body and faults: if its decoded
  path never leads above the root, and it is no upload of a playlist, at most one file and its temporary file change, in
  an allowed directory below the output directory and there in the directory of the slug, or the file is the slug itself.
  A path sent without escapes never leads above the root, since the multiplexer redirects all others; with escapes
  the hypothesis is needed.\<close>

theorem upload_confined:
  assumes "list_all2 names_dir ds (AllowedDirs conf)" "list_all (list_all plain_elem) ds" "NewStaticAuth conf = Inr a" "list_all plain_elem out"
    and "unescapePath escaped = Some (rq_path req)"
    and "CHR ''%'' \<in> set escaped \<or> rq_method req = ''CONNECT'' \<longrightarrow> stays_below 0 (split slash (rq_path req))"
    and "clean (rq_path req) \<noteq> [slash]" "ext (clean (rq_path req)) \<noteq> ''.m3u8''"
    and "Server_ServeHTTP fuel api flt now (Auth matchSimple a) (abs_path out) escaped req R body (hn, w) = Some (Inr (code, hn', w'))"
  shows "io_fs w' = io_fs w
    \<or> (\<exists>d slug rest. d \<in> set ds \<and> list_all plain_elem (slug # rest) \<and> clean (rq_path req) = abs_path (d @ slug # rest) \<and>
         (\<forall>q. q \<noteq> abs_path (out @ d @ slug # rest) \<longrightarrow> q \<noteq> tmpPath (abs_path (out @ d @ slug # rest)) \<longrightarrow>
              io_fs w' q = io_fs w q))"
proof (cases "serveMux server_mux (rq_method req) escaped = Routed UploadRoute")
  case True
  have "isAbs (rq_path req)" by (rule unescape_isAbs [OF assms(5) routed_isAbs [OF True]])
  moreover have "stays_below 0 (split slash (rq_path req))" using assms(6) unescaped_stays_below [OF True _ _ assms(5)] by blast
  moreover have "HandleUpload fuel api flt now (Auth matchSimple a) (abs_path out) req R body (hn, w) = Some (Inr (code, hn', w'))"
    using assms(9) True by (simp add: Server_ServeHTTP_def)
  ultimately show ?thesis by (rule HandleUpload_confined [OF assms(1-3) _ _ assms(7,8,4)])
next
  case False
  then have "w' = w" using assms(9) by (auto simp: Server_ServeHTTP_def split: routed.splits upload_route.splits)
  then show ?thesis by simp
qed

section \<open>Examples\<close>

definition demo_static :: StaticAuth where
  "demo_static = \<lparr>sa_allowedDirs = [''/hls/'', ''/pub/''], sa_conf = [''u'' \<mapsto> \<lparr>ac_match = ''s2'', ac_user = ''u'', ac_pass = ''p''\<rparr>]\<rparr>"

lemma demo_static: "NewStaticAuth demo_auth = Inr demo_static"
  by (simp add: NewStaticAuth_def demo_auth_def demo_static_def)

text \<open>What the server does with an upload of \<open>a.ts\<close> that it lets through: \<open>path\<close> is the decoded path, the file ends up in the
  directory \<open>es\<close>.\<close>

lemma demo_front:
  assumes "serveMux server_mux ''PUT'' escaped = Routed UploadRoute" "Auth demo_match demo_static ''u'' ''p'' path = Inr (''s2'', True)"
    and "joinPath [out, path] = abs_path (es @ [''a.ts''])" "list_all plain_elem es"
  shows "\<exists>w2. Server_ServeHTTP 10 demo_lib (\<lambda>_. no_faults) (100 * second) (Auth demo_match demo_static) out escaped (demo_request path)
       (body_read False) [''ab'', ''c''] (demo_server, demo_store_io) = Some (Inr (200, fst (demo_admitted ''s2''), w2))
     \<and> io_fs w2 (abs_path (es @ [''a.ts''])) = Some ''abc''"
proof -
  have "authenticate (Auth demo_match demo_static) (demo_request path) = Inr (''s2'', True)"
    using assms(2) by (simp add: authenticate_def demo_request_def)
  then have adm: "admitted (Auth demo_match demo_static) out (100 * second) (demo_request path) ''s2'' (demo_server, demo_store_io)
      (fst (demo_admitted ''s2''), snd (demo_admitted ''s2''))"
    using demo_admitted [of "''s2''" out path] by (simp add: admitted_def)
  have req: "rq_method (demo_request path) = ''PUT''" "joinPath [out, rq_path (demo_request path)] = abs_path (es @ [''a.ts''])"
    using assms(3) by (simp_all add: demo_request_def)
  have body: "body_ok [''ab'', ''c'']" "length (concat [''ab'', ''c'']) < 10" by (simp_all add: body_ok_def)
  have lim: "within_limit False (hn_maxSegmentSize demo_server) (concat [''ab'', ''c''])"
    by (simp add: within_limit_def demo_server_def NewHandler_def)
  have "tmpPath p \<noteq> p" for p by simp
  then show ?thesis
    using segment_upload_at [OF adm req assms(4) demo_plain(4,5) body, of demo_lib False] lim assms(1) req(1)
    by (auto simp: Let_def Server_ServeHTTP_def)
qed

theorem upload_confined_witness:
  "\<exists>w'. Server_ServeHTTP 10 demo_lib (\<lambda>_. no_faults) (100 * second) (Auth demo_match demo_static) (abs_path [''out''])
       ''/hls/x/%2E%2E/s2/a.ts'' (demo_request ''/hls/x/../s2/a.ts'')
       (body_read False) [''ab'', ''c''] (demo_server, demo_store_io) = Some (Inr (200, fst (demo_admitted ''s2''), w'))
    \<and> (\<forall>q. q \<noteq> ''/out/hls/s2/a.ts'' \<longrightarrow> q \<noteq> tmpPath ''/out/hls/s2/a.ts'' \<longrightarrow> io_fs w' q = io_fs demo_store_io q)"
proof -
  have rt: "serveMux server_mux ''PUT'' ''/hls/x/%2E%2E/s2/a.ts'' = Routed UploadRoute" by code_simp
  have au: "Auth demo_match demo_static ''u'' ''p'' ''/hls/x/../s2/a.ts'' = Inr (''s2'', True)" by code_simp
  have jo: "joinPath [abs_path [''out''], ''/hls/x/../s2/a.ts''] = abs_path ([''out'', ''hls'', ''s2''] @ [''a.ts''])" by code_simp
  have pl: "list_all plain_elem [''out'', ''hls'', ''s2'']" "list_all (list_all plain_elem) [[''hls''], [''pub'']]" by code_simp+
  have nm: "list_all2 names_dir [[''hls''], [''pub'']] (AllowedDirs demo_auth)" by (simp add: demo_auth_def names_dir_def abs_path_def)
  obtain w2 where up: "Server_ServeHTTP 10 demo_lib (\<lambda>_. no_faults) (100 * second) (Auth demo_match demo_static) (abs_path [''out''])
       ''/hls/x/%2E%2E/s2/a.ts'' (demo_request ''/hls/x/../s2/a.ts'')
       (body_read False) [''ab'', ''c''] (demo_server, demo_store_io) = Some (Inr (200, fst (demo_admitted ''s2''), w2))"
    using demo_front [OF rt au jo pl(1)] by blast
  have rq: "rq_path (demo_request ''/hls/x/../s2/a.ts'') = ''/hls/x/../s2/a.ts''" by (simp add: demo_request_def)
  have cl: "clean ''/hls/x/../s2/a.ts'' = abs_path [''hls'', ''s2'', ''a.ts'']" by code_simp
  have side: "unescapePath ''/hls/x/%2E%2E/s2/a.ts'' = Some (rq_path (demo_request ''/hls/x/../s2/a.ts''))"
    "stays_below 0 (split slash (rq_path (demo_request ''/hls/x/../s2/a.ts'')))"
    "clean (rq_path (demo_request ''/hls/x/../s2/a.ts'')) \<noteq> [slash]" "ext (clean (rq_path (demo_request ''/hls/x/../s2/a.ts''))) \<noteq> ''.m3u8''"
    unfolding rq by code_simp+
  have conf: "io_fs w2 = io_fs demo_store_io
    \<or> (\<exists>d slug rest. d \<in> set [[''hls''], [''pub'']] \<and> list_all plain_elem (slug # rest)
        \<and> clean (rq_path (demo_request ''/hls/x/../s2/a.ts'')) = abs_path (d @ slug # rest) \<and>
         (\<forall>q. q \<noteq> abs_path ([''out''] @ d @ slug # rest) \<longrightarrow> q \<noteq> tmpPath (abs_path ([''out''] @ d @ slug # rest)) \<longrightarrow>
              io_fs w2 q = io_fs demo_store_io q))"
    by (rule upload_confined [OF nm pl(2) demo_static demo_plain(1) side(1) impI [OF side(2)] side(3,4) up])
  have out: "abs_path ([''out''] @ d @ slug # rest) = ''/out/hls/s2/a.ts''" if "abs_path [''hls'', ''s2'', ''a.ts''] = abs_path (d @ slug # rest)" for d slug rest
    using that by (simp add: abs_path_def join_Cons)
  from conf have "\<forall>q. q \<noteq> ''/out/hls/s2/a.ts'' \<longrightarrow> q \<noteq> tmpPath ''/out/hls/s2/a.ts'' \<longrightarrow> io_fs w2 q = io_fs demo_store_io q"
  proof (elim disjE exE conjE)
    fix d slug rest
    assume cl': "clean (rq_path (demo_request ''/hls/x/../s2/a.ts'')) = abs_path (d @ slug # rest)"
      and fr: "\<forall>q. q \<noteq> abs_path ([''out''] @ d @ slug # rest) \<longrightarrow> q \<noteq> tmpPath (abs_path ([''out''] @ d @ slug # rest)) \<longrightarrow> io_fs w2 q = io_fs demo_store_io q"
    have "abs_path ([''out''] @ d @ slug # rest) = ''/out/hls/s2/a.ts''" using cl' unfolding rq cl by (rule out)
    then show ?thesis using fr by (simp only:)
  qed (simp only: simp_thms)
  with up show ?thesis by blast
qed

text \<open>Escaped dots pass the multiplexer and are decoded before the handler sees them. The access check cleans the path on its own,
  the place to write is cleaned together with the output directory: the file is written outside of it.\<close>

lemma escaped_dots_leave_output:
  "\<exists>w'. Server_ServeHTTP 10 demo_lib (\<lambda>_. no_faults) (100 * second) (Auth demo_match demo_static) ''/srv/out''
       ''/%2E%2E/hls/s2/a.ts'' (demo_request ''/../hls/s2/a.ts'')
       (body_read False) [''ab'', ''c''] (demo_server, demo_store_io) = Some (Inr (200, fst (demo_admitted ''s2''), w'))
    \<and> io_fs w' ''/srv/hls/s2/a.ts'' = Some ''abc''"
proof -
  have rt: "serveMux server_mux ''PUT'' ''/%2E%2E/hls/s2/a.ts'' = Routed UploadRoute" by code_simp
  have au: "Auth demo_match demo_static ''u'' ''p'' ''/../hls/s2/a.ts'' = Inr (''s2'', True)" by code_simp
  have jo: "joinPath [''/srv/out'', ''/../hls/s2/a.ts''] = abs_path ([''srv'', ''hls'', ''s2''] @ [''a.ts''])" by code_simp
  have pl: "list_all plain_elem [''srv'', ''hls'', ''s2'']" by code_simp
  have "abs_path ([''srv'', ''hls'', ''s2''] @ [''a.ts'']) = ''/srv/hls/s2/a.ts''" by code_simp
  with demo_front [OF rt au jo pl] show ?thesis by (simp only:)
qed

end
