(* ===== verification/Startup.thy ===== *)
theory Startup
  imports UploadServer Publish Monitor LogReceiver
begin

text \<open>
  How the programs start and end: the configuration of \<open>stream-api\<close> (\<open>src/config/config.go\<close>) and of the upload server
  (\<open>src/cmd/upload-server/config.go\<close>) with their defaults, the session of the Consul client (\<open>src/client/consul.go\<close>), the
  services \<open>src/cmd/stream-api/main.go\<close> starts, what stopping the upload server releases (\<open>src/upload/server.go\<close>,
  \<open>handler.go\<close>), the reaction to signals (\<open>src/util\<close>) and the settings of the log collector
  (\<open>src/cmd/nginx-syslog-stream-counter\<close>).

  Reading files, the YAML and TOML decoders, the host name and the answers of Consul are parameters. A decoder gives the
  configuration it leaves behind, and an error if there was one.
\<close>

section \<open>Configuration\<close>

record TLSConfig =
  tl_CertFile :: string
  tl_KeyFile :: string
  tl_TrustedCAFile :: string

record Network =
  nw_Name :: string
  nw_Endpoints :: "string list"
  nw_TLS :: "TLSConfig option"

record FanoutConfig =
  ff_Enable :: bool
  ff_ConfigPath :: string
  ff_Sink :: string

record MonitorConfig =
  mf_Enable :: bool
  mf_Address :: string

record Config =
  cf_Network :: Network
  cf_Publisher :: PublisherConfig
  cf_Transcode :: TranscodeConfig
  cf_Fanout :: FanoutConfig
  cf_Monitor :: MonitorConfig

definition default_cfg :: Config where
  "default_cfg =
     \<lparr>cf_Network = \<lparr>nw_Name = [], nw_Endpoints = [], nw_TLS = None\<rparr>,
      cf_Publisher = \<lparr>pf_Enable = False, pf_Sources = [], pf_Interval = 3 * second, pf_Timeout = 15 * second\<rparr>,
      cf_Transcode = \<lparr>tf_Enable = False, tf_Capacity = 0, tf_ConfigPath = [], tf_Sink = []\<rparr>,
      cf_Fanout = \<lparr>ff_Enable = False, ff_ConfigPath = [], ff_Sink = []\<rparr>,
      cf_Monitor = \<lparr>mf_Enable = False, mf_Address = []\<rparr>\<rparr>"

definition Config_Parse :: "(string \<Rightarrow> string + string) \<Rightarrow> (string \<Rightarrow> Config \<Rightarrow> Config \<times> string option) \<Rightarrow> string \<Rightarrow> Config \<times> string option" where
  "Config_Parse readFile unmarshal path =
     (case readFile path of
        Inl err \<Rightarrow> (default_cfg, Some err)
      | Inr data \<Rightarrow> unmarshal data default_cfg)"

record upload_Config =
  uc_Server :: ServerConfig
  uc_Auth :: AuthConfig

definition defaultConfig :: upload_Config where
  "defaultConfig =
     \<lparr>uc_Server = \<lparr>sc_addr = ''localhost:8080'', sc_outputPath = ''/tmp/upload'', sc_maxSegmentSize = 100 * 1024 * 1024,
        sc_maxPlaylistSize = 256 * 1024, sc_streamTimeout = 15 * minute, sc_streamOriginDuration = 6 * second, sc_playlistSize = 10\<rparr>,
      uc_Auth = \<lparr>AllowedDirs = [], Users = []\<rparr>\<rparr>"

definition parseConfig :: "(string \<Rightarrow> string + string) \<Rightarrow> (string \<Rightarrow> upload_Config \<Rightarrow> upload_Config \<times> string option) \<Rightarrow> string \<Rightarrow>
    upload_Config \<Rightarrow> upload_Config \<times> string option" where
  "parseConfig readFile unmarshal path conf =
     (case readFile path of
        Inl err \<Rightarrow> (conf, Some err)
      | Inr data \<Rightarrow> unmarshal data conf)"

text \<open>The log collector derives the minimum of segments from the sliding window.\<close>

definition maxSegmentDuration :: duration where
  "maxSegmentDuration = 5 * second"

definition collector_config :: "string \<Rightarrow> duration \<Rightarrow> ParserConfig" where
  "collector_config socket slidingWindow =
     \<lparr>pc_SocketPath = socket, pc_SlidingWindow = slidingWindow,
      pc_MinSegments = (slidingWindow sdiv maxSegmentDuration) sdiv 2, pc_StreamTimeout = 0\<rparr>"

section \<open>The session with Consul\<close>

record SessionEntry =
  sx_Name :: string
  sx_Behavior :: string
  sx_LockDelay :: duration
  sx_TTL :: string

record ConsulClient =
  cc_conf :: Network
  cc_sessionTTL :: string
  cc_sessionId :: string

text \<open>\<open>create\<close> asks Consul, whose state is of type \<open>'w\<close>, for a session.\<close>

type_synonym 'w session_api = "SessionEntry \<Rightarrow> 'w \<Rightarrow> (string + string) \<times> 'w"

definition renewSession :: "'w session_api \<Rightarrow> ConsulClient \<times> 'w \<Rightarrow> string option \<times> ConsulClient \<times> 'w" where
  "renewSession create st =
     (case st of (cc, w) \<Rightarrow>
        (case create \<lparr>sx_Name = nw_Name (cc_conf cc), sx_Behavior = ''delete'', sx_LockDelay = 5 * second, sx_TTL = cc_sessionTTL cc\<rparr> w of
           (Inl err, w') \<Rightarrow> (Some err, cc, w')
         | (Inr i, w') \<Rightarrow> (None, cc\<lparr>cc_sessionId := i\<rparr>, w')))"

text \<open>\<open>newClient\<close> is the outcome of the library's constructor.\<close>

definition NewConsulClient :: "string option \<Rightarrow> 'w session_api \<Rightarrow> Network \<Rightarrow> 'w \<Rightarrow> (string + ConsulClient) \<times> 'w" where
  "NewConsulClient newClient create conf w =
     (case newClient of
        Some err \<Rightarrow> (Inl err, w)
      | None \<Rightarrow>
          (case renewSession create (\<lparr>cc_conf = conf, cc_sessionTTL = ''10s'', cc_sessionId = []\<rparr>, w) of
             (Some err, cc, w') \<Rightarrow> (Inl err, w')
           | (None, cc, w') \<Rightarrow> (Inr cc, w')))"

text \<open>One turn of \<open>keepaliveSession\<close>: the periodic renewal has ended, for whatever reason, \<open>pass\<close> is what happens at Consul
  until then and during the pause, and a new session is asked for; the error is dropped.\<close>

definition keepaliveSession :: "'w session_api \<Rightarrow> ('w \<Rightarrow> 'w) \<Rightarrow> ConsulClient \<times> 'w \<Rightarrow> ConsulClient \<times> 'w" where
  "keepaliveSession create pass st = snd (renewSession create (fst st, pass (snd st)))"

text \<open>\<open>Close\<close> destroys the session; an error is only logged.\<close>

definition Client_Close :: "(string \<Rightarrow> 'w \<Rightarrow> string option \<times> 'w) \<Rightarrow> ConsulClient \<times> 'w \<Rightarrow> 'w" where
  "Client_Close destroy st = snd (destroy (cc_sessionId (fst st)) (snd st))"

section \<open>Starting the services\<close>

datatype fqdn_error = ErrFqdnNotFound | FqdnError string

text \<open>\<open>None\<close>: the program ends.\<close>

definition getHostname :: "string \<times> fqdn_error option \<Rightarrow> string + string \<Rightarrow> string option" where
  "getHostname fqdn hostname =
     (case fqdn of
        (name, None) \<Rightarrow> Some name
      | (name, Some err) \<Rightarrow>
          if err \<noteq> ErrFqdnNotFound then Some name
          else (case hostname of Inl e \<Rightarrow> None | Inr n \<Rightarrow> Some n))"

datatype 'k running =
    RunningMonitor mon_watcher mon_server
  | RunningPublisher "scraper list" Publisher
  | RunningTranscoder "'k Transcoder"

definition start_services :: "Config \<Rightarrow> string \<Rightarrow> 'k running list go" where
  "start_services cfg name =
     (let monitor = (if mf_Enable (cf_Monitor cfg) then [RunningMonitor mon_newWatcher newServer] else []);
          transcoder = (if tf_Enable (cf_Transcode cfg) then [RunningTranscoder (Transcoder_New (cf_Transcode cfg) name)] else [])
      in if pf_Enable (cf_Publisher cfg)
         then go_bind (Publisher_New (cf_Publisher cfg)) (\<lambda>(scrapers, p). Inr (monitor @ [RunningPublisher scrapers p] @ transcoder))
         else Inr (monitor @ transcoder))"

text \<open>\<open>main\<close> up to the moment it waits: \<open>None\<close> if it ends before. The error of the configuration is not acted upon.\<close>

definition stream_api_main :: "string \<times> fqdn_error option \<Rightarrow> string + string \<Rightarrow> string option \<Rightarrow>
    (string \<Rightarrow> string + string) \<Rightarrow> (string \<Rightarrow> Config \<Rightarrow> Config \<times> string option) \<Rightarrow> string \<Rightarrow>
    string option \<Rightarrow> 'w session_api \<Rightarrow> 'w \<Rightarrow> (ConsulClient \<times> 'w \<times> 'k running list) go option" where
  "stream_api_main fqdn hostname nameFlag readFile unmarshal path newClient create w =
     Option.bind (getHostname fqdn hostname) (\<lambda>host.
       let name = (case nameFlag of None \<Rightarrow> host | Some n \<Rightarrow> n);
           cfg = fst (Config_Parse readFile unmarshal path);
           net = (cf_Network cfg)\<lparr>nw_Name := name\<rparr>
       in case NewConsulClient newClient create net w of
            (Inl err, w') \<Rightarrow> None
          | (Inr cc, w') \<Rightarrow> Some (go_bind (start_services cfg name) (\<lambda>rs. Inr (cc, w', rs))))"

section \<open>Stopping the upload server\<close>

text \<open>\<open>Stop\<close> of the handler: the stream store removes every stream, then the registry removes every path it knows from disk.
  \<open>r\<close> is the state of the registry's goroutine; the result has the paths it removes. \<open>Stop\<close> of the server first ends the
  HTTP server.\<close>

definition Handler_Stop :: "string list \<Rightarrow> (string \<Rightarrow> cleanup_order) \<Rightarrow> string list \<Rightarrow> FileRegistry \<Rightarrow> Handler \<times> io \<Rightarrow> (string list \<times> Handler \<times> io) go" where
  "Handler_Stop order ords files r st =
     (case st of (hn, w) \<Rightarrow>
        go_bind (store_step (StopEv order ords) (hn_store hn, w)) (\<lambda>(store, w').
          Inr (fst (registry_step r (RegDone files)), hn\<lparr>hn_store := store\<rparr>, w')))"

section \<open>Signals\<close>

datatype signal = SIGHUP | SIGINT | SIGTERM

datatype wake = WakeDone | Caught signal

fun shutdown_loop :: "wake list \<Rightarrow> bool" where
  "shutdown_loop [] = False"
| "shutdown_loop (WakeDone # ws) = True"
| "shutdown_loop (Caught sig # ws) = (sig \<noteq> SIGHUP \<or> shutdown_loop ws)"

datatype shutdown = Waiting | ShutdownComplete | ShutdownTimedOut

text \<open>\<open>took\<close> is how long the shutdown function runs, \<open>None\<close> if it never returns; when both branches are ready, \<open>first\<close> decides.\<close>

definition GracefulShutdown :: "wake list \<Rightarrow> duration option \<Rightarrow> duration \<Rightarrow> bool \<Rightarrow> shutdown" where
  "GracefulShutdown ws took timeout first =
     (if \<not> shutdown_loop ws then Waiting
      else case took of
             None \<Rightarrow> ShutdownTimedOut
           | Some d \<Rightarrow> if d < timeout \<or> d = timeout \<and> first then ShutdownComplete else ShutdownTimedOut)"

text \<open>\<open>HandleSignal\<close>: how often it cancels.\<close>

fun HandleSignal :: "wake list \<Rightarrow> nat" where
  "HandleSignal [] = 0"
| "HandleSignal (WakeDone # ws) = 0"
| "HandleSignal (Caught sig # ws) = (if sig = SIGHUP then 0 else 1) + HandleSignal ws"

lemma shutdown_loop_iff: "shutdown_loop ws \<longleftrightarrow> (\<exists>w \<in> set ws. w \<noteq> Caught SIGHUP)"
  by (induction ws rule: shutdown_loop.induct) auto

text \<open>Hangups never end a program; once something else wakes it, it ends, with or without its shutdown function.\<close>

lemma graceful_shutdown_ends: "GracefulShutdown ws took timeout first \<noteq> Waiting \<longleftrightarrow> (\<exists>w \<in> set ws. w \<noteq> Caught SIGHUP)"
  by (auto simp: GracefulShutdown_def shutdown_loop_iff split: option.splits)

lemma signal_cancels: "HandleSignal ws > 0 \<longleftrightarrow> (\<exists>w \<in> set (takeWhile (\<lambda>w. w \<noteq> WakeDone) ws). w \<noteq> Caught SIGHUP)"
  by (induction ws rule: HandleSignal.induct) auto

section \<open>The session\<close>

text \<open>\<open>issued\<close> is the set of sessions Consul has handed out.\<close>

definition issues :: "'w session_api \<Rightarrow> ('w \<Rightarrow> string set) \<Rightarrow> bool" where
  "issues create issued \<longleftrightarrow> (\<forall>e w i w'. create e w = (Inr i, w') \<longrightarrow> i \<in> issued w')
     \<and> (\<forall>e w r w'. create e w = (r, w') \<longrightarrow> issued w \<subseteq> issued w')"

lemma renewSession_issued:
  assumes "issues create issued" "cc_sessionId cc \<in> issued w" "renewSession create (cc, w) = (err, cc', w')"
  shows "cc_sessionId cc' \<in> issued w'"
proof -
  obtain a w1 where c: "create \<lparr>sx_Name = nw_Name (cc_conf cc), sx_Behavior = ''delete'', sx_LockDelay = 5 * second, sx_TTL = cc_sessionTTL cc\<rparr> w = (a, w1)"
    by force
  have "issued w \<subseteq> issued w1" "a = Inr i \<Longrightarrow> i \<in> issued w1" for i
    using assms(1) c unfolding issues_def by blast+
  with assms(2,3) c show ?thesis by (cases a) (auto simp: renewSession_def)
qed

lemma keepalive_issued:
  assumes "issues create issued" "\<forall>f \<in> set fs. \<forall>w. issued w \<subseteq> issued (f w)" "cc_sessionId (fst st) \<in> issued (snd st)"
  shows "cc_sessionId (fst (fold (keepaliveSession create) fs st)) \<in> issued (snd (fold (keepaliveSession create) fs st))"
  using assms(2,3)
proof (induction fs arbitrary: st)
  case Nil
  then show ?case by simp
next
  case (Cons f fs)
  obtain err cc w where r: "renewSession create (fst st, f (snd st)) = (err, cc, w)" by (metis prod_cases3)
  have "cc_sessionId (fst st) \<in> issued (f (snd st))" using Cons.prems by auto
  from renewSession_issued [OF assms(1) this r] Cons.IH [of "(cc, w)"] Cons.prems show ?case
    by (simp add: keepaliveSession_def r)
qed

text \<open>A client that has been made always works with a session Consul has handed out, however often it had to be replaced.\<close>

lemma client_session_issued:
  assumes "issues create issued" "NewConsulClient newClient create conf w = (Inr cc, w')"
    and "\<forall>f \<in> set fs. \<forall>w. issued w \<subseteq> issued (f w)" "fold (keepaliveSession create) fs (cc, w') = (cc', w'')"
  shows "cc_sessionId cc' \<in> issued w''"
proof -
  have "cc_sessionId cc \<in> issued w'"
    using assms(1,2) by (auto simp: NewConsulClient_def renewSession_def issues_def split: prod.splits sum.splits option.splits)
  with keepalive_issued [OF assms(1,3), of "(cc, w')"] assms(4) show ?thesis by simp
qed

text \<open>When the context has ended the periodic renewal returns at once; the loop goes on, and every turn makes one more session.\<close>

lemma keepalive_never_ends:
  assumes "\<And>e w. create e w = (Inr (show_id w), Suc w)"
  shows "snd (fold (keepaliveSession create) (replicate n id) (cc, w)) = w + n"
  using assms by (induction n arbitrary: cc w) (simp_all add: keepaliveSession_def renewSession_def)

section \<open>What a start leads to\<close>

definition enabled :: "Config \<Rightarrow> string \<Rightarrow> 'k running list" where
  "enabled cfg name =
     (if mf_Enable (cf_Monitor cfg) then [RunningMonitor mon_newWatcher newServer] else [])
     @ (if pf_Enable (cf_Publisher cfg)
        then [RunningPublisher (makeScrapers (pf_Sources (cf_Publisher cfg)))
                \<lparr>pb_ttl = pf_Timeout (cf_Publisher cfg) sdiv pf_Interval (cf_Publisher cfg), pb_streams = Map.empty\<rparr>] else [])
     @ (if tf_Enable (cf_Transcode cfg) then [RunningTranscoder (Transcoder_New (cf_Transcode cfg) name)] else [])"

lemma start_services_enabled:
  "start_services cfg name =
     (if pf_Enable (cf_Publisher cfg) \<and> pf_Interval (cf_Publisher cfg) = 0 then Inl DivideByZero else Inr (enabled cfg name))"
  by (simp add: start_services_def Publisher_New_def enabled_def Let_def)

text \<open>With a session and a configuration that does not enable a publisher with interval zero, \<open>main\<close> starts exactly the enabled
  services; a configuration that says nothing of it leaves the streams of a publisher five ticks of life.\<close>

lemma stream_api_starts:
  assumes "getHostname fqdn hostname = Some host" "NewConsulClient newClient create net w = (Inr cc, w')"
    and "net = (cf_Network cfg)\<lparr>nw_Name := host\<rparr>" "readFile path = Inr data" "unmarshal data default_cfg = (cfg, err)"
    and "pf_Enable (cf_Publisher cfg) \<longrightarrow> pf_Interval (cf_Publisher cfg) \<noteq> 0"
  shows "stream_api_main fqdn hostname None readFile unmarshal path newClient create w = Some (Inr (cc, w', enabled cfg host))"
  using assms by (auto simp: stream_api_main_def Config_Parse_def start_services_enabled Let_def)

lemma default_ttl: "pf_Timeout (cf_Publisher default_cfg) sdiv pf_Interval (cf_Publisher default_cfg) = 5"
  by (simp add: default_cfg_def second_def signed_divide_int_def)

text \<open>When the configuration cannot be read the program does not end: it runs without any service.\<close>

lemma unreadable_config_runs_idle:
  assumes "getHostname fqdn hostname = Some host" "readFile path = Inl e"
    and "NewConsulClient newClient create ((cf_Network default_cfg)\<lparr>nw_Name := host\<rparr>) w = (Inr cc, w')"
  shows "stream_api_main fqdn hostname None readFile unmarshal path newClient create w = Some (Inr (cc, w', []))"
  using assms by (simp add: stream_api_main_def Config_Parse_def start_services_enabled enabled_def default_cfg_def Let_def)

text \<open>The upload server with its defaults: playlists, sizes and times are positive, so nothing that depends on them panics.\<close>

lemma upload_defaults_usable:
  "0 < sc_playlistSize (uc_Server defaultConfig)" "0 < sc_maxSegmentSize (uc_Server defaultConfig)" "0 < sc_maxPlaylistSize (uc_Server defaultConfig)"
  "ss_config (hn_store (NewHandler (uc_Server defaultConfig))) =
     \<lparr>StreamTimeout = 15 * minute, StreamExpireInterval = DefaultStreamExpireInterval, StreamOriginDuration = 6 * second\<rparr>"
  "\<exists>a. NewStaticAuth (uc_Auth defaultConfig) = Inr a"
  by (simp_all add: defaultConfig_def NewHandler_def NewStreamStore_def NewStaticAuth_def minute_def second_def Let_def)

text \<open>Half of the segments that fit into the window, rounded down; for the default window of 30 seconds more than three of six.\<close>

lemma collector_min_segments:
  assumes "0 \<le> window"
  shows "pc_MinSegments (collector_config socket window) = window div (10 * second)"
    and "pc_MinSegments (collector_config socket (30 * second)) = 3"
proof -
  have "x sdiv y = x div y" if "0 \<le> x" "0 < y" for x y :: int
    using that by (simp add: signed_divide_int_def sgn_if)
  moreover have "0 \<le> window div (5 * second)" using assms by (simp add: second_def)
  ultimately show "pc_MinSegments (collector_config socket window) = window div (10 * second)"
    using assms by (simp add: collector_config_def maxSegmentDuration_def second_def zdiv_zmult2_eq [symmetric])
qed (simp add: collector_config_def maxSegmentDuration_def second_def signed_divide_int_def)

section \<open>Properties\<close>

text \<open>C40. Stopping the upload server never panics and leaves nothing behind: whatever streams there are and in whatever order maps
  are iterated, the stream store is empty afterwards, every channel of a stream is closed, and the registry removes exactly
  the paths it knows, each once.\<close>

theorem server_stop_releases:
  assumes "store_ok (hn_store hn, w)" "tick_ok order ords (hn_store hn, w)" "range_order (fr_files r) files"
  shows "\<exists>removed hn' w'. Handler_Stop order ords files r (hn, w) = Inr (removed, hn', w')
    \<and> ss_data (hn_store hn') = Map.empty \<and> set removed = dom (fr_files r) \<and> distinct removed
    \<and> (\<forall>slug s. ss_data (hn_store hn) slug = Some s \<longrightarrow> stream_chans s \<subseteq> closed (io_chans w'))"
proof -
  let ?st = "hn_store hn"
  have ord: "distinct order" "set order = dom (ss_data ?st)" "ss_data ?st k = Some s \<Longrightarrow> order_ok s (ords k)" for k s
    using assms(2) by (auto simp: tick_ok_def range_order_def)
  from removal_loop [OF ord(1) assms(1), of ords] ord(3) obtain C where stop:
    "go_fold (\<lambda>slug. removeStream (ords slug) slug) order (?st, w) = Inr (?st\<lparr>ss_data := ss_data ?st |` (- set order)\<rparr>, close_all C w)"
    "\<forall>k s. k \<in> set order \<longrightarrow> ss_data ?st k = Some s \<longrightarrow> stream_chans s \<subseteq> C" by blast
  have empty: "ss_data ?st |` (- set order) = Map.empty" unfolding ord(2) by (auto simp: restrict_map_def)
  have "\<forall>slug s. ss_data ?st slug = Some s \<longrightarrow> stream_chans s \<subseteq> closed (io_chans (close_all C w))"
    using stop(2) ord(2) by (fastforce simp: domI)
  moreover have "set (registry_cleanup files r) = dom (fr_files r)" "distinct (registry_cleanup files r)"
    using assms(3) by (auto simp: registry_cleanup_def range_order_def)
  ultimately show ?thesis using stop(1) empty by (simp add: Handler_Stop_def)
qed

definition demo_registry_a :: FileRegistry where
  "demo_registry_a = registry_add (KeepFile ''/out/a'' 0) (NewFileRegistry \<lparr>ExpireInterval = 0, KeepDelay = 0\<rparr>)"

theorem server_stop_releases_witness:
  "\<exists>removed hn' w'. Handler_Stop [''a''] demo_order [''/out/a''] demo_registry_a
       (demo_server\<lparr>hn_store := demo_store\<rparr>, demo_store_io\<lparr>io_chans := \<lparr>next_chan = 1, closed = {}\<rparr>\<rparr>) = Inr (removed, hn', w')
     \<and> set removed = {''/out/a''} \<and> 0 \<in> closed (io_chans w')"
proof -
  let ?w = "demo_store_io\<lparr>io_chans := \<lparr>next_chan = 1, closed = {}\<rparr>\<rparr>" and ?hn = "demo_server\<lparr>hn_store := demo_store\<rparr>"
  have dom: "dom (fr_files demo_registry_a) = {''/out/a''}"
    by (simp add: demo_registry_a_def registry_add_def NewFileRegistry_def KeepFile_def Let_def)
  then have reg: "range_order (fr_files demo_registry_a) [''/out/a'']" by (simp add: range_order_def)
  have pre: "store_ok (hn_store ?hn, ?w)" "tick_ok [''a''] demo_order (hn_store ?hn, ?w)"
    using demo_store_ok demo_tick_ok by simp_all
  from server_stop_releases [OF pre reg] obtain removed hn' w' where stop:
    "Handler_Stop [''a''] demo_order [''/out/a''] demo_registry_a (?hn, ?w) = Inr (removed, hn', w')" "set removed = {''/out/a''}"
    "\<forall>slug s. ss_data (hn_store ?hn) slug = Some s \<longrightarrow> stream_chans s \<subseteq> closed (io_chans w')" unfolding dom by (elim exE conjE) (rule that)
  have "ss_data (hn_store ?hn) ''a'' = Some demo_stream_a" "0 \<in> stream_chans demo_stream_a"
    by (simp_all add: demo_store_def stream_chans_def demo_stream_a_def)
  with stop(3) have "0 \<in> closed (io_chans w')" by (meson subsetD)
  with stop(1,2) show ?thesis by (intro exI conjI)
qed

end
