(* ===== verification/Mains.thy ===== *)
theory Mains
  imports HttpFront Startup
begin

text \<open>
  The main functions from their flags to the exit code: the upload server (\<open>cmd/upload-server/main.go\<close>), the
  exporter (\<open>cmd/transcoding-exporter/main.go\<close>), the log collector (\<open>cmd/nginx-syslog-stream-counter/main.go\<close>, with the errors of
  \<open>logreceiver.NewParser\<close>), and the end of \<open>cmd/stream-api/main.go\<close>.

  The outcome of every call to the system (reading a file, listening, serving, shutting down) is a parameter, with what wakes the
  program as a list of events in their order.
\<close>

section \<open>The upload server\<close>

datatype exit = Running | Exit nat | Panicked panic

record upload_flags =
  uf_config :: string
  uf_addr :: "string option"
  uf_path :: "string option"

text \<open>\<open>flag.StringVar\<close>: a flag is written to the field of the configuration it belongs to when the flags are parsed.\<close>

definition with_flags :: "upload_flags \<Rightarrow> upload_Config \<Rightarrow> upload_Config" where
  "with_flags fl conf =
     conf\<lparr>uc_Server := (uc_Server conf)\<lparr>
        sc_addr := (case uf_addr fl of None \<Rightarrow> sc_addr (uc_Server conf) | Some v \<Rightarrow> v),
        sc_outputPath := (case uf_path fl of None \<Rightarrow> sc_outputPath (uc_Server conf) | Some v \<Rightarrow> v)\<rparr>\<rparr>"

text \<open>What wakes \<open>GracefulShutdown\<close>: a signal, or the context that the goroutine cancels when serving has failed.\<close>

datatype upload_event = ServerFailed string | UploadSignal signal

definition upload_wake :: "upload_event \<Rightarrow> wake" where
  "upload_wake ev = (case ev of ServerFailed _ \<Rightarrow> WakeDone | UploadSignal sig \<Rightarrow> Caught sig)"

text \<open>The configuration with which the server is started, or how the program ends before.\<close>

definition upload_server_setup :: "(string \<Rightarrow> string + string) \<Rightarrow> (string \<Rightarrow> upload_Config \<Rightarrow> upload_Config \<times> string option) \<Rightarrow>
    upload_flags \<Rightarrow> (string \<Rightarrow> string option) \<Rightarrow> exit + StaticAuth \<times> ServerConfig \<times> server" where
  "upload_server_setup readFile unmarshal fl listen =
     (case parseConfig readFile unmarshal (uf_config fl) (with_flags fl defaultConfig) of
        (conf, Some err) \<Rightarrow> Inl (Exit 1)
      | (conf, None) \<Rightarrow>
          (case NewStaticAuth (uc_Auth conf) of
             Inl p \<Rightarrow> Inl (Panicked p)
           | Inr a \<Rightarrow>
               (case NewServer (listen (sc_addr (uc_Server conf))) (uc_Server conf) of
                  Inl err \<Rightarrow> Inl (Exit 1)
                | Inr s \<Rightarrow> Inr (a, uc_Server conf, s))))"

definition upload_server_main :: "(string \<Rightarrow> string + string) \<Rightarrow> (string \<Rightarrow> upload_Config \<Rightarrow> upload_Config \<times> string option) \<Rightarrow>
    upload_flags \<Rightarrow> (string \<Rightarrow> string option) \<Rightarrow> upload_event list \<Rightarrow> duration option \<Rightarrow> bool \<Rightarrow> exit" where
  "upload_server_main readFile unmarshal fl listen events took first =
     (case upload_server_setup readFile unmarshal fl listen of
        Inl e \<Rightarrow> e
      | Inr _ \<Rightarrow> if GracefulShutdown (map upload_wake events) took (2 * second) first = Waiting then Running else Exit 0)"

text \<open>A server that has been started ends with code 0, also when it ends because serving has failed, and hangups never end it.\<close>

lemma upload_server_exit:
  assumes "upload_server_setup readFile unmarshal fl listen = Inr r"
  shows "upload_server_main readFile unmarshal fl listen events took first =
    (if \<exists>ev \<in> set events. ev \<noteq> UploadSignal SIGHUP then Exit 0 else Running)"
proof -
  have "upload_wake ev \<noteq> Caught SIGHUP \<longleftrightarrow> ev \<noteq> UploadSignal SIGHUP" for ev by (cases ev) (simp_all add: upload_wake_def)
  then show ?thesis
    using assms graceful_shutdown_ends [of "map upload_wake events" took "2 * second" first] by (auto simp: upload_server_main_def)
qed

text \<open>The file is read into the configuration after the flags: for what it sets the flags have no effect. \<open>sets_addr\<close> is a file that sets
  the address.\<close>

definition sets_addr :: "(string \<Rightarrow> upload_Config \<Rightarrow> upload_Config \<times> string option) \<Rightarrow> string \<Rightarrow> string \<Rightarrow> bool" where
  "sets_addr unmarshal data addr \<longleftrightarrow> (\<forall>conf. sc_addr (uc_Server (fst (unmarshal data conf))) = addr)"

lemma file_overrides_flags:
  assumes "readFile (uf_config fl) = Inr data" "sets_addr unmarshal data addr"
    and "upload_server_setup readFile unmarshal fl listen = Inr (a, conf, s)"
  shows "sc_addr conf = addr \<and> listen addr = None \<and> s = server_start conf"
  using assms unfolding sets_addr_def
  by (auto simp: upload_server_setup_def parseConfig_def NewServer_def split: prod.splits option.splits sum.splits)
    (metis fst_conv)+

section \<open>The exporter\<close>

datatype serve_event = ServeFailed string | Interrupted

text \<open>\<open>run\<close>: \<open>None\<close> while it waits, otherwise its error. A failed server only cancels the context.\<close>

definition exporter_run :: "string \<Rightarrow> string option \<Rightarrow> serve_event list \<Rightarrow> string option \<Rightarrow> string option option" where
  "exporter_run metricsListen listenErr events shutdownErr =
     (case listenErr of
        Some err \<Rightarrow> Some (Some (''failed to listen on '' @ metricsListen @ '': '' @ err))
      | None \<Rightarrow> if events = [] then None else Some shutdownErr)"

definition run_exit :: "string option option \<Rightarrow> exit" where
  "run_exit r = (case r of None \<Rightarrow> Running | Some None \<Rightarrow> Exit 0 | Some (Some err) \<Rightarrow> Exit 1)"

lemma exporter_failed_serving_exits_0: "run_exit (exporter_run l None (ServeFailed err # events) None) = Exit 0"
  by (simp add: run_exit_def exporter_run_def)

section \<open>The log collector\<close>

text \<open>\<open>NewParser\<close> with its errors; a socket that is left over is removed before.\<close>

definition open_parser :: "string option \<Rightarrow> string option \<Rightarrow> ParserConfig \<Rightarrow> string + log_Parser \<times> duration" where
  "open_parser listenErr registerErr conf =
     (case listenErr of
        Some err \<Rightarrow> Inl err
      | None \<Rightarrow>
          (case registerErr of
             Some err \<Rightarrow> Inl err
           | None \<Rightarrow> Inr (NewParser conf)))"

definition collector_run :: "string \<Rightarrow> string option \<Rightarrow> string option \<Rightarrow> duration \<Rightarrow> string \<Rightarrow> string option \<Rightarrow> serve_event list \<Rightarrow> string option option" where
  "collector_run socket socketErr registerErr slidingWindow prometheusListen listenErr events =
     (case open_parser socketErr registerErr (collector_config socket slidingWindow) of
        Inl err \<Rightarrow> Some (Some err)
      | Inr p \<Rightarrow>
          (case listenErr of
             Some err \<Rightarrow> Some (Some (''failed to listen on '' @ prometheusListen @ '': '' @ err))
           | None \<Rightarrow> if events = [] then None else Some None))"

text \<open>The collector fails exactly if it cannot open its socket, register or listen; whatever ends it later is no failure.\<close>

lemma collector_exit:
  "run_exit (collector_run socket socketErr registerErr slidingWindow l listenErr events) =
     (if socketErr \<noteq> None \<or> registerErr \<noteq> None \<or> listenErr \<noteq> None then Exit 1 else if events = [] then Running else Exit 0)"
  by (simp add: run_exit_def collector_run_def open_parser_def split: option.split)

section \<open>The end of stream-api\<close>

text \<open>What the client reports: \<open>Errors\<close> makes a new channel, on which nothing is ever sent.\<close>

definition Client_Errors :: "string list" where
  "Client_Errors = []"

text \<open>\<open>handleSignal\<close>: an interrupt cancels. An error of the client would set the exit code and cancel. The services' \<open>Wait\<close> is
  taken to return.\<close>

definition stream_api_end :: "nat \<Rightarrow> exit" where
  "stream_api_end interrupts =
     (case Client_Errors of
        err # _ \<Rightarrow> Exit 255
      | [] \<Rightarrow> if 0 < interrupts then Exit 0 else Running)"

lemma stream_api_exits_0: "stream_api_end interrupts \<in> {Running, Exit 0}"
  by (simp add: stream_api_end_def Client_Errors_def)

end
