(* ===== verification/Spec2Isabelle.thy ===== *)
theory Spec2Isabelle
  imports HlsService ServerRun ProxyRun Publish Loops Monitor LogCorrect Dash Exporter Mains
begin

text \<open>
  The services of \<open>stream-api\<close>, which take live video uploads, keep them on disk, spread them over relays and
  transcoders and watch over all of it. This library models the Go code under \<open>src/\<close> and proves what makes each
  part correct; properties that span several parts are at the end of this theory.

  \<^bold>\<open>Parts and how they interact.\<close> Encoders upload segments and playlists to the \<^emph>\<open>upload server\<close> (\<open>src/upload\<close>): a
  request is authenticated, its stream is looked up in the stream store, and the file is written atomically or, for a
  playlist, parsed and rewritten by the HLS parser, which tells the file registry by channels which segments to keep;
  the registry deletes what nobody keeps. The \<^emph>\<open>upload proxy\<close> (\<open>src/cmd/upload-proxy\<close>) copies every upload to several
  servers. The other services meet in a \<^emph>\<open>key value store\<close>, Consul, through \<open>src/client\<close>: the publisher
  (\<open>src/publish\<close>) writes the streams that its sources name, transcoders (\<open>src/transcode\<close>) claim streams and run a systemd unit for
  each (\<open>src/systemd\<close>), the monitor (\<open>src/monitor\<close>) shows the store to its clients and stores settings, and the authentication
  service (\<open>src/auth\<close>) admits publishers by these settings. On the relays, the log receiver (\<open>src/logreceiver\<close>) counts viewers from
  access logs, and the transcoding exporter (\<open>src/cmd/transcoding-exporter\<close>) turns the progress of ffmpeg into metrics.

  \<^bold>\<open>Theories.\<close>
  \<^item> \<open>Prelude\<close>: panics as values (\<open>'a go\<close>), channels that are closed once, the orders in which Go may range over a map.
    \<open>GoPath\<close>: strings and paths as packages \<open>strings\<close> and \<open>path\<close> treat them. \<open>Interfaces\<close>: the contracts as locales.
  \<^item> \<open>FileRegistry\<close> (\<open>upload/file_registry.go\<close>), \<open>Writer\<close> (\<open>writer.go\<close>, \<open>limit_reader.go\<close>), \<open>Playlist\<close>, \<open>HlsMetrics\<close>, \<open>Hls\<close>
    (\<open>hls.go\<close>, \<open>hls_metrics.go\<close>), \<open>StreamStore\<close> (\<open>stream.go\<close>, \<open>stream_store.go\<close>), \<open>UploadAuth\<close> (\<open>auth.go\<close>), \<open>UploadServer\<close>
    (\<open>handler.go\<close>, \<open>server.go\<close>): the upload server. \<open>HlsCorrect\<close> and \<open>HlsService\<close> prove what the parser guarantees, \<open>System\<close> what parser
    and registry need of each other, \<open>ServerRun\<close> composes the server: any number of streams, the store and the registry.
    \<open>HttpFront\<close> has what stands before the handlers: the multiplexer of \<open>net/http\<close> with the routes of every server (\<open>upload/server.go\<close>,
    \<open>upload/api.go\<close>, \<open>auth/auth.go\<close>, the exporter, the monitor), and the websocket clients of \<open>monitor/server.go\<close>.
  \<^item> \<open>Sink\<close> (\<open>sink.go\<close>, \<open>config.go\<close>), \<open>Proxy\<close> (\<open>proxy.go\<close>) and \<open>ProxyRun\<close> (\<open>main.go\<close> and the life of the proxy): the upload proxy.
  \<^item> \<open>Client\<close> (\<open>client/path.go\<close>, \<open>apis.go\<close>, \<open>consul.go\<close>): keys, the watch handler, access to the store. \<open>StreamAuth\<close> (\<open>stream\<close>,
    \<open>auth\<close>), \<open>Systemd\<close> (\<open>systemd\<close>), \<open>Transcode\<close> and \<open>TranscodeCorrect\<close> (\<open>transcode\<close>), \<open>Fleet\<close> (several transcoders on one
    store, with sessions that expire), \<open>Publish\<close> (\<open>publish\<close> and its sources), \<open>Monitor\<close> (\<open>monitor\<close>), \<open>StoreTyping\<close> (what everybody may write to
    the store), \<open>WatchLoop\<close> (\<open>Watch\<close> of \<open>client/consul.go\<close>, its channel and a loop that consumes it) and \<open>Loops\<close> (the \<open>run\<close> functions of the
    authentication service, the transcoder and the monitor).
  \<^item> \<open>LogReceiver\<close> and \<open>LogCorrect\<close> (\<open>logreceiver\<close>), \<open>Dash\<close> (\<open>logreceiver/dash.go\<close>),
    \<open>Exporter\<close> (\<open>cmd/transcoding-exporter\<close>).
  \<^item> \<open>Startup\<close>: configuration (\<open>config\<close>, \<open>cmd/upload-server/config.go\<close>), the session of the Consul client, the services that \<open>cmd/stream-api\<close>
    starts, the end of the upload server, signals (\<open>util\<close>), the settings of the log collector.
    \<open>Mains\<close>: the main functions from flags to exit code.

  \<^bold>\<open>State and operations.\<close> A struct is a record with the fields of the source, prefixed; a method is a function of the
  same name on it, prefixed where two types share a name (\<open>Sink_handle\<close>, \<open>mon_handleStream\<close>). An operation that may panic
  returns \<open>panic + 'a\<close>; an error of the code is a value. An operation under a mutex is one step. Loops over a list are folds or
  recursive functions, so they end; the retry loop of the proxy runs over the list of answers it gets, and theorem
  \<open>upload_ends\<close> shows that it ends once the clock has passed the deadline. A range over a map takes the order of its keys as an argument, and the
  theorems hold for every order. The clock is an argument. Goroutines that interleave are step relations
  (\<open>registry_step\<close>, \<open>store_step\<close>, \<open>server_step\<close>, \<open>proxy_run\<close>, \<open>service_step\<close>, \<open>transcoder_act\<close>, \<open>fleet_step\<close>, \<open>deploy_step\<close>,
  \<open>process_step\<close>, \<open>log_step\<close>, \<open>mon_step\<close>, \<open>ws_step\<close>), and what holds in every
  state they reach is proved by rule induction.

  \<^bold>\<open>What is shown.\<close>
  \<^item> Upload: files are written atomically and, unless escaped dots in a path lead above the root, only where the access list allows it; a stream belongs to one origin at a
    time; every segment a playlist lists is kept until it leaves the playlist and removed afterwards; playlists continue without loss
    or repetition; stopping the server closes every channel and removes every registered path; nothing panics.
  \<^item> Proxy: every upload reaches the queue of every sink, a full queue drops its oldest entry, each upload is counted once; whatever
    happens, the sinks that stay are those of the configuration that was loaded last.
  \<^item> Store: a consumer of a watch ends up with a copy of the store (locale \<open>watch_consumer\<close>, interpreted by authentication, transcoders and
    monitor; for the loops around them locale \<open>watch_loop\<close>); every key of the store has one of four forms and its value the type that belongs to it; streams named by a source are published and expire when they are no longer named; a stream is transcoded at most once as long as
    sessions live, and no transcoder exceeds its capacity; a systemd service is a switch.
  \<^item> Log receiver and exporter: viewers are counted once, at the stream they watch most, and are backed by requests; counters are
    the high-water marks of what ffmpeg reports.

  \<^bold>\<open>Interfaces.\<close> \<open>bounded_window\<close> (live playlist, segment durations, sink queue), \<open>keep_registry\<close> (file registry), \<open>ttl_store\<close>
  (stream store, publisher), \<open>safe_steps\<close> (parser, stream store), \<open>parser_effect\<close> (what holds of parsing because it
  holds of keeping and expiring files: growth of the queue, channels touched), \<open>watch_consumer\<close> and \<open>watch_loop\<close>; each is interpreted where the component that provides it is
  modelled.

  \<^bold>\<open>Parameters.\<close> Code outside the repository is an argument: the m3u8 library, wildcard matching, URL and configuration
  decoders, JSON, the HTTP client, the router of the monitor, D-Bus and Consul. What is relied on is stated as a hypothesis (\<open>kv_laws\<close>, \<open>session_locks\<close>,
  \<open>put_law\<close>, \<open>template_law\<close>, round trips of encoders), and a witness instantiates it with a concrete function.

  \<^bold>\<open>Not modelled.\<close> Listening, TLS and serving, logging, profiling and the registration of metrics, since they only call libraries; the
  websocket protocol, the monitor's web page and \<open>monitor/embed.go\<close>, which embeds it; timeouts of single requests to Consul; the unused response
  types of \<open>upload/api.go\<close> and \<open>logreceiver/streamRegistry.go\<close>, which is empty. Data races are not modelled: an operation under a mutex is one
  step, and where the code takes no mutex the findings say so.
  Floating point numbers are real numbers without NaN and infinities, and integers that only count are unbounded.
\<close>

section \<open>From a source to the transcoders\<close>

lemma StreamPath_watched: "plain_elem slug \<Longrightarrow> hasPrefix (StreamPath slug) StreamPrefix"
  using key_of_parts [OF key_parts(1), of slug] by (simp add: StreamPrefix_def hasPrefix_def)

lemma watched_value:
  assumes "below StreamPrefix store pairs" "distinct (map kv_Key pairs)" "plain_elem slug"
  shows "(\<exists>kv \<in> set pairs. split slash (kv_Key kv) = [''stream'', slug] \<and> kv_Value kv = v) \<longleftrightarrow> store (StreamPath slug) = Some v"
proof -
  have key: "split slash k = [''stream'', slug] \<longleftrightarrow> k = StreamPath slug" for k
    using key_of_parts key_parts(1) [OF assms(3)] by metis
  have "store (StreamPath slug) = snapshot pairs (StreamPath slug)"
    using assms(1) StreamPath_watched [OF assms(3)] by (simp add: below_def)
  then show ?thesis by (auto simp: key snapshot_Some_iff [OF assms(2)])
qed

text \<open>C22. A stream that a source names reaches the transcoders: after any ticks of a publisher, a transcoder
  whose loop has received a snapshot of the store taken then knows every
  stream that the last tick's scrapes named, with the description of one of its sources.\<close>

theorem named_stream_reaches_transcoder:
  assumes "kv_laws api lookup" "puts_work api" "\<forall>s \<in> named results. \<forall>v. marshal s = Inr v \<longrightarrow> unmarshal_stream js v = Inr s"
    and "Publisher_New pconf = Inr (scrapers, p)" "1 < pb_ttl p"
    and "good_ticks api marshal (ticks @ [(results, order)]) (p, k)" "Publisher_ticks api marshal (ticks @ [(results, order)]) (p, k) = (p', k')"
    and "Transcoder_run_start tapi js deadline nows None None (Transcoder_New tconf name) h = (Some (Inr (w1, w2)), h1)"
    and "process_reach (stream_round tapi js) (transcoder_other tapi js) snaps (process_start w2 (Transcoder_New tconf name, h1)) proc"
    and "\<forall>pairs. snaps pairs \<longrightarrow> distinct (map kv_Key pairs) \<and> list_all (stream_pair js) pairs"
    and "below StreamPrefix (lookup k') (pr_last proc)" "wt_sending (pr_watch proc) = None" "pr_loop proc = Looping (t, h')"
    and "slug \<in> st_Slug ` named results"
  shows "\<exists>s \<in> named results. st_Slug s = slug \<and> tc_streams t slug = Some s"
proof -
  have p: "stored_ok p" "plain_stored p"
    using assms(4) by (auto simp: Publisher_New_def stored_ok_def plain_stored_def split: if_splits)
  have "slug \<in> st_Slug ` named (fst (results, order))" using assms(14) by simp
  with good_ticks_publish [where s = "(p, k)", OF assms(1,2) _ _ _ assms(6) this, unfolded assms(7)] p assms(5)
  have "\<exists>x \<in> named results. \<exists>v. st_Slug x = slug \<and> marshal x = Inr v \<and> lookup k' (StreamPath slug) = Some v" by simp
  then obtain x v where x: "x \<in> named results" "st_Slug x = slug" "marshal x = Inr v" "lookup k' (StreamPath slug) = Some v" by blast
  have plain: "plain_elem slug" using good_ticks_named [OF assms(6), of x] x(1,2) by simp
  have ok: "tsl.process_ok js proc" using transcoder_process_ok [OF assms(8-10)] by (rule conjunct1)
  have "distinct (map kv_Key (pr_last proc))" using ok unfolding tsl.process_ok_def by (elim conjE)
  from iffD2 [OF watched_value [OF assms(11) this plain] x(4)]
  obtain kv where "kv \<in> set (pr_last proc)" "split slash (kv_Key kv) = [''stream'', slug]" "kv_Value kv = v" by blast
  moreover have "unmarshal_stream js v = Inr x" using bspec [OF assms(3) x(1)] x(3) by simp
  moreover have "slug \<noteq> []" using plain unfolding plain_elem_def by (rule conjunct1)
  ultimately have "slug \<noteq> [] \<and> (\<exists>kv \<in> set (pr_last proc). split slash (kv_Key kv) = [''stream'', slug] \<and> unmarshal_stream js (kv_Value kv) = Inr x)" by blast
  then have "tc_streams t slug = Some x" by (rule iffD2 [OF transcoder_streams_held [OF ok assms(13,12), of slug x]])
  with x(1,2) show ?thesis by blast
qed

text \<open>A source names \<open>s1\<close>, the publisher stores it, and the transcoder of theory \<open>TranscodeCorrect\<close>'s
  examples gets the pair from its watch.\<close>

theorem named_stream_reaches_transcoder_witness:
  "\<exists>h1 w proc t h'. process_reach (stream_round demo_api demo_js) (transcoder_other demo_api demo_js)
       (\<lambda>pairs. pairs = [\<lparr>kv_Key = ''stream/s1'', kv_Value = ''s1''\<rparr>]) (process_start w (demo_transcoder, h1)) proc
     \<and> pr_loop proc = Looping (t, h') \<and> tc_streams t ''s1'' = Some (demo_stream ''s1'')"
proof -
  let ?pconf = "\<lparr>pf_Enable = True, pf_Sources = [], pf_Interval = 3, pf_Timeout = 15\<rparr>" and ?m = "\<lambda>s. Inr (st_Slug s) :: string + string"
  let ?p = "\<lparr>pb_ttl = 5, pb_streams = Map.empty\<rparr>" and ?pairs = "[\<lparr>kv_Key = ''stream/s1'', kv_Value = ''s1''\<rparr>]"
  let ?results = "[Inr [demo_stream ''s1'']] :: (string + stream_Stream list) list"
  let ?ch = "demo_choice\<lparr>cc_transcoders := []\<rparr>"
  have new: "Publisher_New ?pconf = Inr ([], ?p)" by (simp add: Publisher_New_def makeScrapers_def signed_divide_int_def)
  have plain: "plain_elem ''s1''" by (simp add: plain_elem_def)
  then have path: "StreamPath ''s1'' = ''stream/s1''" using key_of_parts [OF key_parts(1)] by simp
  obtain p' k' where ticks: "Publisher_ticks demo_kv ?m ([] @ [(?results, [''s1''])]) (?p, Map.empty) = (p', k')" by fastforce
  then have k': "k' = [''stream/s1'' \<mapsto> ''s1'']"
    by (auto simp: path Publisher_tick_def scrapeResult_def processUpdate_def processStream_def publishStream_def addStream_def
        expireStream_def demo_kv_def demo_stream_def)
  have good: "good_ticks demo_kv ?m ([] @ [(?results, [''s1''])]) (?p, Map.empty)"
    using plain by (simp add: encodable_def range_order_def scrapeResult_def processUpdate_def processStream_def publishStream_def
        addStream_def demo_kv_def demo_stream_def)
  have below: "below StreamPrefix k' ?pairs" by (simp add: below_def snapshot_def k' StreamPrefix_def hasPrefix_def)
  obtain w h1 proc t where start: "Transcoder_run_start demo_api demo_js 1 [0] None None demo_transcoder demo_host = (Some (Inr (w, w)), h1)"
    and proc: "process_reach (stream_round demo_api demo_js) (transcoder_other demo_api demo_js) (\<lambda>pairs. pairs = ?pairs) (process_start w (demo_transcoder, h1)) proc"
    "pr_loop proc = Looping (t, h1)" "wt_sending (pr_watch proc) = None" "pr_last proc = ?pairs"
    by (rule demo_transcoder_process)
  have snaps: "\<forall>pairs. pairs = ?pairs \<longrightarrow> distinct (map kv_Key pairs) \<and> list_all (stream_pair demo_js) pairs"
    by (simp add: stream_pair_def demo_js_def)
  have "\<forall>s \<in> named ?results. \<forall>v. ?m s = Inr v \<longrightarrow> unmarshal_stream demo_js v = Inr s" by (simp add: demo_js_def demo_stream_def)
  from named_stream_reaches_transcoder [where lookup = "\<lambda>k. k" and marshal = ?m, OF demo_kv_laws(1,2) this new _ good ticks
      start [unfolded demo_transcoder_def] proc(1) [unfolded demo_transcoder_def] snaps _ proc(3,2), of "''s1''"] below proc(4)
  have "tc_streams t ''s1'' = Some (demo_stream ''s1'')" by (simp add: demo_stream_def)
  with proc(1,2) show ?thesis by blast
qed

section \<open>From the monitor to the authentication service\<close>

lemma settings_stored:
  assumes "put_law put lookup" "HandleSetStreamSettings put unmarshal marshal body k = (Reply 200 [], k')" "decodeJSON unmarshal body = Inr settings"
  shows "\<exists>v. marshal settings = Inr v \<and> lookup k' (StreamSettingsPath (se_Slug settings)) = Some v"
proof -
  from assms(2,3) obtain v where v: "marshal settings = Inr v"
    by (cases "marshal settings") (auto simp: HandleSetStreamSettings_def split: prod.splits option.splits)
  let ?kv = "\<lparr>kv_Key = StreamSettingsPath (se_Slug settings), kv_Value = v\<rparr>"
  have "put ?kv k = (None, k')"
    using assms(2,3) v by (auto simp: HandleSetStreamSettings_def Client_Put_def split: prod.splits option.splits)
  moreover have "lookup (snd (put ?kv k)) = (if fst (put ?kv k) = None then (lookup k)(kv_Key ?kv \<mapsto> kv_Value ?kv) else lookup k)"
    using assms(1) [unfolded put_law_def, rule_format, of ?kv k] .
  ultimately show ?thesis using v by simp
qed

lemma settings_path: "plain_elem n \<Longrightarrow> StreamSettingsPath n = ''streamSettings/'' @ n"
  using key_of_parts [OF key_parts(3), of n] by simp

text \<open>C23. Settings that an operator sends to the monitor take effect: if the request is answered with 200, the
  authentication service, once its loop has received a snapshot of the store taken then,
  lets exactly those publishers of the stream through that give its application and its secret.\<close>

theorem settings_take_effect:
  assumes "put_law put lookup" "HandleSetStreamSettings put unmarshal marshal body k = (Reply 200 [], k')"
    and "decodeJSON unmarshal body = Inr settings" "plain_elem (se_Slug settings)" "\<forall>v. marshal settings = Inr v \<longrightarrow> unmarshal v = Inr settings"
    and "auth_run_start None = Inr p0" "process_reach (\<lambda>msg w l. l = auth_round unmarshal msg w) (\<lambda>_ _. False) snaps p0 p"
    and "\<forall>pairs. snaps pairs \<longrightarrow> distinct (map kv_Key pairs) \<and> list_all (settings_pair unmarshal) pairs"
    and "below StreamSettingsPrefix (lookup k') (pr_last p)" "wt_sending (pr_watch p) = None" "pr_loop p = Looping w"
    and "form_get f ''name'' = se_Slug settings"
  shows "authHandler w (Inr f) =
    (if form_get f ''app'' = se_IngestType settings \<and> form_get f ''auth'' = se_Secret settings then 200 else StatusUnauthorized)"
proof -
  let ?slug = "se_Slug settings"
  note ok = auth_process_ok [OF assms(6-8)]
  from settings_stored [OF assms(1-3)] obtain v where v: "marshal settings = Inr v" "lookup k' (StreamSettingsPath ?slug) = Some v" by blast
  have "hasPrefix (''streamSettings/'' @ ?slug) StreamSettingsPrefix" unfolding StreamSettingsPrefix_def by (rule hasPrefix_append)
  with assms(9) v(2) have "snapshot (pr_last p) (''streamSettings/'' @ ?slug) = Some v"
    unfolding below_def settings_path [OF assms(4)] by (simp only: if_True)
  moreover have dist: "distinct (map kv_Key (pr_last p))" using ok unfolding awl.process_ok_def by (elim conjE)
  ultimately obtain kv where kv: "kv \<in> set (pr_last p)" "kv_Key kv = ''streamSettings/'' @ ?slug" "kv_Value kv = v"
    unfolding snapshot_Some_iff [of "pr_last p", OF dist] by (elim bexE conjE)
  moreover have "unmarshal v = Inr settings" by (rule assms(5) [rule_format, OF v(1)])
  ultimately have "\<exists>kv \<in> set (pr_last p). kv_Key kv = ''streamSettings/'' @ ?slug \<and> unmarshal (kv_Value kv) = Inr settings" by (intro bexI [of _ kv]) simp_all
  then have "aw_settings w ?slug = Some settings" unfolding auth_settings_held [OF ok assms(11,10)] .
  then show ?thesis unfolding authHandler_form assms(12) by auto
qed

theorem settings_take_effect_witness:
  "\<exists>p0 p w. auth_run_start None = Inr p0 \<and> process_reach (\<lambda>msg w l. l = auth_round (\<lambda>v. demo_settings (tl v)) msg w) (\<lambda>_ _. False)
       (\<lambda>pairs. pairs = [\<lparr>kv_Key = ''streamSettings/s1'', kv_Value = ''vpw''\<rparr>]) p0 p
     \<and> pr_loop p = Looping w \<and> authHandler w (Inr [''app'' \<mapsto> [''stream''], ''name'' \<mapsto> [''s1''], ''auth'' \<mapsto> [''pw'']]) = 200"
proof -
  let ?put = "\<lambda>kv k. (None :: string option, k(kv_Key kv \<mapsto> kv_Value kv))" and ?u = "\<lambda>v. demo_settings (tl v)" and ?m = "\<lambda>s. Inr (CHR ''v'' # se_Secret s) :: string + string"
  let ?pairs = "[\<lparr>kv_Key = ''streamSettings/s1'', kv_Value = ''vpw''\<rparr>]" and ?k = "[''streamSettings/s1'' \<mapsto> ''vpw'']"
  have plain: "plain_elem ''s1''" by (simp add: plain_elem_def)
  obtain s where s: "demo_settings ''pw'' = Inr s" "se_Slug s = ''s1''" "se_Secret s = ''pw''" "se_IngestType s = ''stream''" by (simp add: demo_settings_def)
  have body: "decodeJSON ?u (Inr ''vpw'') = Inr s" using s(1) by (simp add: decodeJSON_def maxBody_def)
  have set: "HandleSetStreamSettings ?put ?u ?m (Inr ''vpw'') Map.empty = (Reply 200 [], ?k)"
    using body s settings_path [OF plain] by (simp add: HandleSetStreamSettings_def Client_Put_def)
  have law: "put_law ?put (\<lambda>k. k)" by (simp add: put_law_def)
  have below: "below StreamSettingsPrefix ?k ?pairs" by (simp add: below_def snapshot_def StreamSettingsPrefix_def hasPrefix_def)
  have "settings_key ''streamSettings/s1''" using settings_key_iff [of "''streamSettings/s1''" "''s1''"] by simp
  then have snaps: "\<forall>pairs. pairs = ?pairs \<longrightarrow> distinct (map kv_Key pairs) \<and> list_all (settings_pair ?u) pairs"
    by (simp add: settings_pair_def decoded_def demo_settings_def)
  obtain p0 p w where proc: "auth_run_start None = Inr p0" "process_reach (\<lambda>msg w l. l = auth_round ?u msg w) (\<lambda>_ _. False) (\<lambda>pairs. pairs = ?pairs) p0 p"
    "pr_loop p = Looping w" "wt_sending (pr_watch p) = None" "pr_last p = ?pairs"
    by (rule demo_auth_process)
  from settings_take_effect [where lookup = "\<lambda>k. k", OF law set body _ _ proc(1,2) snaps _ proc(4,3), of "[''app'' \<mapsto> [''stream''], ''name'' \<mapsto> [''s1''], ''auth'' \<mapsto> [''pw'']]"]
    s plain below proc(5)
  have "authHandler w (Inr [''app'' \<mapsto> [''stream''], ''name'' \<mapsto> [''s1''], ''auth'' \<mapsto> [''pw'']]) = 200" by (simp add: form_get_def)
  with proc(1-3) show ?thesis by blast
qed

end
